(* ===== verification/Prelude.thy ===== *)
theory Prelude
  imports Complex_Main "HOL-Library.Word" "HOL-Library.AList"
begin

text \<open>
  Shared vocabulary of the development: how the Rust standard library types the gateway uses are
  read in HOL, and the lemmas about them that every component needs.

  \<^item> \<open>usize\<close>, \<open>u32\<close> and \<open>u64\<close> values are naturals wherever the code saturates, compares or
    indexes; the saturating operations are written out here. Values that wrap (an
    \<open>AtomicUsize::fetch_add\<close> cursor) and bit masks are 64-bit words.
  \<^item> An \<open>Instant\<close> and a \<open>Duration\<close> are naturals, in nanoseconds. Every clock read of the source is
    an argument of the definition that reads it.
  \<^item> A \<open>String\<close> is its UTF-8 byte sequence, a \<open>string\<close>.
  \<^item> A \<open>HashMap\<close> is an association list with distinct keys: its order stands for the arbitrary
    iteration order of the source, and no definition depends on it other than through the
    iteration the source itself makes.
  \<^item> A \<open>Vec\<close> read with \<open>get\<close> is \<open>vec_get\<close>, an option; an indexed read occurs only where the
    source has checked the bound.
\<close>

named_theorems registry_simps \<open>point reads after point writes of the keyed registries\<close>
named_theorems balancer_simps \<open>unfolding rules of the load-balancing strategies\<close>
named_theorems limit_simps \<open>unfolding rules of the admission limits\<close>

section \<open>Integers\<close>

type_synonym usize = nat
type_synonym instant = nat
type_synonym duration = nat

definition u32_max :: nat where
  "u32_max = 4294967295"

definition u64_max :: nat where
  "u64_max = 18446744073709551615"

definition saturating_add :: "nat \<Rightarrow> nat \<Rightarrow> nat \<Rightarrow> nat" where
  "saturating_add cap a b = min cap (a + b)"

definition saturating_mul :: "nat \<Rightarrow> nat \<Rightarrow> nat \<Rightarrow> nat" where
  "saturating_mul cap a b = min cap (a * b)"

definition from_secs :: "nat \<Rightarrow> duration" where
  "from_secs s = s * 1000000000"

definition from_millis :: "nat \<Rightarrow> duration" where
  "from_millis ms = ms * 1000000"

definition as_secs :: "duration \<Rightarrow> nat" where
  "as_secs d = d div 1000000000"

lemma saturating_add_le [simp]: "saturating_add cap a b \<le> cap"
  by (simp add: saturating_add_def)

lemma saturating_add_pos [simp]: "0 < cap \<Longrightarrow> 0 < saturating_add cap a 1"
  by (simp add: saturating_add_def)

lemma saturating_add_mono: "a \<le> cap \<Longrightarrow> a \<le> saturating_add cap a b"
  by (simp add: saturating_add_def)

lemma from_secs_mono [simp]: "(from_secs a \<le> from_secs b) = (a \<le> b)"
  by (simp add: from_secs_def)

lemma from_secs_less [simp]: "(from_secs a < from_secs b) = (a < b)"
  by (simp add: from_secs_def)

lemma from_secs_0 [simp]: "from_secs 0 = 0"
  by (simp add: from_secs_def)

lemma from_secs_pos [simp]: "(0 < from_secs s) = (0 < s)"
  by (simp add: from_secs_def)

section \<open>Vectors\<close>

definition vec_get :: "'a list \<Rightarrow> nat \<Rightarrow> 'a option" where
  "vec_get xs i = (if i < length xs then Some (xs ! i) else None)"

definition vec_resize :: "'a list \<Rightarrow> nat \<Rightarrow> 'a \<Rightarrow> 'a list" where
  "vec_resize xs n v = take n xs @ replicate (n - length xs) v"

lemma vec_get_Nil [simp]: "vec_get [] i = None"
  by (simp add: vec_get_def)

lemma vec_get_eq_Some: "vec_get xs i = Some x \<longleftrightarrow> i < length xs \<and> xs ! i = x"
  by (auto simp: vec_get_def)

lemma vec_get_eq_None [simp]: "vec_get xs i = None \<longleftrightarrow> length xs \<le> i"
  by (auto simp: vec_get_def)

lemma vec_get_nth [simp]: "i < length xs \<Longrightarrow> vec_get xs i = Some (xs ! i)"
  by (simp add: vec_get_def)

lemma length_vec_resize [simp]: "length (vec_resize xs n v) = n"
  by (simp add: vec_resize_def)

lemma vec_get_resize:
  "length xs \<le> n \<Longrightarrow>
    vec_get (vec_resize xs n v) i =
      (if i < length xs then Some (xs ! i) else if i < n then Some v else None)"
  by (auto simp: vec_get_def vec_resize_def nth_append)

section \<open>Hash maps\<close>

type_synonym ('k, 'v) hash_map = "('k \<times> 'v) list"

definition hm_get :: "('k, 'v) hash_map \<Rightarrow> 'k \<Rightarrow> 'v option" where
  "hm_get m k = map_of m k"

definition hm_insert :: "'k \<Rightarrow> 'v \<Rightarrow> ('k, 'v) hash_map \<Rightarrow> ('k, 'v) hash_map" where
  "hm_insert k v m = AList.update k v m"

definition hm_remove :: "'k \<Rightarrow> ('k, 'v) hash_map \<Rightarrow> ('k, 'v) hash_map" where
  "hm_remove k m = AList.delete k m"

definition hm_wf :: "('k, 'v) hash_map \<Rightarrow> bool" where
  "hm_wf m = distinct (map fst m)"

text \<open>
  The interface every keyed table of the gateway is used through. The laws are those of
  \<open>HashMap\<close>: a read after a write, and that the keys stay distinct.
\<close>

locale keyed_table =
  fixes get :: "'m \<Rightarrow> 'k \<Rightarrow> 'v option"
    and put :: "'k \<Rightarrow> 'v \<Rightarrow> 'm \<Rightarrow> 'm"
    and del :: "'k \<Rightarrow> 'm \<Rightarrow> 'm"
    and wf :: "'m \<Rightarrow> bool"
  assumes get_put: "get (put k v m) k' = (if k' = k then Some v else get m k')"
    and get_del: "get (del k m) k' = (if k' = k then None else get m k')"
    and wf_put: "wf m \<Longrightarrow> wf (put k v m)"
    and wf_del: "wf m \<Longrightarrow> wf (del k m)"
begin

lemma get_put_same: "get (put k v m) k = Some v"
  by (simp add: get_put)

lemma get_put_other: "k' \<noteq> k \<Longrightarrow> get (put k v m) k' = get m k'"
  by (simp add: get_put)

lemma get_del_same: "get (del k m) k = None"
  by (simp add: get_del)

lemma put_put_get: "get (put k v (put k w m)) = get (put k v m)"
  by (simp add: fun_eq_iff get_put)

lemma del_put_get: "get (del k (put k v m)) = get (del k m)"
  by (simp add: fun_eq_iff get_put get_del)

end

interpretation hm: keyed_table hm_get hm_insert hm_remove hm_wf
proof unfold_locales
  fix k k' :: 'a and v :: 'b and m :: "('a, 'b) hash_map"
  show "hm_get (hm_insert k v m) k' = (if k' = k then Some v else hm_get m k')"
    by (simp add: hm_get_def hm_insert_def update_conv)
  show "hm_get (hm_remove k m) k' = (if k' = k then None else hm_get m k')"
    by (simp add: hm_get_def hm_remove_def delete_conv)
  show "hm_wf m \<Longrightarrow> hm_wf (hm_insert k v m)"
    by (simp add: hm_wf_def hm_insert_def distinct_update)
  show "hm_wf m \<Longrightarrow> hm_wf (hm_remove k m)"
    by (simp add: hm_wf_def hm_remove_def distinct_delete)
qed

lemmas hm_laws [simp, registry_simps] = hm.get_put hm.get_del

lemma hm_get_Nil [simp]: "hm_get [] k = None"
  by (simp add: hm_get_def)

lemma hm_wf_Nil [simp]: "hm_wf []"
  by (simp add: hm_wf_def)

lemma hm_get_Cons: "hm_get ((k, v) # m) k' = (if k' = k then Some v else hm_get m k')"
  by (simp add: hm_get_def)

lemma hm_get_in_set: "hm_wf m \<Longrightarrow> hm_get m k = Some v \<longleftrightarrow> (k, v) \<in> set m"
  by (simp add: hm_wf_def hm_get_def)

lemma hm_wf_filter [simp]: "hm_wf m \<Longrightarrow> hm_wf (filter P m)"
  by (simp add: hm_wf_def distinct_map_filter)

lemma hm_get_filter:
  assumes "hm_wf m"
  shows "hm_get (filter P m) k =
    (case hm_get m k of None \<Rightarrow> None | Some v \<Rightarrow> if P (k, v) then Some v else None)"
proof (cases "hm_get m k")
  case None
  then have "k \<notin> fst ` set m"
    by (simp add: hm_get_def map_of_eq_None_iff)
  then have "k \<notin> fst ` set (filter P m)"
    by auto
  then have "map_of (filter P m) k = None"
    by (simp only: map_of_eq_None_iff not_False_eq_True)
  with None show ?thesis
    by (simp add: hm_get_def)
next
  case (Some v)
  with assms have mem: "(k, v) \<in> set m"
    by (simp add: hm_get_in_set)
  have uniq: "w = v" if "(k, w) \<in> set m" for w
    using assms Some that by (simp add: hm_get_in_set [symmetric])
  show ?thesis
  proof (cases "P (k, v)")
    case True
    with mem have "(k, v) \<in> set (filter P m)"
      by simp
    with assms have "hm_get (filter P m) k = Some v"
      by (simp add: hm_get_in_set)
    with Some True show ?thesis by simp
  next
    case False
    with uniq have "k \<notin> fst ` set (filter P m)"
      by auto
    then have "map_of (filter P m) k = None"
      by (simp only: map_of_eq_None_iff not_False_eq_True)
    with Some False show ?thesis
      by (simp add: hm_get_def)
  qed
qed

lemma hm_wf_map_snd [simp]: "hm_wf (map (\<lambda>(k, v). (k, f k v)) m) = hm_wf m"
proof -
  have "map fst (map (\<lambda>(k, v). (k, f k v)) m) = map fst m"
    by (simp add: case_prod_unfold)
  then show ?thesis
    by (simp only: hm_wf_def)
qed

lemma hm_get_map_snd: "hm_get (map (\<lambda>(k, v). (k, f k v)) m) k = map_option (f k) (hm_get m k)"
  by (induction m) (auto simp: hm_get_Cons split: prod.splits)

section \<open>Slot tables\<close>

text \<open>
  The per-target registries (\<open>cooldowns.rs\<close>, \<open>breaker.rs\<close>) share one layout: a map from the
  public model to a vector of optional entries addressed by target index. \<open>slot_get\<close> is the
  partial function from (model, target) to entry that such a table represents.
\<close>

type_synonym 'e slot_table = "(string, 'e option list) hash_map"

definition slot_at :: "'e option list \<Rightarrow> nat \<Rightarrow> 'e option" where
  "slot_at v i = (case vec_get v i of Some (Some e) \<Rightarrow> Some e | _ \<Rightarrow> None)"

definition slot_get :: "'e slot_table \<Rightarrow> string \<Rightarrow> nat \<Rightarrow> 'e option" where
  "slot_get m model i = (case hm_get m model of None \<Rightarrow> None | Some v \<Rightarrow> slot_at v i)"

text \<open>Overwriting the entry of a slot that exists, as \<open>get_mut\<close> followed by a write does.\<close>

definition slot_set :: "'e slot_table \<Rightarrow> string \<Rightarrow> nat \<Rightarrow> 'e option \<Rightarrow> 'e slot_table" where
  "slot_set m model i e =
     (case hm_get m model of None \<Rightarrow> m | Some v \<Rightarrow> hm_insert model (v[i := e]) m)"

lemma slot_at_Nil [simp]: "slot_at [] i = None"
  by (simp add: slot_at_def)

lemma slot_at_update:
  "slot_at (v[i := e]) j = (if j = i \<and> i < length v then e else slot_at v j)"
  by (auto simp: slot_at_def vec_get_def nth_list_update split: option.splits)

lemma slot_at_clear: "slot_at (v[i := None]) j = (if j = i then None else slot_at v j)"
  by (cases "i < length v") (auto simp: slot_at_update, auto simp: slot_at_def vec_get_def)

lemma slot_at_eq_Some: "slot_at v i = Some e \<longleftrightarrow> i < length v \<and> v ! i = Some e"
  by (auto simp: slot_at_def vec_get_def split: option.splits)

lemma slot_at_resize:
  "length v \<le> n \<Longrightarrow> slot_at (vec_resize v n None) i = slot_at v i"
  by (auto simp: slot_at_def vec_resize_def vec_get_def nth_append split: option.splits)

lemma slot_at_all_None: "list_all (\<lambda>s. s = None) v \<Longrightarrow> slot_at v i = None"
  by (auto simp: slot_at_def vec_get_def list_all_length split: option.splits)

lemma slot_at_replicate_None [simp]: "slot_at (replicate n None) i = None"
  by (auto simp: slot_at_def vec_get_def)

lemma slot_get_Nil [simp]: "slot_get [] model i = None"
  by (simp add: slot_get_def)

lemma slot_get_set [registry_simps]:
  assumes "slot_get m model i \<noteq> None"
  shows "slot_get (slot_set m model i e) model' j =
    (if model' = model \<and> j = i then e else slot_get m model' j)"
  using assms
  by (auto simp: slot_get_def slot_set_def slot_at_update slot_at_eq_Some split: option.splits)

lemma slot_get_insert [registry_simps]:
  "slot_get (hm_insert model v m) model' i =
    (if model' = model then slot_at v i else slot_get m model' i)"
  by (simp add: slot_get_def)

lemma slot_get_remove [registry_simps]:
  "slot_get (hm_remove model m) model' i = (if model' = model then None else slot_get m model' i)"
  by (simp add: slot_get_def)

lemma slot_wf_set [simp]: "hm_wf m \<Longrightarrow> hm_wf (slot_set m model i e)"
  by (auto simp: slot_set_def hm.wf_put split: option.splits)

text \<open>
  The tail of every read or reset that may have emptied a model's last slot: a model with no entry
  left is dropped from the table, so that the table never keeps a key that says nothing
  (\<open>slot_live\<close>).
\<close>

definition slot_vacant :: "'e option list \<Rightarrow> bool" where
  "slot_vacant v = list_all (\<lambda>s. s = None) v"

definition slot_settle :: "'e slot_table \<Rightarrow> string \<Rightarrow> 'e option list \<Rightarrow> 'e slot_table" where
  "slot_settle m model v = (if slot_vacant v then hm_remove model m else hm_insert model v m)"

definition slot_live :: "'e slot_table \<Rightarrow> bool" where
  "slot_live m = (hm_wf m \<and> list_all (\<lambda>(_, v). \<not> slot_vacant v) m)"

lemma slot_vacant_at: "slot_vacant v \<Longrightarrow> slot_at v i = None"
  unfolding slot_vacant_def by (rule slot_at_all_None)

lemma slot_vacant_iff: "slot_vacant v \<longleftrightarrow> (\<forall>i. slot_at v i = None)"
  by (auto simp: slot_vacant_at) (auto simp: slot_vacant_def list_all_length slot_at_def
      vec_get_def split: option.splits if_splits)

lemma slot_get_settle [registry_simps]:
  "slot_get (slot_settle m model v) model' i =
    (if model' = model then slot_at v i else slot_get m model' i)"
  by (simp add: slot_settle_def slot_get_insert slot_get_remove slot_vacant_at)

lemma slot_live_Nil [simp]: "slot_live []"
  by (simp add: slot_live_def)

lemma slot_live_insert:
  assumes "slot_live m" and "\<not> slot_vacant v"
  shows "slot_live (hm_insert model v m)"
proof -
  have "set (AList.update model v m) \<subseteq> insert (model, v) (set m)"
    by (induction m) auto
  then have "set (hm_insert model v m) \<subseteq> insert (model, v) (set m)"
    by (simp add: hm_insert_def)
  with assms show ?thesis
    by (auto simp: slot_live_def hm.wf_put list_all_iff)
qed

lemma slot_live_remove: "slot_live m \<Longrightarrow> slot_live (hm_remove model m)"
  by (auto simp: slot_live_def hm.wf_del list_all_iff hm_remove_def AList.delete_eq)

lemma slot_live_settle: "slot_live m \<Longrightarrow> slot_live (slot_settle m model v)"
  by (simp add: slot_settle_def slot_live_insert slot_live_remove)

lemma slot_live_key:
  assumes "slot_live m" and "hm_get m model = Some v"
  shows "\<exists>i. slot_get m model i \<noteq> None"
proof -
  from assms have "(model, v) \<in> set m" "\<forall>(k, v) \<in> set m. \<not> slot_vacant v"
    by (simp_all add: slot_live_def hm_get_in_set list_all_iff case_prod_unfold)
  then have "\<not> slot_vacant v" by auto
  with assms(2) show ?thesis
    by (simp add: slot_get_def slot_vacant_iff)
qed

section \<open>Counting tables\<close>

text \<open>
  Two registries count live guards per key (\<open>load.rs\<close>, \<open>route_limits.rs\<close>): a guard increments on
  creation and its drop decrements, removing a key that reached zero. \<open>count_of\<close> is the number a
  table holds for a key.
\<close>

definition count_of :: "('k, nat) hash_map \<Rightarrow> 'k \<Rightarrow> nat" where
  "count_of m k = (case hm_get m k of None \<Rightarrow> 0 | Some v \<Rightarrow> v)"

definition count_incr :: "'k \<Rightarrow> ('k, nat) hash_map \<Rightarrow> ('k, nat) hash_map" where
  "count_incr k m = hm_insert k (count_of m k + 1) m"

definition count_decr :: "'k \<Rightarrow> ('k, nat) hash_map \<Rightarrow> ('k, nat) hash_map" where
  "count_decr k m =
     (case hm_get m k of
        None \<Rightarrow> m
      | Some v \<Rightarrow> if v - 1 = 0 then hm_remove k m else hm_insert k (v - 1) m)"

definition count_positive :: "('k, nat) hash_map \<Rightarrow> bool" where
  "count_positive m = (hm_wf m \<and> list_all (\<lambda>(_, v). 0 < v) m)"

lemma count_of_Nil [simp]: "count_of [] k = 0"
  by (simp add: count_of_def)

lemma count_of_insert [simp]: "count_of (hm_insert k v m) k' = (if k' = k then v else count_of m k')"
  by (simp add: count_of_def)

lemma count_of_incr [simp]: "count_of (count_incr k m) k' = count_of m k' + (if k' = k then 1 else 0)"
  by (simp add: count_incr_def)

lemma count_of_decr [simp]: "count_of (count_decr k m) k' = count_of m k' - (if k' = k then 1 else 0)"
  by (auto simp: count_decr_def count_of_def split: option.splits)

lemma set_hm_insert: "set (hm_insert k v m) \<subseteq> insert (k, v) (set m)"
  unfolding hm_insert_def by (induction m) auto

lemma set_hm_remove: "set (hm_remove k m) \<subseteq> set m"
  by (auto simp: hm_remove_def AList.delete_eq)

lemma count_positive_incr: "count_positive m \<Longrightarrow> count_positive (count_incr k m)"
  using set_hm_insert [of k "count_of m k + 1" m]
  by (auto simp: count_positive_def count_incr_def hm.wf_put list_all_iff)

lemma count_positive_decr: "count_positive m \<Longrightarrow> count_positive (count_decr k m)"
proof (cases "hm_get m k")
  case None
  then show "count_positive m \<Longrightarrow> ?thesis" by (simp add: count_decr_def)
next
  case (Some v)
  then show "count_positive m \<Longrightarrow> ?thesis"
    using set_hm_insert [of k "v - 1" m] set_hm_remove [of k m]
    by (auto simp: count_positive_def count_decr_def hm.wf_put hm.wf_del list_all_iff)
qed

lemma count_positive_empty: "count_positive m \<Longrightarrow> \<forall>k. count_of m k = 0 \<Longrightarrow> m = []"
proof (cases m)
  case (Cons a rest)
  obtain k v where a: "a = (k, v)" by (cases a)
  assume pos: "count_positive m" and zero: "\<forall>k. count_of m k = 0"
  have "count_of m k = v"
    by (simp add: Cons a count_of_def hm_get_Cons)
  with zero pos show ?thesis
    by (auto simp: Cons a count_positive_def)
qed simp

section \<open>Searches\<close>

text \<open>The first index below a bound that satisfies a test, as \<open>(0..n).find(p)\<close> yields it.\<close>

definition find_index_below :: "nat \<Rightarrow> (nat \<Rightarrow> bool) \<Rightarrow> nat option" where
  "find_index_below n p = find p [0..<n]"

lemma find_index_below_Some:
  "find_index_below n p = Some i \<longleftrightarrow> i < n \<and> p i \<and> (\<forall>j<i. \<not> p j)"
  by (fastforce simp: find_index_below_def find_Some_iff)

lemma find_index_below_None: "find_index_below n p = None \<longleftrightarrow> (\<forall>i<n. \<not> p i)"
  by (auto simp: find_index_below_def find_None_iff)

lemma find_index_below_cong:
  "(\<And>i. i < n \<Longrightarrow> p i = q i) \<Longrightarrow> find_index_below n p = find_index_below n q"
  unfolding find_index_below_def by (rule find_cong) auto

end
