(* ===== verification/Target_Mask.thy ===== *)
theory Target_Mask
  imports Prelude
begin

unbundle bit_operations_syntax

text \<open>
  The bit set of target indices of \<open>rolter-gateway/src/target_mask.rs\<close>: the first 64 targets live
  in a word, wider routes in overflow words allocated on the first insert past 63. The registries
  answer a pick for a whole route with such a mask; \<open>target_registry\<close> is the contract between the
  mask a registry hands out and the answer it gives for one target.
\<close>

section \<open>The mask\<close>

record target_mask =
  tm_first :: "64 word"
  tm_rest :: "64 word list"

definition mask_new :: target_mask where
  "mask_new = \<lparr>tm_first = 0, tm_rest = []\<rparr>"

definition mask_insert :: "target_mask \<Rightarrow> nat \<Rightarrow> target_mask" where
  "mask_insert m idx =
     (if idx < 64 then m\<lparr>tm_first := tm_first m OR push_bit idx 1\<rparr>
      else
        let word = (idx - 64) div 64;
            bt = (idx - 64) mod 64;
            rest = (if length (tm_rest m) \<le> word then vec_resize (tm_rest m) (word + 1) 0
                    else tm_rest m)
        in m\<lparr>tm_rest := rest[word := rest ! word OR push_bit bt 1]\<rparr>)"

definition mask_contains :: "target_mask \<Rightarrow> nat \<Rightarrow> bool" where
  "mask_contains m idx =
     (if idx < 64 then tm_first m AND push_bit idx 1 \<noteq> 0
      else
        let word = (idx - 64) div 64;
            bt = (idx - 64) mod 64
        in case vec_get (tm_rest m) word of
             None \<Rightarrow> False
           | Some w \<Rightarrow> w AND push_bit bt 1 \<noteq> 0)"

definition mask_is_empty :: "target_mask \<Rightarrow> bool" where
  "mask_is_empty m = (tm_first m = 0 \<and> list_all (\<lambda>w. w = 0) (tm_rest m))"

section \<open>Set semantics\<close>

lemma bit_or_one_shift:
  "i < 64 \<Longrightarrow> bit (w OR push_bit i 1 :: 64 word) j = (bit w j \<or> j = i)"
  by (auto simp: bit_simps)

lemma mask_contains_bit:
  "mask_contains m idx =
     (if idx < 64 then bit (tm_first m) idx
      else (idx - 64) div 64 < length (tm_rest m) \<and>
           bit (tm_rest m ! ((idx - 64) div 64)) ((idx - 64) mod 64))"
  by (simp add: mask_contains_def Let_def vec_get_def push_bit_eq_mult and_exp_eq_0_iff_not_bit)

lemma mask_contains_new [simp]: "\<not> mask_contains mask_new i"
  by (simp add: mask_contains_bit mask_new_def)

lemma div_mod_64_eq: "64 \<le> (i :: nat) \<Longrightarrow> 64 \<le> j \<Longrightarrow>
    (i - 64) div 64 = (j - 64) div 64 \<Longrightarrow> (i - 64) mod 64 = (j - 64) mod 64 \<Longrightarrow> i = j"
  by (metis add_diff_cancel_left' div_mult_mod_eq le_add_diff_inverse)

lemma mask_rest_grow:
  "vec_get (if length ws \<le> k then vec_resize ws (k + 1) 0 else ws) i =
    (if i < length ws then Some (ws ! i) else if i \<le> k then Some 0 else None)"
  by (auto simp: vec_resize_def vec_get_def nth_append)

lemma mask_contains_insert [registry_simps]:
  "mask_contains (mask_insert m i) j \<longleftrightarrow> j = i \<or> mask_contains m j"
proof (cases "i < 64")
  case True
  then show ?thesis
    by (auto simp: mask_contains_bit mask_insert_def bit_or_one_shift simp del: push_bit_of_1)
next
  case i: False
  define k where "k = (i - 64) div 64"
  define r where "r = (if length (tm_rest m) \<le> k then vec_resize (tm_rest m) (k + 1) 0
                       else tm_rest m)"
  have len: "k < length r"
    by (simp add: r_def)
  have get: "vec_get r x =
      (if x < length (tm_rest m) then Some (tm_rest m ! x) else if x \<le> k then Some 0 else None)" for x
    unfolding r_def by (rule mask_rest_grow)
  have ins: "mask_insert m i = m\<lparr>tm_rest := r[k := r ! k OR push_bit ((i - 64) mod 64) 1]\<rparr>"
    using i by (simp add: mask_insert_def k_def r_def Let_def)
  show ?thesis
  proof (cases "j < 64")
    case True
    with i show ?thesis
      by (auto simp: ins mask_contains_bit)
  next
    case j: False
    show ?thesis
    proof (cases "(j - 64) div 64 = k")
      case True
      have "bit (r ! k) x = (k < length (tm_rest m) \<and> bit (tm_rest m ! k) x)" for x
        using get [of k] len by (auto split: if_splits)
      moreover have "j = i \<longleftrightarrow> (j - 64) mod 64 = (i - 64) mod 64"
        using True i j div_mod_64_eq [of i j] by (auto simp: k_def)
      ultimately show ?thesis
        using True j len
        by (auto simp: ins mask_contains_bit bit_or_one_shift simp del: push_bit_of_1)
    next
      case False
      then have "j \<noteq> i"
        by (auto simp: k_def)
      with False j get [of "(j - 64) div 64"] show ?thesis
        by (auto simp: ins mask_contains_bit vec_get_eq_Some split: if_splits)
    qed
  qed
qed

text \<open>A mask is empty exactly when it contains no target.\<close>

lemma word_eq_0_bits: "(w :: 64 word) = 0 \<longleftrightarrow> (\<forall>i<64. \<not> bit w i)"
  by (auto simp: bit_eq_iff bit_imp_le_length intro: ccontr)

lemma mask_is_empty_iff: "mask_is_empty m \<longleftrightarrow> (\<forall>i. \<not> mask_contains m i)"
proof
  assume "mask_is_empty m"
  then show "\<forall>i. \<not> mask_contains m i"
    by (auto simp: mask_is_empty_def mask_contains_bit list_all_length
        split: option.splits)
next
  assume none: "\<forall>i. \<not> mask_contains m i"
  have "\<not> bit (tm_first m) i" if "i < 64" for i
    using none [rule_format, of i] that by (simp add: mask_contains_bit)
  then have "tm_first m = 0"
    by (simp add: word_eq_0_bits)
  moreover have "tm_rest m ! k = 0" if k: "k < length (tm_rest m)" for k
  proof -
    have "\<not> bit (tm_rest m ! k) b" if "b < 64" for b
    proof -
      have "(64 + 64 * k + b - 64) div 64 = k" "(64 + 64 * k + b - 64) mod 64 = b"
        using that by simp_all
      then show ?thesis
        using none [rule_format, of "64 + 64 * k + b"] k
        by (simp add: mask_contains_bit)
    qed
    then show ?thesis
      by (simp add: word_eq_0_bits)
  qed
  ultimately show "mask_is_empty m"
    by (simp add: mask_is_empty_def list_all_length)
qed

section \<open>Building a mask from a scan\<close>

text \<open>The set of the indices a predicate selects, inserted one by one in increasing order.\<close>

definition mask_of :: "nat list \<Rightarrow> target_mask" where
  "mask_of is = foldl mask_insert mask_new is"

lemma mask_contains_foldl:
  "mask_contains (foldl mask_insert m is) i \<longleftrightarrow> i \<in> set is \<or> mask_contains m i"
  by (induction "is" arbitrary: m) (auto simp: mask_contains_insert)

lemma mask_contains_of [simp]: "mask_contains (mask_of is) i \<longleftrightarrow> i \<in> set is"
  by (simp add: mask_of_def mask_contains_foldl)

section \<open>The contract of a registry\<close>

text \<open>
  A registry that can rule a target out answers in two ways: for one target (\<open>blocked\<close>) and for
  the first \<open>n\<close> targets of a pool at once (\<open>mask\<close>). The two must agree.
\<close>

locale target_registry =
  fixes blocked :: "'s \<Rightarrow> nat \<Rightarrow> bool"
    and mask :: "'s \<Rightarrow> nat \<Rightarrow> target_mask"
  assumes mask_iff: "mask_contains (mask s n) i \<longleftrightarrow> i < n \<and> blocked s i"
begin

lemma mask_agrees: "i < n \<Longrightarrow> mask_contains (mask s n) i = blocked s i"
  by (simp add: mask_iff)

lemma mask_within: "mask_contains (mask s n) i \<Longrightarrow> i < n"
  by (simp add: mask_iff)

lemma mask_empty_iff: "mask_is_empty (mask s n) \<longleftrightarrow> (\<forall>i<n. \<not> blocked s i)"
  by (auto simp: mask_is_empty_iff mask_iff)

lemma mask_mono: "n \<le> k \<Longrightarrow> mask_contains (mask s n) i \<Longrightarrow> mask_contains (mask s k) i"
  by (simp add: mask_iff)

end

end
