(* ===== verification/Cooldowns.thy ===== *)
theory Cooldowns
  imports Target_Mask
begin

text \<open>
  The per-target cooldowns of \<open>rolter-gateway/src/cooldowns.rs\<close>. A registry is \<open>None\<close> when it is
  the inert default and otherwise a slot table of deadlines. Reads evict lazily, so every read
  returns the registry it leaves behind; the clock it read is an argument.
\<close>

section \<open>Operations\<close>

type_synonym cooldowns = "instant slot_table option"

definition cooldowns_new :: cooldowns where
  "cooldowns_new = Some []"

definition is_parked :: "cooldowns \<Rightarrow> string \<Rightarrow> nat \<Rightarrow> instant \<Rightarrow> bool \<times> cooldowns" where
  "is_parked c model idx now =
     (case c of
        None \<Rightarrow> (False, c)
      | Some m \<Rightarrow>
          (case hm_get m model of
             None \<Rightarrow> (False, c)
           | Some parks \<Rightarrow>
               (case slot_at parks idx of
                  None \<Rightarrow> (False, c)
                | Some until \<Rightarrow>
                    if now < until then (True, c)
                    else
                      (False, Some (slot_settle m model (parks[idx := None]))))))"

text \<open>The loop of \<open>parked_mask\<close>: one pass over the slots, the mask filled and expired slots emptied.\<close>

fun scan_parks ::
  "nat \<Rightarrow> instant \<Rightarrow> nat \<Rightarrow> instant option list \<Rightarrow> target_mask \<Rightarrow> target_mask \<times> instant option list"
where
  "scan_parks n now idx [] tm = (tm, [])"
| "scan_parks n now idx (None # slots) tm =
     (let (tm', slots') = scan_parks n now (Suc idx) slots tm in (tm', None # slots'))"
| "scan_parks n now idx (Some until # slots) tm =
     (if now < until then
        let (tm', slots') =
              scan_parks n now (Suc idx) slots (if idx < n then mask_insert tm idx else tm)
        in (tm', Some until # slots')
      else
        let (tm', slots') = scan_parks n now (Suc idx) slots tm in (tm', None # slots'))"

definition parked_mask :: "cooldowns \<Rightarrow> string \<Rightarrow> nat \<Rightarrow> instant \<Rightarrow> target_mask \<times> cooldowns" where
  "parked_mask c model n now =
     (case c of
        None \<Rightarrow> (mask_new, c)
      | Some m \<Rightarrow>
          (case hm_get m model of
             None \<Rightarrow> (mask_new, c)
           | Some parks \<Rightarrow>
               let (tm, parks') = scan_parks n now 0 parks mask_new
               in (tm, Some (slot_settle m model parks'))))"

definition extend_park :: "instant option list \<Rightarrow> nat \<Rightarrow> instant \<Rightarrow> instant option list" where
  "extend_park parks idx until =
     (let ps = (if length parks \<le> idx then vec_resize parks (idx + 1) None else parks)
      in case ps ! idx of
           Some slot \<Rightarrow> if until \<le> slot then ps else ps[idx := Some until]
         | None \<Rightarrow> ps[idx := Some until])"

definition park :: "cooldowns \<Rightarrow> string \<Rightarrow> nat \<Rightarrow> nat \<Rightarrow> instant \<Rightarrow> cooldowns" where
  "park c model idx secs now =
     (case c of
        None \<Rightarrow> None
      | Some m \<Rightarrow>
          if secs = 0 then Some m
          else
            let until = now + from_secs secs
            in case hm_get m model of
                 Some parks \<Rightarrow> Some (hm_insert model (extend_park parks idx until) m)
               | None \<Rightarrow> Some (hm_insert model (extend_park [] idx until) m))"

section \<open>What the registry records\<close>

text \<open>The deadline of a target, and whether it is parked at an instant.\<close>

definition parked_until :: "cooldowns \<Rightarrow> string \<Rightarrow> nat \<Rightarrow> instant option" where
  "parked_until c model idx = (case c of None \<Rightarrow> None | Some m \<Rightarrow> slot_get m model idx)"

definition parked_at :: "cooldowns \<Rightarrow> string \<Rightarrow> nat \<Rightarrow> instant \<Rightarrow> bool" where
  "parked_at c model idx t = (case parked_until c model idx of None \<Rightarrow> False | Some u \<Rightarrow> t < u)"

text \<open>No model is kept without a parked target: the table has one key per model with a deadline.\<close>

definition cooldowns_inv :: "cooldowns \<Rightarrow> bool" where
  "cooldowns_inv c = (case c of None \<Rightarrow> True | Some m \<Rightarrow> slot_live m)"

lemma extend_park_slot:
  "slot_at (extend_park parks idx until) j =
     (if j = idx then
        Some (case slot_at parks idx of None \<Rightarrow> until | Some u \<Rightarrow> max u until)
      else slot_at parks j)"
proof -
  define ps where "ps = (if length parks \<le> idx then vec_resize parks (idx + 1) None else parks)"
  have same: "slot_at ps k = slot_at parks k" for k
    by (simp add: ps_def slot_at_resize)
  have len: "idx < length ps"
    by (simp add: ps_def)
  then have at: "slot_at ps idx = ps ! idx"
    by (auto simp: slot_at_def split: option.splits)
  have ext: "extend_park parks idx until =
      (case ps ! idx of
         Some slot \<Rightarrow> if until \<le> slot then ps else ps[idx := Some until]
       | None \<Rightarrow> ps[idx := Some until])"
    unfolding extend_park_def Let_def ps_def [symmetric] ..
  have up: "slot_at (ps[idx := e]) k = (if k = idx then e else slot_at parks k)" for e k
    using len same by (simp add: slot_at_update)
  show ?thesis
    unfolding ext at [symmetric] same
    by (cases "slot_at parks idx") (auto simp: up same max_def)
qed

lemma parked_until_park [registry_simps]:
  "parked_until (park (Some m) model idx secs now) model' j =
     (if secs \<noteq> 0 \<and> model' = model \<and> j = idx then
        Some (case parked_until (Some m) model idx of
                None \<Rightarrow> now + from_secs secs
              | Some u \<Rightarrow> max u (now + from_secs secs))
      else parked_until (Some m) model' j)"
  by (auto simp: park_def parked_until_def slot_get_def extend_park_slot Let_def split: option.splits)

lemma scan_parks_snd:
  "snd (scan_parks n now idx slots tm) =
     map (\<lambda>s. case s of None \<Rightarrow> None | Some u \<Rightarrow> if now < u then Some u else None) slots"
proof (induction n now idx slots tm rule: scan_parks.induct)
  case (3 n now idx until slots tm)
  then show ?case
    by (cases "now < until") (simp_all add: Let_def case_prod_unfold)
qed (simp_all add: Let_def case_prod_unfold)

lemma scan_parks_fst:
  "mask_contains (fst (scan_parks n now idx slots tm)) i \<longleftrightarrow>
     mask_contains tm i \<or>
     (idx \<le> i \<and> i < n \<and> (\<exists>u. slot_at slots (i - idx) = Some u \<and> now < u))"
proof (induction n now idx slots tm rule: scan_parks.induct)
  case (1 n now idx tm)
  show ?case by simp
next
  case (2 n now idx slots tm)
  then show ?case
    by (cases "i = idx")
      (auto simp: Let_def slot_at_eq_Some nth_Cons' Suc_le_eq split: prod.splits)
next
  case (3 n now idx until slots tm)
  have tail: "slot_at (Some until # slots) (i - idx) = slot_at slots (i - Suc idx)" if "idx < i"
  proof -
    from that have "i - idx = Suc (i - Suc idx)" by simp
    then show ?thesis by (simp add: slot_at_def vec_get_def)
  qed
  show ?case
  proof (cases "now < until")
    case True
    with "3.IH"(1) tail show ?thesis
      by (cases i idx rule: linorder_cases)
        (auto simp: Let_def case_prod_unfold mask_contains_insert slot_at_def)
  next
    case False
    with "3.IH"(2) tail show ?thesis
      by (cases i idx rule: linorder_cases) (auto simp: Let_def case_prod_unfold slot_at_def)
  qed
qed

lemma is_parked_iff: "fst (is_parked c model idx now) \<longleftrightarrow> parked_at c model idx now"
  by (auto simp: is_parked_def parked_at_def parked_until_def slot_get_def Let_def
      split: option.splits)

lemma parked_mask_iff:
  "mask_contains (fst (parked_mask c model n now)) i \<longleftrightarrow> i < n \<and> parked_at c model i now"
proof (cases c)
  case None
  then show ?thesis
    by (simp add: parked_mask_def parked_at_def parked_until_def)
next
  case (Some m)
  show ?thesis
  proof (cases "hm_get m model")
    case None
    with Some show ?thesis
      by (simp add: parked_mask_def parked_at_def parked_until_def slot_get_def)
  next
    case (Some parks)
    with \<open>c = Some m\<close> show ?thesis
      using scan_parks_fst [of n now 0 parks mask_new i]
      by (auto simp: parked_mask_def parked_at_def parked_until_def slot_get_def Let_def
          split: prod.splits option.splits)
  qed
qed

text \<open>The registry fulfils the contract of the masks a pick reads.\<close>

interpretation cooldown_mask: target_registry
  "\<lambda>c i. fst (is_parked c model i now)"
  "\<lambda>c n. fst (parked_mask c model n now)" for model now
  by unfold_locales (simp add: is_parked_iff parked_mask_iff)

section \<open>Lazy eviction is unobservable\<close>

lemma slot_at_map_expire:
  "slot_at (map (\<lambda>s. case s of None \<Rightarrow> None | Some u \<Rightarrow> if now < u then Some u else None) v) i =
     (case slot_at v i of None \<Rightarrow> None | Some u \<Rightarrow> if now < u then Some u else None)"
  by (auto simp: slot_at_def vec_get_def split: option.splits)

lemma parked_until_is_parked:
  "parked_until (snd (is_parked c model idx now)) model' j =
     (if model' = model \<and> j = idx \<and> \<not> parked_at c model idx now then None
      else parked_until c model' j)"
proof (cases c)
  case None
  then show ?thesis by (simp add: is_parked_def parked_until_def)
next
  case (Some m)
  show ?thesis
  proof (cases "hm_get m model")
    case None
    with Some show ?thesis
      by (auto simp: is_parked_def parked_until_def slot_get_def)
  next
    case (Some v)
    then have sg: "slot_get m model i = slot_at v i" for i
      by (simp add: slot_get_def)
    show ?thesis
      using Some \<open>c = Some m\<close> sg [of j] sg [of idx]
      by (cases "slot_at v idx"; cases "model' = model")
        (simp_all add: is_parked_def parked_until_def parked_at_def slot_get_settle slot_at_clear)
  qed
qed

lemma parked_until_parked_mask:
  "parked_until (snd (parked_mask c model n now)) model' j =
     (if model' = model \<and> \<not> parked_at c model j now then None else parked_until c model' j)"
proof (cases c)
  case None
  then show ?thesis by (simp add: parked_mask_def parked_until_def)
next
  case (Some m)
  show ?thesis
  proof (cases "hm_get m model")
    case None
    with Some show ?thesis
      by (auto simp: parked_mask_def parked_until_def slot_get_def)
  next
    case (Some v)
    define w where "w = snd (scan_parks n now 0 v mask_new)"
    have at: "slot_at w i = (case slot_at v i of None \<Rightarrow> None | Some u \<Rightarrow> if now < u then Some u else None)"
      for i by (simp add: w_def scan_parks_snd slot_at_map_expire)
    have snd: "snd (parked_mask (Some m) model n now) = Some (slot_settle m model w)"
      using Some \<open>c = Some m\<close> by (simp add: parked_mask_def w_def Let_def split: prod.splits)
    have sg: "slot_get m model i = slot_at v i" for i
      using Some by (simp add: slot_get_def)
    show ?thesis
      using \<open>c = Some m\<close> at [of j] sg [of j]
      by (cases "slot_at v j"; cases "model' = model")
        (simp_all add: snd parked_until_def parked_at_def slot_get_settle)
  qed
qed

section \<open>The table keeps no dead model\<close>

lemma cooldowns_inv_is_parked: "cooldowns_inv c \<Longrightarrow> cooldowns_inv (snd (is_parked c model idx now))"
  by (auto simp: is_parked_def cooldowns_inv_def slot_live_settle split: option.splits)

lemma cooldowns_inv_parked_mask: "cooldowns_inv c \<Longrightarrow> cooldowns_inv (snd (parked_mask c model n now))"
  by (auto simp: parked_mask_def Let_def cooldowns_inv_def slot_live_settle
      split: option.splits prod.splits)

lemma extend_park_nonempty: "\<not> slot_vacant (extend_park parks idx until)"
  using extend_park_slot [of parks idx until idx] by (fastforce simp: slot_vacant_iff)

lemma cooldowns_inv_park: "cooldowns_inv c \<Longrightarrow> cooldowns_inv (park c model idx secs now)"
  by (auto simp: park_def Let_def cooldowns_inv_def slot_live_insert extend_park_nonempty
      split: option.splits)

section \<open>Properties\<close>

lemma parked_at_expired:
  "now \<le> t \<Longrightarrow> \<not> parked_at c model j now \<Longrightarrow> \<not> parked_at c model j t"
  by (auto simp: parked_at_def split: option.splits)

text \<open>
  Parking extends a cooldown and never shortens it: afterwards the target is parked at an
  instant exactly when it was before or that instant lies inside the new window, and every other
  target of every model is as it was.
\<close>

theorem park_extends:
  "parked_at (park (Some m) model idx secs now) model' j t \<longleftrightarrow>
     parked_at (Some m) model' j t \<or> (model' = model \<and> j = idx \<and> secs > 0 \<and> t < now + from_secs secs)"
  unfolding parked_at_def parked_until_park by (auto split: option.splits)

text \<open>
  The lazy eviction of the two reads is not observable: at any later instant every target is
  parked exactly when it would have been without the read, and the table keeps a key only for a
  model that has a recorded deadline.
\<close>

theorem reads_unobservable:
  assumes "now \<le> t" and "cooldowns_inv c"
  shows "parked_at (snd (is_parked c model idx now)) model' j t = parked_at c model' j t \<and>
    parked_at (snd (parked_mask c model n now)) model' j t = parked_at c model' j t \<and>
    cooldowns_inv (snd (is_parked c model idx now)) \<and> cooldowns_inv (snd (parked_mask c model n now))"
proof -
  have "parked_at (snd (is_parked c model idx now)) model' j t = parked_at c model' j t"
    using parked_at_expired [OF assms(1), of c model j] parked_until_is_parked [of c model idx now model' j]
    by (auto simp: parked_at_def split: if_splits)
  moreover have "parked_at (snd (parked_mask c model n now)) model' j t = parked_at c model' j t"
    using parked_at_expired [OF assms(1), of c model j] parked_until_parked_mask [of c model n now model' j]
    by (auto simp: parked_at_def split: if_splits)
  ultimately show ?thesis
    using assms(2) by (simp add: cooldowns_inv_is_parked cooldowns_inv_parked_mask)
qed

lemma reads_unobservable_witness:
  "parked_at (snd (is_parked (Some [(''m'', [Some 5, Some 9])]) ''m'' 0 6)) ''m'' 1 8"
  using reads_unobservable [of 6 8 "Some [(''m'', [Some 5, Some 9])]" "''m''" 0 "''m''" 1 2]
  by (simp add: cooldowns_inv_def slot_live_def hm_wf_def slot_vacant_def parked_at_def
      parked_until_def slot_get_def hm_get_def slot_at_def vec_get_def)

end
