(* ===== verification/Breaker.thy ===== *)
theory Breaker
  imports Target_Mask
begin

text \<open>
  The per-target circuit breaker of \<open>rolter-gateway/src/breaker.rs\<close>. A registry is \<open>None\<close> when it
  is permanently inert and otherwise the shared state: the slot table of entries, the enable flag
  and the tuning. Each operation takes the instants it reads from the clock as arguments, in the
  order it reads them. The first sections follow the code; the later ones give the state machine
  of a single target and prove that the registry refines it, that a half-open target admits one
  probe per lease and that no target is refused forever.
\<close>

section \<open>State\<close>

datatype phase = Closed | Open instant | HalfOpen instant

datatype breaker_phase = PhaseClosed | PhaseOpen | PhaseHalfOpen

record breaker_view =
  bv_model :: string
  bv_target_index :: nat
  bv_state :: breaker_phase
  bv_consecutive_failures :: nat
  bv_retry_after_secs :: "nat option"

record br_entry =
  be_phase :: phase
  be_failures :: nat
  be_last_failure :: instant

definition entry_default :: "instant \<Rightarrow> br_entry" where
  "entry_default now = \<lparr>be_phase = Closed, be_failures = 0, be_last_failure = now\<rparr>"

record br_shared =
  br_map :: "br_entry slot_table"
  br_enabled :: bool
  br_failure_threshold :: nat
  br_open_secs :: nat
  br_probe_timeout_secs :: nat

type_synonym breaker = "br_shared option"

definition PROBE_LEASE_FLOOR :: duration where
  "PROBE_LEASE_FLOOR = from_secs 30"

section \<open>Operations\<close>

definition breaker_new :: "bool \<Rightarrow> nat \<Rightarrow> nat \<Rightarrow> breaker" where
  "breaker_new enabled failure_threshold open_secs =
     Some \<lparr>br_map = [], br_enabled = enabled,
           br_failure_threshold = max failure_threshold 1,
           br_open_secs = open_secs, br_probe_timeout_secs = 0\<rparr>"

definition reconfigure :: "breaker \<Rightarrow> bool \<Rightarrow> nat \<Rightarrow> nat \<Rightarrow> breaker" where
  "reconfigure b enabled failure_threshold open_secs =
     (case b of
        None \<Rightarrow> None
      | Some s \<Rightarrow>
          Some (s\<lparr>br_failure_threshold := max failure_threshold 1,
                  br_open_secs := open_secs, br_enabled := enabled\<rparr>))"

definition set_probe_timeout :: "breaker \<Rightarrow> nat \<Rightarrow> breaker" where
  "set_probe_timeout b secs =
     (case b of None \<Rightarrow> None | Some s \<Rightarrow> Some (s\<lparr>br_probe_timeout_secs := secs\<rparr>))"

definition active :: "breaker \<Rightarrow> br_shared option" where
  "active b = (case b of None \<Rightarrow> None | Some s \<Rightarrow> if br_enabled s then Some s else None)"

definition probe_lease :: "br_shared \<Rightarrow> duration" where
  "probe_lease s =
     max (from_secs (max (br_open_secs s) (br_probe_timeout_secs s))) PROBE_LEASE_FLOOR"

definition allows :: "breaker \<Rightarrow> string \<Rightarrow> nat \<Rightarrow> instant \<Rightarrow> bool \<times> breaker" where
  "allows b model idx now =
     (case active b of
        None \<Rightarrow> (True, b)
      | Some s \<Rightarrow>
          (case slot_get (br_map s) model idx of
             None \<Rightarrow> (True, b)
           | Some entry \<Rightarrow>
               let probe = (\<lambda>deadline.
                     if now < deadline then (False, b)
                     else
                       let entry' = entry\<lparr>be_phase := HalfOpen (now + probe_lease s)\<rparr>
                       in (True, Some (s\<lparr>br_map := slot_set (br_map s) model idx (Some entry')\<rparr>)))
               in case be_phase entry of
                    Closed \<Rightarrow> (True, b)
                  | Open until \<Rightarrow> probe until
                  | HalfOpen until \<Rightarrow> probe until))"

definition refuses :: "breaker \<Rightarrow> string \<Rightarrow> nat \<Rightarrow> instant \<Rightarrow> bool" where
  "refuses b model idx now =
     (case active b of
        None \<Rightarrow> False
      | Some s \<Rightarrow>
          (case map_option be_phase (slot_get (br_map s) model idx) of
             Some (Open until) \<Rightarrow> now < until
           | Some (HalfOpen until) \<Rightarrow> now < until
           | _ \<Rightarrow> False))"

definition release :: "breaker \<Rightarrow> string \<Rightarrow> nat \<Rightarrow> instant \<Rightarrow> breaker" where
  "release b model idx now =
     (case active b of
        None \<Rightarrow> b
      | Some s \<Rightarrow>
          (case slot_get (br_map s) model idx of
             None \<Rightarrow> b
           | Some entry \<Rightarrow>
               (case be_phase entry of
                  HalfOpen _ \<Rightarrow>
                    Some (s\<lparr>br_map := slot_set (br_map s) model idx
                                        (Some (entry\<lparr>be_phase := Open now\<rparr>))\<rparr>)
                | _ \<Rightarrow> b)))"

fun scan_open :: "instant \<Rightarrow> nat \<Rightarrow> br_entry option list \<Rightarrow> target_mask \<Rightarrow> target_mask" where
  "scan_open now idx [] tm = tm"
| "scan_open now idx (slot # slots) tm =
     scan_open now (Suc idx) slots
       (case map_option be_phase slot of
          Some (Open until) \<Rightarrow> if now < until then mask_insert tm idx else tm
        | Some (HalfOpen until) \<Rightarrow> if now < until then mask_insert tm idx else tm
        | _ \<Rightarrow> tm)"

definition open_mask :: "breaker \<Rightarrow> string \<Rightarrow> nat \<Rightarrow> instant \<Rightarrow> target_mask" where
  "open_mask b model n now =
     (case active b of
        None \<Rightarrow> mask_new
      | Some s \<Rightarrow>
          (case hm_get (br_map s) model of
             None \<Rightarrow> mask_new
           | Some targets \<Rightarrow> scan_open now 0 (take n targets) mask_new))"

definition on_success :: "breaker \<Rightarrow> string \<Rightarrow> nat \<Rightarrow> bool \<times> breaker" where
  "on_success b model idx =
     (case active b of
        None \<Rightarrow> (False, b)
      | Some s \<Rightarrow>
          (case hm_get (br_map s) model of
             None \<Rightarrow> (False, b)
           | Some targets \<Rightarrow>
               (case slot_at targets idx of
                  None \<Rightarrow> (False, b)
                | Some entry \<Rightarrow>
                    (be_phase entry \<noteq> Closed,
                     Some (s\<lparr>br_map := slot_settle (br_map s) model (targets[idx := None])\<rparr>)))))"

text \<open>
  One model of a sweep: idle closed entries are retired, then trailing empty slots are popped.
\<close>

definition retire :: "duration \<Rightarrow> instant \<Rightarrow> br_entry option \<Rightarrow> br_entry option" where
  "retire idle now slot =
     (case slot of
        None \<Rightarrow> None
      | Some e \<Rightarrow>
          if be_phase e = Closed \<and> idle \<le> now - be_last_failure e then None else Some e)"

definition pop_trailing :: "'e option list \<Rightarrow> 'e option list" where
  "pop_trailing v = rev (dropWhile (\<lambda>s. s = None) (rev v))"

definition sweep :: "breaker \<Rightarrow> duration \<Rightarrow> instant \<Rightarrow> breaker" where
  "sweep b idle now =
     (case b of
        None \<Rightarrow> None
      | Some s \<Rightarrow>
          Some (s\<lparr>br_map :=
            filter (\<lambda>(_, targets). targets \<noteq> [])
              (map (\<lambda>(model, targets). (model, pop_trailing (map (retire idle now) targets)))
                (br_map s))\<rparr>))"

definition breaker_len :: "breaker \<Rightarrow> nat" where
  "breaker_len b =
     (case b of
        None \<Rightarrow> 0
      | Some s \<Rightarrow> sum_list (map (\<lambda>(_, t). length (filter (\<lambda>e. e \<noteq> None) t)) (br_map s)))"

definition breaker_is_empty :: "breaker \<Rightarrow> bool" where
  "breaker_is_empty b = (breaker_len b = 0)"

definition phase_view :: "phase \<Rightarrow> instant \<Rightarrow> breaker_phase \<times> nat option" where
  "phase_view p now =
     (case p of
        Closed \<Rightarrow> (PhaseClosed, None)
      | HalfOpen _ \<Rightarrow> (PhaseHalfOpen, None)
      | Open until \<Rightarrow>
          if until \<le> now then (PhaseHalfOpen, None)
          else (PhaseOpen, Some (max (as_secs (until - now)) 1)))"

fun snapshot_model :: "string \<Rightarrow> instant \<Rightarrow> nat \<Rightarrow> br_entry option list \<Rightarrow> breaker_view list" where
  "snapshot_model model now idx [] = []"
| "snapshot_model model now idx (None # slots) = snapshot_model model now (Suc idx) slots"
| "snapshot_model model now idx (Some entry # slots) =
     \<lparr>bv_model = model, bv_target_index = idx,
      bv_state = fst (phase_view (be_phase entry) now),
      bv_consecutive_failures = be_failures entry,
      bv_retry_after_secs = snd (phase_view (be_phase entry) now)\<rparr>
     # snapshot_model model now (Suc idx) slots"

definition snapshot :: "breaker \<Rightarrow> instant \<Rightarrow> breaker_view list" where
  "snapshot b now =
     (case b of
        None \<Rightarrow> []
      | Some s \<Rightarrow> concat (map (\<lambda>(model, targets). snapshot_model model now 0 targets) (br_map s)))"

definition record_failure :: "br_entry \<Rightarrow> nat \<Rightarrow> instant \<Rightarrow> instant \<Rightarrow> bool \<times> br_entry" where
  "record_failure entry failure_threshold open_until now =
     (let e = entry\<lparr>be_last_failure := now,
                    be_failures := saturating_add u32_max (be_failures entry) 1\<rparr>
      in case be_phase e of
           HalfOpen _ \<Rightarrow> (True, e\<lparr>be_phase := Open open_until\<rparr>)
         | Closed \<Rightarrow>
             if failure_threshold \<le> be_failures e then (True, e\<lparr>be_phase := Open open_until\<rparr>)
             else (False, e)
         | Open _ \<Rightarrow> (False, e))"

text \<open>
  \<open>on_failure\<close> reads the clock for the window it may open (\<open>now\<close>) and again while it records the
  failure under the lock (\<open>later\<close>).
\<close>

definition on_failure :: "breaker \<Rightarrow> string \<Rightarrow> nat \<Rightarrow> instant \<Rightarrow> instant \<Rightarrow> bool \<times> breaker" where
  "on_failure b model idx now later =
     (case active b of
        None \<Rightarrow> (False, b)
      | Some s \<Rightarrow>
          let failure_threshold = max (br_failure_threshold s) 1;
              open_until = now + from_secs (br_open_secs s)
          in case slot_get (br_map s) model idx of
               Some entry \<Rightarrow>
                 let (tripped, entry') = record_failure entry failure_threshold open_until later
                 in (tripped,
                     Some (s\<lparr>br_map := slot_set (br_map s) model idx (Some entry')\<rparr>))
             | None \<Rightarrow>
                 let targets = (case hm_get (br_map s) model of None \<Rightarrow> [] | Some t \<Rightarrow> t);
                     targets = (if length targets \<le> idx then vec_resize targets (idx + 1) None
                                else targets);
                     (tripped, entry') =
                       record_failure (entry_default later) failure_threshold open_until later
                 in (tripped,
                     Some (s\<lparr>br_map := hm_insert model (targets[idx := Some entry']) (br_map s)\<rparr>)))"

section \<open>The state machine of one target\<close>

text \<open>
  The abstract machine: the entry of one target and how each operation changes it. An absent entry
  is a closed breaker without failures.
\<close>

definition spec_allows :: "duration \<Rightarrow> br_entry option \<Rightarrow> instant \<Rightarrow> bool \<times> br_entry option" where
  "spec_allows lease e now =
     (case e of
        None \<Rightarrow> (True, None)
      | Some entry \<Rightarrow>
          (case be_phase entry of
             Closed \<Rightarrow> (True, e)
           | Open until \<Rightarrow>
               if now < until then (False, e)
               else (True, Some (entry\<lparr>be_phase := HalfOpen (now + lease)\<rparr>))
           | HalfOpen until \<Rightarrow>
               if now < until then (False, e)
               else (True, Some (entry\<lparr>be_phase := HalfOpen (now + lease)\<rparr>))))"

definition spec_success :: "br_entry option \<Rightarrow> bool \<times> br_entry option" where
  "spec_success e = (case e of None \<Rightarrow> (False, None) | Some entry \<Rightarrow> (be_phase entry \<noteq> Closed, None))"

definition spec_failure ::
  "nat \<Rightarrow> instant \<Rightarrow> br_entry option \<Rightarrow> instant \<Rightarrow> bool \<times> br_entry option"
where
  "spec_failure threshold open_until e later =
     apsnd Some (record_failure (case e of None \<Rightarrow> entry_default later | Some entry \<Rightarrow> entry)
                   threshold open_until later)"

definition spec_release :: "br_entry option \<Rightarrow> instant \<Rightarrow> br_entry option" where
  "spec_release e now =
     (case e of
        None \<Rightarrow> None
      | Some entry \<Rightarrow>
          (case be_phase entry of HalfOpen _ \<Rightarrow> Some (entry\<lparr>be_phase := Open now\<rparr>) | _ \<Rightarrow> e))"

text \<open>The abstraction: the entry the registry holds for a target.\<close>

definition entry_of :: "breaker \<Rightarrow> string \<Rightarrow> nat \<Rightarrow> br_entry option" where
  "entry_of b model idx = (case b of None \<Rightarrow> None | Some s \<Rightarrow> slot_get (br_map s) model idx)"

lemma entry_of_Some [simp]: "entry_of (Some s) model idx = slot_get (br_map s) model idx"
  by (simp add: entry_of_def)

lemma active_Some [simp]: "active (Some s) = (if br_enabled s then Some s else None)"
  by (simp add: active_def)

lemma active_None [simp]: "active None = None"
  by (simp add: active_def)

section \<open>Refinement\<close>

text \<open>
  Every operation acts on the target it is called for as the machine says and on no other, and
  keeps the tuning.
\<close>

definition tuning :: "br_shared \<Rightarrow> br_shared" where
  "tuning s = s\<lparr>br_map := []\<rparr>"

definition sets_entry :: "br_shared \<Rightarrow> string \<Rightarrow> nat \<Rightarrow> br_entry option \<Rightarrow> breaker \<Rightarrow> bool" where
  "sets_entry s model idx e b' \<longleftrightarrow>
     (\<exists>s'. b' = Some s' \<and> tuning s' = tuning s \<and>
        (\<forall>model' j. slot_get (br_map s') model' j =
           (if model' = model \<and> j = idx then e else slot_get (br_map s) model' j)))"

lemma tuning_map [simp]: "tuning (s\<lparr>br_map := m\<rparr>) = tuning s"
  by (simp add: tuning_def)

lemma tuning_eqD:
  assumes "tuning s' = tuning s"
  shows "br_enabled s' = br_enabled s" "probe_lease s' = probe_lease s"
    "br_failure_threshold s' = br_failure_threshold s" "br_open_secs s' = br_open_secs s"
    "br_probe_timeout_secs s' = br_probe_timeout_secs s"
proof -
  have "br_enabled (tuning x) = br_enabled x"
    "br_failure_threshold (tuning x) = br_failure_threshold x"
    "br_open_secs (tuning x) = br_open_secs x"
    "br_probe_timeout_secs (tuning x) = br_probe_timeout_secs x" for x
    by (simp_all add: tuning_def)
  with assms show "br_enabled s' = br_enabled s"
    "br_failure_threshold s' = br_failure_threshold s" "br_open_secs s' = br_open_secs s"
    "br_probe_timeout_secs s' = br_probe_timeout_secs s"
    by metis+
  then show "probe_lease s' = probe_lease s"
    by (simp add: probe_lease_def)
qed

lemma sets_entry_id: "slot_get (br_map s) model idx = e \<Longrightarrow> sets_entry s model idx e (Some s)"
  by (auto simp: sets_entry_def)

lemma sets_entry_slot_set:
  "slot_get (br_map s) model idx \<noteq> None \<Longrightarrow>
    sets_entry s model idx e (Some (s\<lparr>br_map := slot_set (br_map s) model idx e\<rparr>))"
  by (simp add: sets_entry_def slot_get_set)

lemma allows_refines:
  assumes "br_enabled s"
  shows "fst (allows (Some s) model idx now) =
      fst (spec_allows (probe_lease s) (slot_get (br_map s) model idx) now)"
    and "sets_entry s model idx (snd (spec_allows (probe_lease s) (slot_get (br_map s) model idx) now))
      (snd (allows (Some s) model idx now))"
  using assms
  by (auto simp: allows_def spec_allows_def Let_def sets_entry_id sets_entry_slot_set
      split: option.splits phase.splits)

lemma on_success_refines:
  assumes "br_enabled s"
  shows "fst (on_success (Some s) model idx) = fst (spec_success (slot_get (br_map s) model idx))"
    and "sets_entry s model idx (snd (spec_success (slot_get (br_map s) model idx)))
      (snd (on_success (Some s) model idx))"
proof -
  have get: "slot_get (br_map s) model idx =
      (case hm_get (br_map s) model of None \<Rightarrow> None | Some t \<Rightarrow> slot_at t idx)"
    by (simp add: slot_get_def)
  show "fst (on_success (Some s) model idx) = fst (spec_success (slot_get (br_map s) model idx))"
    using assms by (auto simp: on_success_def spec_success_def get split: option.splits)
  have "sets_entry s model idx None (snd (on_success (Some s) model idx))"
  proof (cases "slot_get (br_map s) model idx")
    case None
    with assms show ?thesis
      by (auto simp: on_success_def get intro: sets_entry_id split: option.splits)
  next
    case (Some e)
    then obtain t where t: "hm_get (br_map s) model = Some t" "slot_at t idx = Some e"
      by (auto simp: get split: option.splits)
    then have "slot_get (br_map s) model j = slot_at t j" for j
      by (simp add: slot_get_def)
    with t assms show ?thesis
      by (simp add: on_success_def sets_entry_def slot_get_settle slot_at_clear)
  qed
  then show "sets_entry s model idx (snd (spec_success (slot_get (br_map s) model idx)))
      (snd (on_success (Some s) model idx))"
    by (simp add: spec_success_def split: option.splits)
qed

lemma release_refines:
  "br_enabled s \<Longrightarrow>
    sets_entry s model idx (spec_release (slot_get (br_map s) model idx) now)
      (release (Some s) model idx now)"
  by (auto simp: release_def spec_release_def sets_entry_id sets_entry_slot_set
      split: option.splits phase.splits)

text \<open>The first failure of a target grows the vector of its model and writes into the new slot.\<close>

lemma slot_get_first_failure:
  fixes m :: "br_entry slot_table" and model :: string and idx :: nat
  defines "t \<equiv> (case hm_get m model of None \<Rightarrow> [] | Some t \<Rightarrow> t)"
  defines "t' \<equiv> (if length t \<le> idx then vec_resize t (idx + 1) None else t)"
  shows "slot_get (hm_insert model (t'[idx := e]) m) model' j =
    (if model' = model \<and> j = idx then e else slot_get m model' j)"
proof -
  have len: "idx < length t'" and same: "slot_at t' j = slot_at t j" for j
    by (simp_all add: t'_def slot_at_resize)
  have "slot_at t j = slot_get m model j" for j
    by (simp add: t_def slot_get_def split: option.splits)
  with len same show ?thesis
    by (simp add: slot_get_insert slot_at_update)
qed

lemma on_failure_refines:
  fixes model :: string and idx now later :: nat
  assumes "br_enabled s"
  defines "sp \<equiv> spec_failure (max (br_failure_threshold s) 1) (now + from_secs (br_open_secs s))
      (slot_get (br_map s) model idx) later"
  shows "fst (on_failure (Some s) model idx now later) = fst sp"
    and "sets_entry s model idx (snd sp) (snd (on_failure (Some s) model idx now later))"
proof -
  have "fst (on_failure (Some s) model idx now later) = fst sp \<and>
    sets_entry s model idx (snd sp) (snd (on_failure (Some s) model idx now later))"
  proof (cases "slot_get (br_map s) model idx")
    case None
    with assms(1) show ?thesis
      by (simp add: sp_def on_failure_def spec_failure_def Let_def case_prod_unfold sets_entry_def
          slot_get_first_failure del: fun_upd_apply)
  next
    case (Some e)
    with assms(1) show ?thesis
      by (simp add: sp_def on_failure_def spec_failure_def Let_def case_prod_unfold
          sets_entry_slot_set)
  qed
  then show "fst (on_failure (Some s) model idx now later) = fst sp"
    and "sets_entry s model idx (snd sp) (snd (on_failure (Some s) model idx now later))"
    by simp_all
qed

lemma slot_at_pop_trailing [simp]: "slot_at (pop_trailing v) i = slot_at v i"
proof -
  obtain n where n: "v = pop_trailing v @ replicate n None"
  proof -
    have "list_all (\<lambda>s. s = None) (rev (takeWhile (\<lambda>s. s = None) (rev v)))"
      by (auto simp: list_all_iff dest: set_takeWhileD)
    then have "rev (takeWhile (\<lambda>s. s = None) (rev v)) =
        replicate (length (takeWhile (\<lambda>s. s = None) (rev v))) None"
      by (intro replicate_eqI) (auto simp: list_all_iff)
    moreover have "v = pop_trailing v @ rev (takeWhile (\<lambda>s. s = None) (rev v))"
      unfolding pop_trailing_def
      by (metis rev_append rev_rev_ident takeWhile_dropWhile_id)
    ultimately show thesis
      using that by metis
  qed
  have "slot_at (w @ replicate n None) i = slot_at w i" for w :: "'a option list"
    by (auto simp: slot_at_def vec_get_def nth_append split: option.splits)
  with n show ?thesis
    by metis
qed

lemma slot_at_map_retire: "slot_at (map (retire idle now) v) i = retire idle now (slot_at v i)"
  by (auto simp: slot_at_def vec_get_def retire_def split: option.splits)

lemma sweep_refines:
  assumes "hm_wf (br_map s)"
  shows "entry_of (sweep (Some s) idle now) model idx = retire idle now (slot_get (br_map s) model idx)"
proof -
  define m where "m = map (\<lambda>(model, targets). (model, pop_trailing (map (retire idle now) targets))) (br_map s)"
  have wf: "hm_wf m"
    using assms hm_wf_map_snd [of "\<lambda>_ t. pop_trailing (map (retire idle now) t)"] by (simp add: m_def)
  have get: "hm_get m model =
      map_option (\<lambda>t. pop_trailing (map (retire idle now) t)) (hm_get (br_map s) model)"
    using hm_get_map_snd [of "\<lambda>_ t. pop_trailing (map (retire idle now) t)"] by (simp add: m_def)
  have at: "slot_at [] idx = retire idle now (slot_at t idx)"
    if "pop_trailing (map (retire idle now) t) = []" for t
    using that slot_at_pop_trailing [of "map (retire idle now) t" idx]
    by (simp only: slot_at_map_retire)
  show ?thesis
  proof (cases "hm_get (br_map s) model")
    case None
    then show ?thesis
      using hm_get_filter [OF wf, of "\<lambda>(_, t). t \<noteq> []" model] get
      by (simp add: sweep_def m_def [symmetric] slot_get_def retire_def)
  next
    case (Some t)
    then show ?thesis
      using hm_get_filter [OF wf, of "\<lambda>(_, t). t \<noteq> []" model] get at [of t]
      by (auto simp: sweep_def m_def [symmetric] slot_get_def slot_at_map_retire)
  qed
qed

section \<open>The mask of a route\<close>

definition phase_refuses :: "br_entry option \<Rightarrow> instant \<Rightarrow> bool" where
  "phase_refuses e now = (\<not> fst (spec_allows 0 e now))"

lemma phase_refuses_None [simp]: "\<not> phase_refuses None now"
  by (simp add: phase_refuses_def spec_allows_def)

lemma spec_allows_answer: "fst (spec_allows lease e now) \<longleftrightarrow> \<not> phase_refuses e now"
  by (simp add: phase_refuses_def spec_allows_def split: option.splits phase.splits)

lemma refuses_iff:
  "refuses b model idx now \<longleftrightarrow>
     (case active b of None \<Rightarrow> False | Some s \<Rightarrow> phase_refuses (slot_get (br_map s) model idx) now)"
  by (auto simp: refuses_def phase_refuses_def spec_allows_def split: option.splits phase.splits)

lemma refuses_not_allows: "refuses b model idx now \<longleftrightarrow> \<not> fst (allows b model idx now)"
proof (cases "active b")
  case None
  then show ?thesis
    by (simp add: refuses_iff allows_def)
next
  case (Some s)
  then have "b = Some s" "br_enabled s"
    by (auto simp: active_def split: option.splits if_splits)
  then show ?thesis
    by (simp add: refuses_iff allows_refines spec_allows_answer)
qed

lemma scan_open_contains:
  "mask_contains (scan_open now idx slots tm) i \<longleftrightarrow>
     mask_contains tm i \<or> (idx \<le> i \<and> phase_refuses (slot_at slots (i - idx)) now)"
proof (induction now idx slots tm rule: scan_open.induct)
  case (2 now idx slot slots tm)
  have tail: "slot_at (slot # slots) (i - idx) = slot_at slots (i - Suc idx)" if "idx < i"
  proof -
    from that have "i - idx = Suc (i - Suc idx)" by simp
    then show ?thesis by (simp add: slot_at_def vec_get_def)
  qed
  have head: "mask_contains
      (case map_option be_phase slot of
          Some (Open until) \<Rightarrow> if now < until then mask_insert tm idx else tm
        | Some (HalfOpen until) \<Rightarrow> if now < until then mask_insert tm idx else tm
        | _ \<Rightarrow> tm) i \<longleftrightarrow> mask_contains tm i \<or> (i = idx \<and> phase_refuses slot now)"
    by (auto simp: phase_refuses_def spec_allows_def mask_contains_insert
        split: option.splits phase.splits)
  have at0: "slot_at (slot # slots) 0 = slot"
    by (simp add: slot_at_def split: option.splits)
  show ?case
    unfolding scan_open.simps "2.IH" head
    using tail at0 by (cases i idx rule: linorder_cases) auto
qed simp

lemma slot_at_take: "slot_at (take n v) i = (if i < n then slot_at v i else None)"
  by (auto simp: slot_at_def vec_get_def split: option.splits)

lemma open_mask_iff:
  "mask_contains (open_mask b model n now) i \<longleftrightarrow> i < n \<and> refuses b model i now"
  by (auto simp: open_mask_def refuses_iff scan_open_contains slot_at_take slot_get_def
      split: option.splits)

interpretation breaker_mask: target_registry
  "\<lambda>b i. refuses b model i now" "\<lambda>b n. open_mask b model n now" for model now
  by unfold_locales (rule open_mask_iff)

section \<open>Runs\<close>

text \<open>
  The calls other components make, each with the instants it reads, and the runs of the registry:
  the step relation pairs every call with the answer it returned.
\<close>

datatype br_event =
    Allows string nat instant
  | OnSuccess string nat
  | OnFailure string nat instant instant
  | Release string nat instant
  | Sweep duration instant
  | Reconfigure bool nat nat
  | SetProbeTimeout nat

inductive br_step :: "breaker \<Rightarrow> br_event \<Rightarrow> bool \<Rightarrow> breaker \<Rightarrow> bool" where
  step_allows: "allows b m i t = (r, b') \<Longrightarrow> br_step b (Allows m i t) r b'"
| step_success: "on_success b m i = (r, b') \<Longrightarrow> br_step b (OnSuccess m i) r b'"
| step_failure: "on_failure b m i t u = (r, b') \<Longrightarrow> br_step b (OnFailure m i t u) r b'"
| step_release: "br_step b (Release m i t) False (release b m i t)"
| step_sweep: "br_step b (Sweep d t) False (sweep b d t)"
| step_reconfigure: "br_step b (Reconfigure en thr secs) False (reconfigure b en thr secs)"
| step_timeout: "br_step b (SetProbeTimeout secs) False (set_probe_timeout b secs)"

inductive_cases br_stepE [elim]: "br_step b ev r b'"

inductive_simps br_step_simps:
  "br_step b (Allows m i t) r b'"
  "br_step b (OnSuccess m i) r b'"
  "br_step b (OnFailure m i t u) r b'"
  "br_step b (Release m i t) r b'"

inductive br_run :: "breaker \<Rightarrow> br_event list \<Rightarrow> breaker \<Rightarrow> bool" where
  run_nil: "br_run b [] b"
| run_snoc: "br_run b evs b' \<Longrightarrow> br_step b' ev r b'' \<Longrightarrow> br_run b (evs @ [ev]) b''"

text \<open>The keys of the table stay distinct, which a sweep relies on.\<close>

definition br_wf :: "breaker \<Rightarrow> bool" where
  "br_wf b = (case b of None \<Rightarrow> True | Some s \<Rightarrow> hm_wf (br_map s))"

lemma br_wf_new [simp]: "br_wf (breaker_new en thr secs)"
  by (simp add: br_wf_def breaker_new_def)

lemma hm_wf_slot_settle [simp]: "hm_wf m \<Longrightarrow> hm_wf (slot_settle m model v)"
  by (simp add: slot_settle_def hm.wf_put hm.wf_del)

lemma br_wf_step: "br_step b ev r b' \<Longrightarrow> br_wf b \<Longrightarrow> br_wf b'"
proof (induction rule: br_step.induct)
  case (step_allows b m i t r b')
  then show ?case
    by (auto simp: allows_def br_wf_def active_def Let_def split: option.splits phase.splits if_splits)
next
  case (step_success b m i r b')
  then show ?case
    by (auto simp: on_success_def br_wf_def active_def split: option.splits if_splits)
next
  case (step_failure b m i t u r b')
  then show ?case
    by (auto simp: on_failure_def br_wf_def active_def Let_def hm.wf_put
        split: option.splits if_splits prod.splits)
next
  case (step_release b m i t)
  then show ?case
    by (auto simp: release_def br_wf_def active_def split: option.splits phase.splits if_splits)
next
  case (step_sweep b d t)
  then show ?case
    using hm_wf_map_snd [of "\<lambda>_ v. pop_trailing (map (retire d t) v)"]
    by (auto simp: sweep_def br_wf_def split: option.splits)
qed (auto simp: reconfigure_def set_probe_timeout_def br_wf_def split: option.splits)

lemma br_wf_run: "br_run b evs b' \<Longrightarrow> br_wf b \<Longrightarrow> br_wf b'"
  by (induction rule: br_run.induct) (auto intro: br_wf_step)

text \<open>
  What one step does to the entry of a given target and to the tuning: the refinement lemmas put
  together.
\<close>

definition entry_step :: "br_shared \<Rightarrow> br_event \<Rightarrow> string \<Rightarrow> nat \<Rightarrow> br_entry option" where
  "entry_step s ev model idx =
     (let e = slot_get (br_map s) model idx;
          here = (\<lambda>m i. br_enabled s \<and> m = model \<and> i = idx)
      in case ev of
           Allows m i t \<Rightarrow> if here m i then snd (spec_allows (probe_lease s) e t) else e
         | OnSuccess m i \<Rightarrow> if here m i then snd (spec_success e) else e
         | OnFailure m i t u \<Rightarrow>
             if here m i then
               snd (spec_failure (max (br_failure_threshold s) 1) (t + from_secs (br_open_secs s)) e u)
             else e
         | Release m i t \<Rightarrow> if here m i then spec_release e t else e
         | Sweep d t \<Rightarrow> retire d t e
         | _ \<Rightarrow> e)"

definition tuning_step :: "br_event \<Rightarrow> br_shared \<Rightarrow> br_shared" where
  "tuning_step ev s =
     (case ev of
        Reconfigure en thr secs \<Rightarrow>
          s\<lparr>br_failure_threshold := max thr 1, br_open_secs := secs, br_enabled := en\<rparr>
      | SetProbeTimeout secs \<Rightarrow> s\<lparr>br_probe_timeout_secs := secs\<rparr>
      | _ \<Rightarrow> s)"

lemma sets_entryE:
  assumes "sets_entry s m i e b'"
  obtains s' where "b' = Some s'" "tuning s' = tuning s"
    "slot_get (br_map s') model idx = (if m = model \<and> i = idx then e else slot_get (br_map s) model idx)"
  using assms unfolding sets_entry_def by (metis (full_types))

lemma br_step_disabled:
  assumes "\<not> br_enabled s"
  shows "allows (Some s) m i t = (True, Some s)" "on_success (Some s) m i = (False, Some s)"
    "on_failure (Some s) m i t u = (False, Some s)" "release (Some s) m i t = Some s"
  using assms by (simp_all add: allows_def on_success_def on_failure_def release_def)

lemma br_step_entry:
  assumes "br_step (Some s) ev r b'" and wf: "hm_wf (br_map s)"
  obtains s' where "b' = Some s'"
    "slot_get (br_map s') model idx = entry_step s ev model idx"
    "tuning s' = tuning (tuning_step ev s)"
proof -
  note shape = entry_step_def tuning_step_def Let_def
  have "\<exists>s'. b' = Some s' \<and> slot_get (br_map s') model idx = entry_step s ev model idx \<and>
      tuning s' = tuning (tuning_step ev s)"
  proof (cases "br_enabled s")
    case True
    show ?thesis
    proof (cases ev)
      case (Allows m i t)
      with assms(1) have "b' = snd (allows (Some s) m i t)" by (auto simp: br_step_simps)
      with allows_refines(2) [OF True, of m i t] show ?thesis
        using True by (auto simp: Allows shape elim!: sets_entryE [where model = model and idx = idx])
    next
      case (OnSuccess m i)
      with assms(1) have "b' = snd (on_success (Some s) m i)" by (auto simp: br_step_simps)
      with on_success_refines(2) [OF True, of m i] show ?thesis
        using True by (auto simp: OnSuccess shape elim!: sets_entryE [where model = model and idx = idx])
    next
      case (OnFailure m i t u)
      with assms(1) have "b' = snd (on_failure (Some s) m i t u)" by (auto simp: br_step_simps)
      with on_failure_refines(2) [OF True, of m i t u] show ?thesis
        using True by (auto simp: OnFailure shape elim!: sets_entryE [where model = model and idx = idx])
    next
      case (Release m i t)
      with assms(1) have "b' = release (Some s) m i t" by (auto simp: br_step_simps)
      with release_refines [OF True, of m i t] show ?thesis
        using True by (auto simp: Release shape elim!: sets_entryE [where model = model and idx = idx])
    next
      case (Sweep d t)
      with assms(1) have "b' = sweep (Some s) d t" by auto
      with sweep_refines [OF wf, of d t model idx] show ?thesis
        by (auto simp: Sweep shape sweep_def)
    next
      case (Reconfigure en thr secs)
      with assms(1) show ?thesis
        by (auto simp: shape reconfigure_def)
    next
      case (SetProbeTimeout secs)
      with assms(1) show ?thesis
        by (auto simp: shape set_probe_timeout_def)
    qed
  next
    case False
    show ?thesis
    proof (cases ev)
      case (Sweep d t)
      with assms(1) have "b' = sweep (Some s) d t" by auto
      with sweep_refines [OF wf, of d t model idx] show ?thesis
        by (auto simp: Sweep shape sweep_def)
    qed (use assms(1) False in \<open>auto simp: shape br_step_simps br_step_disabled reconfigure_def set_probe_timeout_def\<close>)
  qed
  then show thesis using that by blast
qed

lemma tuning_step_fields [simp]:
  "br_enabled (tuning_step ev s) = (case ev of Reconfigure en _ _ \<Rightarrow> en | _ \<Rightarrow> br_enabled s)"
  "br_open_secs (tuning_step ev s) = (case ev of Reconfigure _ _ secs \<Rightarrow> secs | _ \<Rightarrow> br_open_secs s)"
  "br_probe_timeout_secs (tuning_step ev s) =
     (case ev of SetProbeTimeout secs \<Rightarrow> secs | _ \<Rightarrow> br_probe_timeout_secs s)"
  by (simp_all add: tuning_step_def split: br_event.splits)

section \<open>One probe per lease\<close>

text \<open>The calls that end a probe: its outcome, giving the slot back, and disabling the breaker.\<close>

definition settles :: "br_event \<Rightarrow> string \<Rightarrow> nat \<Rightarrow> bool" where
  "settles ev model idx =
     (case ev of
        OnSuccess m i \<Rightarrow> m = model \<and> i = idx
      | OnFailure m i _ _ \<Rightarrow> m = model \<and> i = idx
      | Release m i _ \<Rightarrow> m = model \<and> i = idx
      | Reconfigure en _ _ \<Rightarrow> \<not> en
      | _ \<Rightarrow> False)"

definition probe_held :: "instant \<Rightarrow> breaker \<Rightarrow> string \<Rightarrow> nat \<Rightarrow> bool" where
  "probe_held deadline b model idx \<longleftrightarrow>
     (\<exists>s e d. b = Some s \<and> br_enabled s \<and> slot_get (br_map s) model idx = Some e \<and>
        be_phase e = HalfOpen d \<and> deadline \<le> d)"

lemma probe_held_step:
  assumes "probe_held D b model idx" "br_wf b" "br_step b ev r b'" "\<not> settles ev model idx"
  shows "probe_held D b' model idx"
proof -
  from assms(1) obtain s e d where s: "b = Some s" "br_enabled s"
    "slot_get (br_map s) model idx = Some e" "be_phase e = HalfOpen d" "D \<le> d"
    by (auto simp: probe_held_def)
  from assms(2,3) s(1) obtain s' where s': "b' = Some s'"
    "slot_get (br_map s') model idx = entry_step s ev model idx"
    "tuning s' = tuning (tuning_step ev s)"
    by (auto simp: br_wf_def elim: br_step_entry [where model = model and idx = idx])
  have "br_enabled s'"
    using tuning_eqD(1) [OF s'(3)] assms(4) s(2) by (auto simp: settles_def split: br_event.splits)
  moreover have "\<exists>e' d'. entry_step s ev model idx = Some e' \<and> be_phase e' = HalfOpen d' \<and> D \<le> d'"
    using s assms(4)
    by (cases ev) (auto simp: entry_step_def settles_def spec_allows_def retire_def Let_def)
  ultimately show ?thesis
    using s' by (auto simp: probe_held_def)
qed

lemma probe_held_run:
  "br_run b evs b' \<Longrightarrow> br_wf b \<Longrightarrow> probe_held D b model idx \<Longrightarrow>
    \<forall>ev\<in>set evs. \<not> settles ev model idx \<Longrightarrow> probe_held D b' model idx"
  by (induction rule: br_run.induct) (auto intro: probe_held_step dest: br_wf_run)

lemma probe_held_refuses:
  "probe_held D b model idx \<Longrightarrow> t < D \<Longrightarrow> \<not> fst (allows b model idx t)"
  by (auto simp: probe_held_def allows_def)

lemma probe_held_take:
  assumes "br_enabled s" "slot_get (br_map s) model idx = Some e" "be_phase e \<noteq> Closed"
    and "fst (allows (Some s) model idx t)"
  shows "probe_held (t + probe_lease s) (snd (allows (Some s) model idx t)) model idx"
proof -
  obtain s' where s': "snd (allows (Some s) model idx t) = Some s'" "tuning s' = tuning s"
    "slot_get (br_map s') model idx = snd (spec_allows (probe_lease s) (Some e) t)"
    using allows_refines(2) [OF assms(1), of model idx t] assms(2)
    by (auto elim!: sets_entryE [where model = model and idx = idx])
  moreover obtain e' where "snd (spec_allows (probe_lease s) (Some e) t) = Some e'"
      "be_phase e' = HalfOpen (t + probe_lease s)"
    using assms allows_refines(1) [OF assms(1), of model idx t]
    by (auto simp: spec_allows_def split: phase.splits if_splits)
  ultimately show ?thesis
    using assms(1) tuning_eqD(1) [OF s'(2)] by (simp add: probe_held_def)
qed


text \<open>A tripped target whose window has elapsed: a probe at 10 s, refusals until 40 s.\<close>

definition tripped_example :: br_shared where
  "tripped_example =
     \<lparr>br_map = [(''m'', [Some \<lparr>be_phase = Open (from_secs 5), be_failures = 3, be_last_failure = 0\<rparr>])],
      br_enabled = True, br_failure_threshold = 3, br_open_secs = 5, br_probe_timeout_secs = 0\<rparr>"


section \<open>No target is refused forever\<close>

definition event_within :: "instant \<Rightarrow> nat \<Rightarrow> br_event \<Rightarrow> bool" where
  "event_within T L ev =
     (case ev of
        Allows _ _ t \<Rightarrow> t \<le> T
      | OnFailure _ _ t _ \<Rightarrow> t \<le> T
      | Release _ _ t \<Rightarrow> t \<le> T
      | Reconfigure _ _ secs \<Rightarrow> secs \<le> L
      | SetProbeTimeout secs \<Rightarrow> secs \<le> L
      | _ \<Rightarrow> True)"

definition deadline_le :: "instant \<Rightarrow> br_entry option \<Rightarrow> bool" where
  "deadline_le D e =
     (case e of
        None \<Rightarrow> True
      | Some entry \<Rightarrow>
          (case be_phase entry of Closed \<Rightarrow> True | Open u \<Rightarrow> u \<le> D | HalfOpen u \<Rightarrow> u \<le> D))"

definition windows_le :: "nat \<Rightarrow> br_shared \<Rightarrow> bool" where
  "windows_le L s = (br_open_secs s \<le> L \<and> br_probe_timeout_secs s \<le> L)"

lemma probe_lease_le: "windows_le L s \<Longrightarrow> probe_lease s \<le> max (from_secs L) PROBE_LEASE_FLOOR"
proof -
  assume "windows_le L s"
  then have "from_secs (max (br_open_secs s) (br_probe_timeout_secs s)) \<le> from_secs L"
    by (simp add: windows_le_def)
  then show ?thesis
    unfolding probe_lease_def by (rule max.mono) simp
qed

lemma open_window_le:
  "windows_le L s \<Longrightarrow> from_secs (br_open_secs s) \<le> max (from_secs L) PROBE_LEASE_FLOOR"
  by (auto simp: windows_le_def intro: le_trans [OF _ max.cobounded1])

lemma deadline_le_step:
  assumes "windows_le L s" "event_within T L ev" "D = T + max (from_secs L) PROBE_LEASE_FLOOR"
    and "deadline_le D (slot_get (br_map s) model idx)"
  shows "deadline_le D (entry_step s ev model idx)"
proof -
  have "t + probe_lease s \<le> D" "t + from_secs (br_open_secs s) \<le> D" "t \<le> D" if "t \<le> T" for t
    using that probe_lease_le [OF assms(1)] open_window_le [OF assms(1)] assms(3) by linarith+
  with assms(2,4) show ?thesis
    by (cases ev)
      (auto simp: entry_step_def event_within_def deadline_le_def spec_allows_def spec_success_def
        spec_failure_def record_failure_def spec_release_def retire_def entry_default_def Let_def
        split: option.splits phase.splits if_splits)
qed

definition unwedged :: "instant \<Rightarrow> nat \<Rightarrow> breaker \<Rightarrow> string \<Rightarrow> nat \<Rightarrow> bool" where
  "unwedged T L b model idx \<longleftrightarrow>
     br_wf b \<and> (\<exists>s. b = Some s \<and> windows_le L s \<and>
       deadline_le (T + max (from_secs L) PROBE_LEASE_FLOOR) (slot_get (br_map s) model idx))"

lemma unwedged_step:
  assumes "unwedged T L b model idx" "br_step b ev r b'" "event_within T L ev"
  shows "unwedged T L b' model idx"
proof -
  from assms(1) obtain s where s: "b = Some s" "windows_le L s" "br_wf b"
    "deadline_le (T + max (from_secs L) PROBE_LEASE_FLOOR) (slot_get (br_map s) model idx)"
    by (auto simp: unwedged_def)
  with assms(2) obtain s' where s': "b' = Some s'"
    "slot_get (br_map s') model idx = entry_step s ev model idx"
    "tuning s' = tuning (tuning_step ev s)"
    by (auto simp: br_wf_def elim: br_step_entry [where model = model and idx = idx])
  have "windows_le L s'"
    using tuning_eqD(4,5) [OF s'(3)] s(2) assms(3)
    by (auto simp: windows_le_def event_within_def split: br_event.splits)
  then show ?thesis
    using s s' assms(2,3) deadline_le_step br_wf_step by (auto simp: unwedged_def)
qed

lemma unwedged_run:
  "br_run b evs b' \<Longrightarrow> unwedged T L b model idx \<Longrightarrow> \<forall>ev\<in>set evs. event_within T L ev \<Longrightarrow>
    unwedged T L b' model idx"
  by (induction rule: br_run.induct) (auto intro: unwedged_step)

lemma unwedged_admits:
  assumes "unwedged T L b model idx" "T + max (from_secs L) PROBE_LEASE_FLOOR \<le> t"
  shows "fst (allows b model idx t)"
proof -
  from assms(1) obtain s where s: "b = Some s"
    "deadline_le (T + max (from_secs L) PROBE_LEASE_FLOOR) (slot_get (br_map s) model idx)"
    by (auto simp: unwedged_def)
  have "fst (spec_allows lease (slot_get (br_map s) model idx) t)" for lease
    using s(2) assms(2)
    by (auto simp: deadline_le_def spec_allows_def split: option.splits phase.splits)
  with s show ?thesis
    by (cases "br_enabled s") (simp_all add: allows_refines br_step_disabled)
qed

text \<open>
  C22: No sequence of calls wedges a target. After any run of the registry whose clock reads are at
  most \<open>T\<close> and whose windows (open window and probe timeout) are at most \<open>L\<close> seconds, every target
  is admitted again at the latest \<open>max L 30\<close> seconds after \<open>T\<close>, even when a probe never reported
  back.
\<close>

theorem no_target_wedged:
  assumes "br_run (breaker_new en threshold secs) evs b"
    and "secs \<le> L" and "\<forall>ev\<in>set evs. event_within T L ev"
    and "T + max (from_secs L) PROBE_LEASE_FLOOR \<le> t"
  shows "fst (allows b model idx t)"
proof -
  have "unwedged T L (breaker_new en threshold secs) model idx"
    using assms(2) by (simp add: unwedged_def breaker_new_def windows_le_def br_wf_def deadline_le_def)
  with assms show ?thesis
    using unwedged_run unwedged_admits by blast
qed

lemma no_target_wedged_witness:
  "fst (allows (snd (on_failure (breaker_new True 1 5) ''m'' 0 (from_secs 1) (from_secs 1)))
          ''m'' 0 (from_secs 31))"
proof (rule no_target_wedged [of True 1 5 "[OnFailure ''m'' 0 (from_secs 1) (from_secs 1)]" _ 5
      "from_secs 1"])
  have "br_step b (OnFailure m i t u) (fst (on_failure b m i t u)) (snd (on_failure b m i t u))"
    for b m i t u by (simp add: br_step_simps)
  then show "br_run (breaker_new True 1 5) [OnFailure ''m'' 0 (from_secs 1) (from_secs 1)]
      (snd (on_failure (breaker_new True 1 5) ''m'' 0 (from_secs 1) (from_secs 1)))"
    using run_snoc [OF run_nil] by fastforce
qed (simp_all add: event_within_def PROBE_LEASE_FLOOR_def from_secs_def)

section \<open>Tripping\<close>

text \<open>Failures of one target reported one after the other, with the answers they got.\<close>

fun fail_all :: "breaker \<Rightarrow> string \<Rightarrow> nat \<Rightarrow> (instant \<times> instant) list \<Rightarrow> bool list \<times> breaker" where
  "fail_all b model idx [] = ([], b)"
| "fail_all b model idx ((t, u) # ts) =
     (let (r, b') = on_failure b model idx t u;
          (rs, b'') = fail_all b' model idx ts
      in (r # rs, b''))"

definition failures_of :: "br_entry option \<Rightarrow> nat" where
  "failures_of e = (case e of None \<Rightarrow> 0 | Some entry \<Rightarrow> be_failures entry)"

definition closed_entry :: "br_entry option \<Rightarrow> bool" where
  "closed_entry e = (case e of None \<Rightarrow> True | Some entry \<Rightarrow> be_phase entry = Closed)"

lemma spec_failure_closed:
  assumes "closed_entry e" "Suc (failures_of e) \<le> u32_max"
  shows "\<exists>e'. spec_failure thr until e u = (thr \<le> Suc (failures_of e), Some e') \<and>
    be_failures e' = Suc (failures_of e) \<and>
    be_phase e' = (if thr \<le> Suc (failures_of e) then Open until else Closed)"
  using assms
  by (auto simp: spec_failure_def record_failure_def closed_entry_def failures_of_def Let_def
      entry_default_def saturating_add_def split: option.splits)

lemma on_failure_closed:
  assumes "br_enabled s" "1 \<le> br_failure_threshold s"
    and "closed_entry (slot_get (br_map s) model idx)"
    and "Suc (failures_of (slot_get (br_map s) model idx)) \<le> u32_max"
  obtains s' e' where
    "on_failure (Some s) model idx t u =
       (br_failure_threshold s \<le> Suc (failures_of (slot_get (br_map s) model idx)), Some s')"
    "tuning s' = tuning s" "slot_get (br_map s') model idx = Some e'"
    "be_failures e' = Suc (failures_of (slot_get (br_map s) model idx))"
    "be_phase e' = (if br_failure_threshold s \<le> Suc (failures_of (slot_get (br_map s) model idx))
                    then Open (t + from_secs (br_open_secs s)) else Closed)"
proof -
  have "max (br_failure_threshold s) 1 = br_failure_threshold s"
    using assms(2) by simp
  with spec_failure_closed [OF assms(3,4), of "br_failure_threshold s"
      "t + from_secs (br_open_secs s)" u]
  show thesis
    using on_failure_refines [OF assms(1), of model idx t u] that
    by (auto elim!: sets_entryE [where model = model and idx = idx] simp: prod_eq_iff)
qed

lemma fail_all_snoc:
  assumes "br_enabled s" "closed_entry (slot_get (br_map s) model idx)"
    and "failures_of (slot_get (br_map s) model idx) + length ts + 1 = br_failure_threshold s"
    and "br_failure_threshold s \<le> u32_max"
  shows "\<exists>s' e'. fail_all (Some s) model idx (ts @ [(t, u)]) =
      (replicate (length ts) False @ [True], Some s') \<and> br_enabled s' \<and>
      slot_get (br_map s') model idx = Some e' \<and> be_phase e' = Open (t + from_secs (br_open_secs s))"
  using assms
proof (induction ts arbitrary: s)
  case Nil
  then have le: "Suc (failures_of (slot_get (br_map s) model idx)) \<le> u32_max"
    "1 \<le> br_failure_threshold s" by linarith+
  obtain s' e' where s': "on_failure (Some s) model idx t u = (True, Some s')"
    "tuning s' = tuning s" "slot_get (br_map s') model idx = Some e'"
    "be_phase e' = Open (t + from_secs (br_open_secs s))"
    using Nil.prems(3) by (auto intro: on_failure_closed [OF Nil(1) le(2) Nil(2) le(1), of t u])
  with tuning_eqD(1) [OF s'(2)] Nil(1) show ?case
    by simp
next
  case (Cons a ts)
  obtain t1 u1 where a: "a = (t1, u1)" by (cases a)
  from Cons.prems have le: "Suc (failures_of (slot_get (br_map s) model idx)) \<le> u32_max"
    "1 \<le> br_failure_threshold s" by (simp_all)
  obtain s' e' where s': "on_failure (Some s) model idx t1 u1 = (False, Some s')"
    "tuning s' = tuning s" "slot_get (br_map s') model idx = Some e'"
    "be_failures e' = Suc (failures_of (slot_get (br_map s) model idx))" "be_phase e' = Closed"
    using Cons.prems on_failure_closed [OF Cons.prems(1) le(2) Cons.prems(2) le(1), of t1 u1]
    by (auto split: if_splits)
  note eqs = tuning_eqD [OF s'(2)]
  have "\<exists>s'' e'. fail_all (Some s') model idx (ts @ [(t, u)]) =
      (replicate (length ts) False @ [True], Some s'') \<and> br_enabled s'' \<and>
      slot_get (br_map s'') model idx = Some e' \<and> be_phase e' = Open (t + from_secs (br_open_secs s'))"
    using Cons.prems s' eqs by (intro Cons.IH) (simp_all add: closed_entry_def failures_of_def)
  with s'(1) eqs show ?case
    by (auto simp: a)
qed

text \<open>
  C24: A target with no recorded failure trips open on exactly the failure that reaches the
  threshold: the earlier reports answer false, that one answers true, and from then on the target
  is refused precisely until the open window, counted from that last failure, has elapsed.
\<close>

theorem trips_at_threshold:
  assumes "br_enabled s" and "slot_get (br_map s) model idx = None"
    and "length ts + 1 = br_failure_threshold s" and "br_failure_threshold s \<le> u32_max"
  shows "fst (fail_all (Some s) model idx (ts @ [(t, u)])) = replicate (length ts) False @ [True] \<and>
    refuses (snd (fail_all (Some s) model idx (ts @ [(t, u)]))) model idx now =
      (now < t + from_secs (br_open_secs s))"
proof -
  have "closed_entry (slot_get (br_map s) model idx)"
    "failures_of (slot_get (br_map s) model idx) + length ts + 1 = br_failure_threshold s"
    using assms by (simp_all add: closed_entry_def failures_of_def)
  from fail_all_snoc [OF assms(1) this assms(4), of t u] show ?thesis
    by (auto simp: refuses_iff phase_refuses_def spec_allows_def split: if_splits)
qed

lemma trips_at_threshold_witness:
  "refuses (snd (fail_all (breaker_new True 3 10) ''m'' 1 [(0, 0), (5, 5), (7, 8)])) ''m'' 1 9"
  using trips_at_threshold [of "the (breaker_new True 3 10)" "''m''" 1 "[(0, 0), (5, 5)]" 7 8 9]
  by (simp add: breaker_new_def u32_max_def from_secs_def)

text \<open>
  C27: A sweep forgets nothing that still matters: an open or half-open target keeps its entry, and
  a closed one loses it only after \<open>idle\<close> without a failure.
\<close>

theorem sweep_keeps_tripped:
  assumes "br_wf (Some s)" and "slot_get (br_map s) model idx = Some e"
  shows "entry_of (sweep (Some s) idle now) model idx =
    (if be_phase e = Closed \<and> idle \<le> now - be_last_failure e then None else Some e)"
  using assms by (simp add: sweep_refines br_wf_def retire_def)

lemma sweep_keeps_tripped_witness:
  "entry_of (sweep (Some tripped_example) 1 (from_secs 100)) ''m'' 0 =
     Some \<lparr>be_phase = Open (from_secs 5), be_failures = 3, be_last_failure = 0\<rparr>"
  using sweep_keeps_tripped [of tripped_example "''m''" 0
      "\<lparr>be_phase = Open (from_secs 5), be_failures = 3, be_last_failure = 0\<rparr>" 1 "from_secs 100"]
  by (simp add: tripped_example_def slot_get_def hm_get_def slot_at_def br_wf_def hm_wf_def)

end
