(* ===== verification/Health.thy ===== *)
theory Health
  imports Target_Mask
begin

text \<open>
  The provider health registry of \<open>rolter-gateway/src/health.rs\<close>: how an observed status is folded
  into a probe outcome, the per-provider state machine with its thresholds and its 429 backoff, and
  the registry the balancer consults. The HTTP requests of a sweep are not modelled; what a sweep
  does to the registry is \<open>observe\<close> and \<open>health_should_probe\<close>.
\<close>

section \<open>Outcomes\<close>

datatype health_source = SourcePassive | SourceProbe | SourceLlmCall | SourceStatusPage

datatype probe_outcome = ProbeOk | ProbeRateLimited | ProbeFailed

datatype llm_call_rejection = WrongEndpoint | KeyRefused

definition llm_rejection_of :: "nat \<Rightarrow> llm_call_rejection option" where
  "llm_rejection_of status =
     (if status = 404 \<or> status = 405 then Some WrongEndpoint
      else if status = 401 \<or> status = 403 then Some KeyRefused
      else None)"

definition llm_error_kind :: "llm_call_rejection \<Rightarrow> string" where
  "llm_error_kind r = (case r of WrongEndpoint \<Rightarrow> ''wrong_endpoint'' | KeyRefused \<Rightarrow> ''key_refused'')"

definition classify_status :: "health_source \<Rightarrow> nat \<Rightarrow> probe_outcome" where
  "classify_status source status =
     (if status = 429 then ProbeRateLimited
      else if source = SourceLlmCall \<and> llm_rejection_of status \<noteq> None then ProbeFailed
      else if status < 500 then ProbeOk
      else ProbeFailed)"

section \<open>The state machine of a provider\<close>

record probe_state =
  ps_healthy :: bool
  ps_fails :: nat
  ps_oks :: nat
  ps_backoff_remaining :: nat
  ps_backoff_level :: nat

definition probe_default :: probe_state where
  "probe_default =
     \<lparr>ps_healthy = True, ps_fails = 0, ps_oks = 0, ps_backoff_remaining = 0, ps_backoff_level = 0\<rparr>"

definition MAX_BACKOFF_LEVEL :: nat where
  "MAX_BACKOFF_LEVEL = 3"

definition should_probe :: "probe_state \<Rightarrow> bool \<times> probe_state" where
  "should_probe st =
     (if ps_backoff_remaining st > 0
      then (False, st\<lparr>ps_backoff_remaining := ps_backoff_remaining st - 1\<rparr>)
      else (True, st))"

definition on_result ::
  "probe_state \<Rightarrow> probe_outcome \<Rightarrow> nat \<Rightarrow> nat \<Rightarrow> bool option \<times> probe_state"
where
  "on_result st outcome fail_after recover_after =
     (if outcome = ProbeFailed then
        let st = st\<lparr>ps_oks := 0, ps_fails := saturating_add u32_max (ps_fails st) 1\<rparr>
        in if ps_healthy st \<and> max fail_after 1 \<le> ps_fails st
           then (Some False, st\<lparr>ps_healthy := False\<rparr>)
           else (None, st)
      else
        let st = (if outcome = ProbeRateLimited
                  then st\<lparr>ps_backoff_remaining := 2 ^ ps_backoff_level st,
                          ps_backoff_level := min (ps_backoff_level st + 1) MAX_BACKOFF_LEVEL\<rparr>
                  else st\<lparr>ps_backoff_level := 0\<rparr>);
            st = st\<lparr>ps_fails := 0, ps_oks := saturating_add u32_max (ps_oks st) 1\<rparr>
        in if \<not> ps_healthy st \<and> max recover_after 1 \<le> ps_oks st
           then (Some True, st\<lparr>ps_healthy := True\<rparr>)
           else (None, st))"

section \<open>The registry\<close>

type_synonym health = "(string, probe_state) hash_map option"

definition health_new :: health where
  "health_new = Some []"

definition is_healthy :: "health \<Rightarrow> string \<Rightarrow> bool" where
  "is_healthy h provider =
     (case h of
        None \<Rightarrow> True
      | Some m \<Rightarrow> (case hm_get m provider of None \<Rightarrow> True | Some st \<Rightarrow> ps_healthy st))"

fun scan_unhealthy ::
  "(string, probe_state) hash_map \<Rightarrow> nat \<Rightarrow> string list \<Rightarrow> target_mask \<Rightarrow> target_mask"
where
  "scan_unhealthy m idx [] tm = tm"
| "scan_unhealthy m idx (p # ps) tm =
     scan_unhealthy m (Suc idx) ps
       (case hm_get m p of
          None \<Rightarrow> tm
        | Some st \<Rightarrow> if \<not> ps_healthy st then mask_insert tm idx else tm)"

definition unhealthy_mask :: "health \<Rightarrow> string list \<Rightarrow> target_mask" where
  "unhealthy_mask h providers =
     (case h of
        None \<Rightarrow> mask_new
      | Some m \<Rightarrow> if m = [] then mask_new else scan_unhealthy m 0 providers mask_new)"

definition health_set :: "health \<Rightarrow> string \<Rightarrow> bool \<Rightarrow> health" where
  "health_set h provider healthy =
     map_option (hm_insert provider (probe_default\<lparr>ps_healthy := healthy\<rparr>)) h"

definition health_clear :: "health \<Rightarrow> health" where
  "health_clear h = map_option (\<lambda>_. []) h"

definition entry_or_default :: "(string, probe_state) hash_map \<Rightarrow> string \<Rightarrow> probe_state" where
  "entry_or_default m provider =
     (case hm_get m provider of None \<Rightarrow> probe_default | Some st \<Rightarrow> st)"

definition health_should_probe :: "health \<Rightarrow> string \<Rightarrow> bool \<times> health" where
  "health_should_probe h provider =
     (case h of
        None \<Rightarrow> (False, None)
      | Some m \<Rightarrow>
          let (answer, st) = should_probe (entry_or_default m provider)
          in (answer, Some (hm_insert provider st m)))"

definition observe ::
  "health \<Rightarrow> string \<Rightarrow> probe_outcome \<Rightarrow> nat \<Rightarrow> nat \<Rightarrow> bool option \<times> health"
where
  "observe h provider outcome fail_after recover_after =
     (case h of
        None \<Rightarrow> (None, None)
      | Some m \<Rightarrow>
          let (flip, st) = on_result (entry_or_default m provider) outcome fail_after recover_after
          in (flip, Some (hm_insert provider st m)))"

section \<open>What a sweep records\<close>

datatype health_outcome = OutcomeOk | OutcomeError | OutcomeTimeout

record health_event =
  he_ts :: instant
  he_target_id :: string
  he_provider :: string
  he_org_id :: string
  he_source :: health_source
  he_outcome :: health_outcome
  he_status_code :: "nat option"
  he_latency_ms :: nat
  he_error_kind :: "string option"

definition probe_event_outcome ::
  "health_source \<Rightarrow> probe_outcome \<Rightarrow> nat option \<Rightarrow> bool \<Rightarrow> health_outcome \<times> string option"
where
  "probe_event_outcome source outcome status timed_out =
     (case outcome of
        ProbeOk \<Rightarrow> (OutcomeOk, None)
      | ProbeRateLimited \<Rightarrow> (OutcomeError, Some ''rate_limited'')
      | ProbeFailed \<Rightarrow>
          if timed_out then (OutcomeTimeout, Some ''timeout'')
          else
            (OutcomeError,
             Some (case status of
                     None \<Rightarrow> ''connect_error''
                   | Some s \<Rightarrow>
                       if 500 \<le> s then ''upstream_error''
                       else if source = SourceLlmCall then
                         (case llm_rejection_of s of
                            Some rejection \<Rightarrow> llm_error_kind rejection
                          | None \<Rightarrow> ''error'')
                       else ''error'')))"

definition probe_health_event ::
  "string \<Rightarrow> health_source \<Rightarrow> probe_outcome \<Rightarrow> nat option \<Rightarrow> nat \<Rightarrow> bool \<Rightarrow> instant \<Rightarrow> health_event"
where
  "probe_health_event provider source outcome status latency_ms timed_out now =
     (let (health_outcome, error_kind) = probe_event_outcome source outcome status timed_out
      in \<lparr>he_ts = now, he_target_id = provider, he_provider = provider, he_org_id = [],
          he_source = source, he_outcome = health_outcome, he_status_code = status,
          he_latency_ms = latency_ms, he_error_kind = error_kind\<rparr>)"

definition probe_jitter_ms :: "string \<Rightarrow> 64 word \<Rightarrow> 64 word" where
  "probe_jitter_ms name window_ms =
     (if window_ms = 0 then 0
      else foldl (\<lambda>acc b. acc * 31 + of_nat (of_char b)) 0 name mod window_ms)"

section \<open>The mask of a route\<close>

lemma scan_unhealthy_contains:
  "mask_contains (scan_unhealthy m idx ps tm) i \<longleftrightarrow>
     mask_contains tm i \<or>
     (idx \<le> i \<and> i - idx < length ps \<and> \<not> is_healthy (Some m) (ps ! (i - idx)))"
proof (induction m idx ps tm rule: scan_unhealthy.induct)
  case (2 m idx p ps tm)
  have tail: "(p # ps) ! (i - idx) = ps ! (i - Suc idx)" "i - idx = Suc (i - Suc idx)" if "idx < i"
    using that by (simp_all add: nth_Cons')
  have head: "mask_contains (case hm_get m p of
          None \<Rightarrow> tm | Some st \<Rightarrow> if \<not> ps_healthy st then mask_insert tm idx else tm) i \<longleftrightarrow>
      mask_contains tm i \<or> (i = idx \<and> \<not> is_healthy (Some m) p)"
    by (auto simp: is_healthy_def mask_contains_insert split: option.splits)
  show ?case
    unfolding scan_unhealthy.simps "2.IH" head
    using tail by (cases i idx rule: linorder_cases) auto
qed simp

lemma unhealthy_mask_iff:
  "mask_contains (unhealthy_mask h ps) i \<longleftrightarrow> i < length ps \<and> \<not> is_healthy h (ps ! i)"
  by (cases h) (auto simp: unhealthy_mask_def scan_unhealthy_contains is_healthy_def)

interpretation health_mask: target_registry
  "\<lambda>h i. i < length ps \<and> \<not> is_healthy h (ps ! i)" "\<lambda>h n. unhealthy_mask h (take n ps)" for ps
  by unfold_locales (auto simp: unhealthy_mask_iff)

section \<open>Hysteresis\<close>

text \<open>
  A provider's history: the outcomes of its probes, oldest first, folded into the default state.
\<close>

definition probe_history :: "nat \<Rightarrow> nat \<Rightarrow> probe_outcome list \<Rightarrow> probe_state" where
  "probe_history fail_after recover_after os =
     foldl (\<lambda>st out. snd (on_result st out fail_after recover_after)) probe_default os"

definition trailing :: "('a \<Rightarrow> bool) \<Rightarrow> 'a list \<Rightarrow> nat" where
  "trailing P xs = length (takeWhile P (rev xs))"

lemma trailing_snoc [simp]:
  "trailing P (xs @ [x]) = (if P x then Suc (trailing P xs) else 0)"
  by (simp add: trailing_def)

lemma trailing_Nil [simp]: "trailing P [] = 0"
  by (simp add: trailing_def)

lemma on_result_counters:
  "ps_fails (snd (on_result st out fa ra)) =
     (if out = ProbeFailed then saturating_add u32_max (ps_fails st) 1 else 0)"
  "ps_oks (snd (on_result st out fa ra)) =
     (if out = ProbeFailed then 0 else saturating_add u32_max (ps_oks st) 1)"
  by (simp_all add: on_result_def Let_def)

lemma on_result_healthy:
  "ps_healthy (snd (on_result st out fa ra)) =
     (if out = ProbeFailed
      then ps_healthy st \<and> \<not> max fa 1 \<le> saturating_add u32_max (ps_fails st) 1
      else ps_healthy st \<or> max ra 1 \<le> saturating_add u32_max (ps_oks st) 1)"
  by (auto simp: on_result_def Let_def)

lemma probe_history_snoc:
  "probe_history fa ra (os @ [o']) = snd (on_result (probe_history fa ra os) o' fa ra)"
  by (simp add: probe_history_def)

lemma probe_history_counters:
  "ps_fails (probe_history fa ra os) = min u32_max (trailing (\<lambda>out. out = ProbeFailed) os) \<and>
   ps_oks (probe_history fa ra os) = min u32_max (trailing (\<lambda>out. out \<noteq> ProbeFailed) os)"
proof (induction os rule: rev_induct)
  case Nil
  show ?case by (simp add: probe_history_def probe_default_def)
next
  case (snoc o' os)
  then show ?case
    by (auto simp: probe_history_snoc on_result_counters saturating_add_def min_def)
qed

text \<open>
  No single probe flips a provider. After any history of outcomes the provider is unhealthy
  when the last \<open>fail_after\<close> outcomes (at least one) all failed, healthy when the last
  \<open>recover_after\<close> outcomes (at least one) all succeeded, and otherwise whatever it was before the
  latest outcome. Counters saturate, thresholds are 32-bit.
\<close>

theorem health_hysteresis:
  assumes "fail_after \<le> u32_max" and "recover_after \<le> u32_max"
  shows "ps_healthy (probe_history fail_after recover_after (os @ [o'])) =
    (if max fail_after 1 \<le> trailing (\<lambda>out. out = ProbeFailed) (os @ [o']) then False
     else if max recover_after 1 \<le> trailing (\<lambda>out. out \<noteq> ProbeFailed) (os @ [o']) then True
     else ps_healthy (probe_history fail_after recover_after os))"
proof -
  have "1 \<le> u32_max" by (simp add: u32_max_def)
  with assms show ?thesis
    using probe_history_counters [of fail_after recover_after os]
    by (auto simp: probe_history_snoc on_result_healthy saturating_add_def)
qed

lemma health_hysteresis_witness:
  "\<not> ps_healthy (probe_history 3 2 ([ProbeOk, ProbeFailed, ProbeFailed] @ [ProbeFailed])) \<and>
   \<not> ps_healthy (probe_history 3 2 ([ProbeFailed, ProbeFailed, ProbeFailed] @ [ProbeOk]))"
  using health_hysteresis [of 3 2 "[ProbeOk, ProbeFailed, ProbeFailed]" ProbeFailed]
    health_hysteresis [of 3 2 "[ProbeFailed, ProbeFailed, ProbeFailed]" ProbeOk]
  by (simp add: u32_max_def probe_history_def trailing_def on_result_def probe_default_def
      saturating_add_def)

section \<open>Backoff\<close>

text \<open>The states a provider can reach: any interleaving of sweeps that ask and results that land.\<close>

inductive probe_reachable :: "probe_state \<Rightarrow> bool" where
  reach_default: "probe_reachable probe_default"
| reach_set: "probe_reachable (probe_default\<lparr>ps_healthy := healthy\<rparr>)"
| reach_should: "probe_reachable st \<Longrightarrow> probe_reachable (snd (should_probe st))"
| reach_result: "probe_reachable st \<Longrightarrow> probe_reachable (snd (on_result st out fa ra))"

lemma probe_reachable_backoff:
  "probe_reachable st \<Longrightarrow> ps_backoff_remaining st \<le> 8 \<and> ps_backoff_level st \<le> MAX_BACKOFF_LEVEL"
proof (induction rule: probe_reachable.induct)
  case (reach_result st o' fa ra)
  then have "(2 :: nat) ^ ps_backoff_level st \<le> 2 ^ 3"
    by (intro power_increasing) (simp_all add: MAX_BACKOFF_LEVEL_def)
  with reach_result show ?case
    by (auto simp: on_result_def Let_def)
qed (auto simp: probe_default_def should_probe_def)

fun skipped_sweeps :: "nat \<Rightarrow> probe_state \<Rightarrow> bool list" where
  "skipped_sweeps 0 st = []"
| "skipped_sweeps (Suc k) st =
     (let (answer, st') = should_probe st in answer # skipped_sweeps k st')"

lemma skipped_sweeps_eq:
  "k \<le> ps_backoff_remaining st + 1 \<Longrightarrow>
    skipped_sweeps k st =
      (if k = ps_backoff_remaining st + 1 then replicate (k - 1) False @ [True]
       else replicate k False)"
proof (induction k arbitrary: st)
  case (Suc k)
  show ?case
  proof (cases "ps_backoff_remaining st")
    case 0
    with Suc.prems have "k = 0" by simp
    with 0 show ?thesis by (simp add: should_probe_def)
  next
    case (Suc r)
    with Suc.IH [of "st\<lparr>ps_backoff_remaining := r\<rparr>"] Suc.prems show ?thesis
      by (cases k) (auto simp: should_probe_def replicate_app_Cons_same)
  qed
qed simp

text \<open>
  A rate-limited provider is never dropped from probing: in every state it can reach, the
  sweeps skip it at most eight times in a row and the next sweep probes it.
\<close>

theorem backoff_bounded:
  assumes "probe_reachable st"
  shows "\<exists>k\<le>8. skipped_sweeps (Suc k) st = replicate k False @ [True]"
  using probe_reachable_backoff [OF assms] skipped_sweeps_eq [of "Suc (ps_backoff_remaining st)" st]
  by (intro exI [of _ "ps_backoff_remaining st"]) simp

lemma backoff_bounded_witness:
  "\<exists>k\<le>8. skipped_sweeps (Suc k) (snd (on_result probe_default ProbeRateLimited 3 2)) =
     replicate k False @ [True]"
  by (rule backoff_bounded) (intro reach_result reach_default)

text \<open>
  What a status says about a provider. A free probe reads every status below 500 other than 429
  as up; the llm-call check additionally fails on 401, 403, 404 and 405; a 429 is never a failure
  and a status of 500 or more always is.
\<close>

theorem classify_status_spec:
  "(classify_status source status = ProbeFailed \<longleftrightarrow>
      500 \<le> status \<or> (source = SourceLlmCall \<and> status \<in> {401, 403, 404, 405})) \<and>
   (classify_status source status = ProbeRateLimited \<longleftrightarrow> status = 429)"
  by (auto simp: classify_status_def llm_rejection_of_def)

lemma probe_jitter_bound: "0 < w \<Longrightarrow> probe_jitter_ms name w < w"
  by (simp add: probe_jitter_ms_def word_mod_less_divisor word_neq_0_conv)

end
