(* ===== verification/Route_Limits.thy ===== *)
theory Route_Limits
  imports Prelude "HOL-Library.Multiset"
begin

text \<open>
  The per-route concurrency cap of \<open>rolter-gateway/src/route_limits.rs\<close>. A permit is the key it was
  taken for; dropping it is \<open>permit_drop\<close>. The steps below keep the outstanding permits as a
  multiset beside the table, so that the table can be compared with what it is meant to count.
\<close>

type_synonym route_key = "string \<times> string"
type_synonym route_concurrency = "(route_key, nat) hash_map"

definition route_concurrency_default :: route_concurrency where
  "route_concurrency_default = []"

text \<open>
  \<open>entry(key).or_insert(0)\<close> writes a zero when the key is absent, also on the refusing path of a
  cap of zero.
\<close>

definition try_acquire ::
  "route_concurrency \<Rightarrow> string \<Rightarrow> string \<Rightarrow> nat \<Rightarrow> route_key option \<times> route_concurrency"
where
  "try_acquire m org route cap =
     (let key = (org, route);
          m' = (case hm_get m key of None \<Rightarrow> hm_insert key 0 m | Some _ \<Rightarrow> m);
          held = count_of m' key
      in if cap \<le> held then (None, m')
         else (Some key, hm_insert key (held + 1) m'))"

definition permit_drop :: "route_key \<Rightarrow> route_concurrency \<Rightarrow> route_concurrency" where
  "permit_drop key m = count_decr key m"

inductive rc_reachable :: "route_concurrency \<Rightarrow> route_key multiset \<Rightarrow> bool" where
  rc_start: "rc_reachable route_concurrency_default {#}"
| rc_grant: "rc_reachable m P \<Longrightarrow> try_acquire m org route cap = (Some key, m') \<Longrightarrow>
    rc_reachable m' (add_mset key P)"
| rc_refuse: "rc_reachable m P \<Longrightarrow> try_acquire m org route cap = (None, m') \<Longrightarrow> rc_reachable m' P"
| rc_drop: "rc_reachable m P \<Longrightarrow> key \<in># P \<Longrightarrow> rc_reachable (permit_drop key m) (P - {#key#})"

lemma count_of_or_insert:
  "count_of (case hm_get m key of None \<Rightarrow> hm_insert key 0 m | Some _ \<Rightarrow> m) k = count_of m k"
  by (auto simp: count_of_def split: option.splits)

lemma try_acquire_cases:
  "fst (try_acquire m org route cap) = (if cap \<le> count_of m (org, route) then None else Some (org, route))"
  "count_of (snd (try_acquire m org route cap)) k =
     count_of m k + (if k = (org, route) \<and> count_of m (org, route) < cap then 1 else 0)"
  by (simp_all add: try_acquire_def Let_def count_of_or_insert)

lemma rc_counts: "rc_reachable m P \<Longrightarrow> count_of m k = count P k"
proof (induction arbitrary: k rule: rc_reachable.induct)
  case rc_start
  show ?case by (simp add: route_concurrency_default_def)
next
  case (rc_grant m P org route cap key m')
  then show ?case
    using try_acquire_cases [of m org route cap] by (auto split: if_splits)
next
  case (rc_refuse m P org route cap m')
  then show ?case
    using try_acquire_cases [of m org route cap] by (auto split: if_splits)
next
  case (rc_drop m P key)
  then show ?case by (simp add: permit_drop_def)
qed

text \<open>
  The cap is exact. In every state reachable by taking and dropping permits, a request on a
  route is granted a slot if and only if fewer than \<open>cap\<close> permits of that very (org, route) are
  outstanding, and after a grant no more than \<open>cap\<close> are.
\<close>

theorem concurrency_cap_exact:
  assumes "rc_reachable m P"
  shows "fst (try_acquire m org route cap) =
      (if count P (org, route) < cap then Some (org, route) else None) \<and>
    (fst (try_acquire m org route cap) \<noteq> None \<longrightarrow>
      count_of (snd (try_acquire m org route cap)) (org, route) \<le> cap)"
  using rc_counts [OF assms, of "(org, route)"] by (auto simp: try_acquire_cases)

lemma concurrency_cap_exact_witness:
  "fst (try_acquire (snd (try_acquire route_concurrency_default ''org'' ''gpt'' 1)) ''org'' ''gpt'' 1) = None"
proof -
  have "rc_reachable (snd (try_acquire route_concurrency_default ''org'' ''gpt'' 1))
      (add_mset (''org'', ''gpt'') {#})"
    by (rule rc_grant [OF rc_start, of "''org''" "''gpt''" 1])
      (simp add: try_acquire_def route_concurrency_default_def Let_def)
  from concurrency_cap_exact [OF this, of "''org''" "''gpt''" 1] show ?thesis by simp
qed

end
