(* ===== verification/Ieee_Float.thy ===== *)
theory Ieee_Float
  imports Complex_Main "HOL-Library.Log_Nat"
begin

text \<open>
  Floating point as the gateway uses it: finite values are rationals and every operation rounds the
  exact result to the nearest value of precision \<open>p\<close>, ties to even (\<open>p = 53\<close> for \<open>f64\<close>, \<open>p = 24\<close>
  for \<open>f32\<close>). The exponent is unbounded: the quantities the code computes with (ratios, weights,
  milliseconds) stay far from overflow and underflow, and no definition of the development divides
  by zero. The laws the proofs use are gathered in the locale \<open>rounding\<close> and discharged for \<open>fl\<close>.
\<close>

section \<open>Rounding\<close>

definition ilog2 :: "rat \<Rightarrow> int" where
  "ilog2 x =
     (let (a, b) = quotient_of x;
          k = int (floorlog 2 (nat a)) - int (floorlog 2 (nat b))
      in if 2 powi k \<le> x then k else k - 1)"

definition round_even :: "rat \<Rightarrow> int" where
  "round_even y =
     (let f = \<lfloor>y\<rfloor>; d = y - of_int f
      in if d < 1 / 2 \<or> (d = 1 / 2 \<and> even f) then f else f + 1)"

definition fl :: "nat \<Rightarrow> rat \<Rightarrow> rat" where
  "fl p x =
     (if x = 0 then 0
      else
        let u = 2 powi (ilog2 \<bar>x\<bar> - int p + 1)
        in sgn x * (of_int (round_even (\<bar>x\<bar> / u)) * u))"

definition f64 :: "rat \<Rightarrow> rat" where
  "f64 x = fl 53 x"

definition f32 :: "rat \<Rightarrow> rat" where
  "f32 x = fl 24 x"

text \<open>The values of precision \<open>p\<close>.\<close>

definition representable :: "nat \<Rightarrow> rat \<Rightarrow> bool" where
  "representable p x \<longleftrightarrow> (\<exists>m k. \<bar>m\<bar> < 2 ^ p \<and> x = of_int m * 2 powi k)"

section \<open>Exponents\<close>

lemma powi_pos [simp]: "0 < (2 :: rat) powi k"
  by simp

lemma powi_mono: "j \<le> k \<Longrightarrow> (2 :: rat) powi j \<le> 2 powi k"
  by (rule power_int_increasing) simp_all

lemma powi_add: "(2 :: rat) powi (j + k) = 2 powi j * 2 powi k"
  by (simp add: power_int_add)

lemma powi_strict_mono_iff: "(2 :: rat) powi j < 2 powi k \<longleftrightarrow> j < k"
  by (meson linorder_not_less order_less_irrefl powi_mono power_int_strict_increasing
      one_less_numeral_iff semiring_norm(76))

lemma floorlog2_bounds: "0 < n \<Longrightarrow> (2::rat) powi (int (floorlog 2 n) - 1) \<le> of_nat n \<and>
    of_nat n < (2::rat) powi int (floorlog 2 n)"
proof -
  assume n: "0 < n"
  then have b: "2 ^ (floorlog 2 n - 1) \<le> n" "n < 2 ^ floorlog 2 n"
    using floorlog_bounds [of n 2] by auto
  have pos: "floorlog 2 n > 0"
    using n by (simp add: floorlog_def)
  then have "int (floorlog 2 n) - 1 = int (floorlog 2 n - 1)"
    by simp
  then have "(2::rat) powi (int (floorlog 2 n) - 1) = of_nat (2 ^ (floorlog 2 n - 1))"
    by (simp only: power_int_of_nat of_nat_power of_nat_numeral)
  moreover have "(2::rat) powi int (floorlog 2 n) = of_nat (2 ^ floorlog 2 n)"
    by (simp only: power_int_of_nat of_nat_power of_nat_numeral)
  ultimately show ?thesis
    using b by (simp only: of_nat_le_iff of_nat_less_iff)
qed

lemma ilog2_bounds:
  assumes "0 < x"
  shows "2 powi ilog2 x \<le> x" and "x < 2 powi (ilog2 x + 1)"
proof -
  obtain a b where q: "quotient_of x = (a, b)" by (cases "quotient_of x")
  have b: "0 < b" and x: "x = of_int a / of_int b"
    using q quotient_of_denom_pos quotient_of_div by auto
  have a: "0 < a"
    using assms x b by (simp add: zero_less_divide_iff)
  define i j where "i = int (floorlog 2 (nat a))" and "j = int (floorlog 2 (nat b))"
  have A: "(2::rat) powi (i - 1) \<le> of_int a" "of_int a < (2::rat) powi i"
    using floorlog2_bounds [of "nat a"] a by (simp_all add: i_def)
  have B: "(2::rat) powi (j - 1) \<le> of_int b" "of_int b < (2::rat) powi j"
    using floorlog2_bounds [of "nat b"] b by (simp_all add: j_def)
  have low: "(2::rat) powi (i - j - 1) < x"
  proof -
    have "(2::rat) powi (i - j - 1) * of_int b < 2 powi (i - j - 1) * 2 powi j"
      using B(2) by simp
    also have "\<dots> = 2 powi (i - 1)"
      by (simp flip: power_int_add)
    finally have "(2::rat) powi (i - j - 1) * of_int b < of_int a"
      using A(1) by linarith
    then show ?thesis
      using b by (simp add: x pos_less_divide_eq)
  qed
  have high: "x < (2::rat) powi (i - j + 1)"
  proof -
    have "of_int a < (2::rat) powi (i - j + 1) * 2 powi (j - 1)"
      using A(2) by (simp flip: power_int_add)
    also have "\<dots> \<le> 2 powi (i - j + 1) * of_int b"
      using B(1) by simp
    finally show ?thesis
      using b by (simp add: x pos_divide_less_eq)
  qed
  have e: "ilog2 x = (if 2 powi (i - j) \<le> x then i - j else i - j - 1)"
    by (simp add: ilog2_def q i_def j_def Let_def)
  show "2 powi ilog2 x \<le> x" "x < 2 powi (ilog2 x + 1)"
    using low high by (auto simp: e)
qed

lemma ilog2_mono: "0 < x \<Longrightarrow> x \<le> y \<Longrightarrow> ilog2 x \<le> ilog2 y"
proof -
  assume "0 < x" "x \<le> y"
  then have "(2::rat) powi ilog2 x < 2 powi (ilog2 y + 1)"
    using ilog2_bounds(1) [of x] ilog2_bounds(2) [of y] by linarith
  then show ?thesis
    by (simp add: powi_strict_mono_iff)
qed

section \<open>Rounding to an integer\<close>

lemma round_even_of_int [simp]: "round_even (of_int n) = n"
  by (simp add: round_even_def)

lemma round_even_mono: "x \<le> y \<Longrightarrow> round_even x \<le> round_even y"
proof (cases "\<lfloor>x\<rfloor> = \<lfloor>y\<rfloor>")
  case True
  assume "x \<le> y"
  with True show ?thesis
    by (auto simp: round_even_def Let_def)
next
  case False
  assume "x \<le> y"
  then have "\<lfloor>x\<rfloor> \<le> \<lfloor>y\<rfloor>" by (rule floor_mono)
  with False have "\<lfloor>x\<rfloor> + 1 \<le> \<lfloor>y\<rfloor>" by simp
  then show ?thesis
    by (auto simp: round_even_def Let_def)
qed

lemma round_even_le_of_int: "x \<le> of_int n \<Longrightarrow> round_even x \<le> n"
  using round_even_mono [of x "of_int n"] by simp

lemma round_even_ge_of_int: "of_int n \<le> x \<Longrightarrow> n \<le> round_even x"
  using round_even_mono [of "of_int n" x] by simp

section \<open>Laws of rounding\<close>

lemma fl_0 [simp]: "fl p 0 = 0"
  by (simp add: fl_def)

lemma fl_minus: "fl p (- x) = - fl p x"
  by (simp add: fl_def Let_def sgn_minus)

lemma fl_pos_eq:
  "0 < x \<Longrightarrow> fl p x = of_int (round_even (x / 2 powi (ilog2 x - int p + 1))) * 2 powi (ilog2 x - int p + 1)"
  by (simp add: fl_def Let_def)

lemma fl_range:
  assumes "0 < x" "0 < p"
  shows "2 powi ilog2 x \<le> fl p x" and "fl p x \<le> 2 powi (ilog2 x + 1)"
proof -
  define u where "u = (2::rat) powi (ilog2 x - int p + 1)"
  have u: "0 < u" by (simp add: u_def)
  have lo: "2 powi ilog2 x = of_int (2 ^ (p - 1)) * u" and hi: "2 powi (ilog2 x + 1) = of_int (2 ^ p) * u"
  proof -
    have "int p - 1 = int (p - 1)" using assms(2) by simp
    then have "(of_int (2 ^ (p - 1)) :: rat) = 2 powi (int p - 1)"
      by (simp only: power_int_of_nat of_int_power of_int_numeral)
    then show "2 powi ilog2 x = of_int (2 ^ (p - 1)) * u"
      by (simp add: u_def flip: power_int_add)
    have "(of_int (2 ^ p) :: rat) = 2 powi (int p)"
      by (simp only: power_int_of_nat of_int_power of_int_numeral)
    moreover have "ilog2 x + 1 = int p + (ilog2 x - int p + 1)"
      by simp
    ultimately show "2 powi (ilog2 x + 1) = of_int (2 ^ p) * u"
      by (simp only: u_def powi_add [symmetric])
  qed
  have "of_int (2 ^ (p - 1)) \<le> x / u" "x / u \<le> of_int (2 ^ p)"
    using ilog2_bounds [OF assms(1)] u lo hi by (simp_all add: field_simps)
  then have "2 ^ (p - 1) \<le> round_even (x / u)" "round_even (x / u) \<le> 2 ^ p"
    by (auto intro: round_even_ge_of_int round_even_le_of_int)
  then have "(of_int (2 ^ (p - 1)) :: rat) \<le> of_int (round_even (x / u))"
    "(of_int (round_even (x / u)) :: rat) \<le> of_int (2 ^ p)"
    by (simp_all only: of_int_le_iff)
  then have "of_int (2 ^ (p - 1)) * u \<le> of_int (round_even (x / u)) * u"
    "of_int (round_even (x / u)) * u \<le> of_int (2 ^ p) * u"
    using u by (simp_all only: mult_right_mono less_imp_le)
  then show "2 powi ilog2 x \<le> fl p x" "fl p x \<le> 2 powi (ilog2 x + 1)"
    using assms(1) by (simp_all only: fl_pos_eq u_def [symmetric] lo hi)
qed

lemma fl_mono_pos:
  assumes "0 < x" "x \<le> y" "0 < p"
  shows "fl p x \<le> fl p y"
proof (cases "ilog2 x = ilog2 y")
  case True
  define u where "u = (2::rat) powi (ilog2 y - int p + 1)"
  have "x / u \<le> y / u"
    using assms by (simp add: u_def divide_right_mono)
  then have "(of_int (round_even (x / u)) :: rat) \<le> of_int (round_even (y / u))"
    by (simp only: of_int_le_iff round_even_mono)
  then have "of_int (round_even (x / u)) * u \<le> of_int (round_even (y / u)) * u"
    by (simp only: mult_right_mono u_def powi_pos less_imp_le)
  with assms True show ?thesis
    by (simp add: fl_pos_eq u_def)
next
  case False
  then have "ilog2 x + 1 \<le> ilog2 y"
    using ilog2_mono [OF assms(1,2)] by simp
  then have "(2::rat) powi (ilog2 x + 1) \<le> 2 powi ilog2 y"
    by (rule powi_mono)
  then show ?thesis
    using fl_range(2) [of x p] fl_range(1) [of y p] assms by linarith
qed

lemma fl_nonneg: "0 < p \<Longrightarrow> 0 \<le> x \<Longrightarrow> 0 \<le> fl p x"
proof (cases "x = 0")
  case False
  assume "0 < p" "0 \<le> x"
  with False have "2 powi ilog2 x \<le> fl p x"
    by (intro fl_range(1)) simp_all
  then show ?thesis
    using powi_pos [of "ilog2 x"] by linarith
qed simp

lemma fl_mono: "0 < p \<Longrightarrow> x \<le> y \<Longrightarrow> fl p x \<le> fl p y"
proof (cases "0 < x")
  case True
  assume "0 < p" "x \<le> y"
  with True show ?thesis by (simp add: fl_mono_pos)
next
  case False
  assume p: "0 < p" and le: "x \<le> y"
  show ?thesis
  proof (cases "0 \<le> y")
    case True
    have "0 \<le> fl p (- x)" using False p by (simp add: fl_nonneg)
    moreover have "0 \<le> fl p y" using True p by (simp add: fl_nonneg)
    ultimately show ?thesis by (simp add: fl_minus)
  next
    case neg: False
    then have "fl p (- y) \<le> fl p (- x)"
      using le p by (intro fl_mono_pos) auto
    then show ?thesis by (simp add: fl_minus)
  qed
qed

lemma representable_minus [simp]: "representable p (- x) = representable p x"
proof -
  have "representable p (- x)" if rx: "representable p x" for x
  proof -
    from rx obtain m k where "\<bar>m\<bar> < 2 ^ p" "x = of_int m * 2 powi k"
      by (auto simp: representable_def)
    then have "\<bar>- m\<bar> < 2 ^ p \<and> - x = of_int (- m) * 2 powi k" by simp
    then show ?thesis unfolding representable_def by blast
  qed
  from this [of x] this [of "- x"] show ?thesis by auto
qed

lemma representable_of_int: "\<bar>n\<bar> < 2 ^ p \<Longrightarrow> representable p (of_int n)"
  unfolding representable_def by (intro exI [of _ n] exI [of _ 0]) simp

lemma fl_exact_pos:
  assumes "representable p x" "0 < x"
  shows "fl p x = x"
proof -
  from assms(1) obtain m k where m: "\<bar>m\<bar> < 2 ^ p" and x: "x = of_int m * 2 powi k"
    by (auto simp: representable_def)
  have mpos: "0 < m"
    using assms(2) x powi_pos [of k] by (simp add: zero_less_mult_iff del: powi_pos)
  have "of_int m < (of_int (2 ^ p) :: rat)"
    using m mpos by (simp only: of_int_less_iff abs_of_pos)
  then have "x < (2::rat) powi int p * 2 powi k"
    by (simp add: x power_int_def)
  then have "(2::rat) powi ilog2 x < 2 powi (int p + k)"
    using ilog2_bounds(1) [OF assms(2)] by (simp add: power_int_add)
  then have e: "ilog2 x - int p + 1 \<le> k"
    by (simp add: powi_strict_mono_iff)
  define d where "d = nat (k - (ilog2 x - int p + 1))"
  define u where "u = (2::rat) powi (ilog2 x - int p + 1)"
  have "(2::rat) powi k = 2 ^ d * u"
  proof -
    have "k = int d + (ilog2 x - int p + 1)" using e by (simp add: d_def)
    then have "(2::rat) powi k = 2 powi (int d) * u"
      by (simp only: u_def powi_add [symmetric])
    then show ?thesis by (simp only: power_int_of_nat)
  qed
  then have "x = of_int (m * 2 ^ d) * u"
    using x by simp
  moreover have "u \<noteq> 0"
    using powi_pos unfolding u_def by (metis less_irrefl)
  ultimately have "x / u = of_int (m * 2 ^ d)"
    by (metis nonzero_mult_div_cancel_right)
  then show ?thesis
    using assms(2) by (simp only: fl_pos_eq u_def [symmetric] round_even_of_int)
      (metis nonzero_eq_divide_eq u_def powi_pos less_irrefl)
qed

lemma fl_exact: "representable p x \<Longrightarrow> fl p x = x"
proof (cases x "0::rat" rule: linorder_cases)
  case less
  assume "representable p x"
  then have "fl p (- x) = - x" using less by (intro fl_exact_pos) simp_all
  then show ?thesis by (simp add: fl_minus)
next
  case greater
  assume "representable p x"
  then show ?thesis using greater by (rule fl_exact_pos)
qed simp

lemma round_even_le: "of_int (round_even y) \<le> y + 1 / 2"
proof -
  define d where "d = y - of_int \<lfloor>y\<rfloor>"
  have "y = of_int \<lfloor>y\<rfloor> + d" "0 \<le> d"
    by (simp_all add: d_def)
  moreover have "round_even y = (if d < 1 / 2 \<or> (d = 1 / 2 \<and> even \<lfloor>y\<rfloor>) then \<lfloor>y\<rfloor> else \<lfloor>y\<rfloor> + 1)"
    by (simp add: round_even_def d_def Let_def)
  ultimately show ?thesis
    by (cases "d < 1 / 2 \<or> (d = 1 / 2 \<and> even \<lfloor>y\<rfloor>)") simp_all
qed

text \<open>Rounding enlarges a magnitude by at most half: far from tight, but all that is needed.\<close>

lemma fl_expand:
  assumes "0 \<le> x" "0 < p"
  shows "2 * fl p x \<le> 3 * x"
proof (cases "x = 0")
  case False
  with assms have x: "0 < x" by simp
  define u where "u = (2::rat) powi (ilog2 x - int p + 1)"
  have u: "0 < u" by (simp add: u_def)
  have "u \<le> 2 powi ilog2 x"
    using assms(2) by (auto simp: u_def intro!: powi_mono)
  then have ux: "u \<le> x"
    using ilog2_bounds(1) [OF x] by linarith
  have "of_int (round_even (x / u)) * u \<le> (x / u + 1 / 2) * u"
    using round_even_le [of "x / u"] u by (simp only: mult_right_mono less_imp_le)
  also have "\<dots> = x + u / 2"
    using u by (simp add: field_simps)
  finally have "fl p x \<le> x + u / 2"
    using x by (simp only: fl_pos_eq u_def [symmetric])
  with ux show ?thesis by linarith
qed simp

lemma fl_representable_pos:
  assumes "0 < x" "0 < p"
  shows "representable p (fl p x)"
proof -
  define e where "e = ilog2 x - int p + 1"
  define n where "n = round_even (x / 2 powi e)"
  have f: "fl p x = of_int n * 2 powi e"
    using assms(1) by (simp only: fl_pos_eq e_def n_def)
  have "fl p x \<le> 2 powi (ilog2 x + 1)"
    by (rule fl_range(2)) (use assms in auto)
  moreover have "ilog2 x + 1 = int p + e" by (simp add: e_def)
  ultimately have "of_int n * 2 powi e \<le> of_int (2 ^ p) * (2::rat) powi e"
    unfolding f by (simp add: powi_add)
  then have "(of_int n :: rat) \<le> of_int (2 ^ p)"
    using powi_pos [of e] by (meson mult_right_le_imp_le)
  then have hi: "n \<le> 2 ^ p" by (simp only: of_int_le_iff)
  have "0 \<le> n"
    unfolding n_def using assms(1) by (intro round_even_ge_of_int) (simp add: divide_nonneg_pos)
  show ?thesis
  proof (cases "n = 2 ^ p")
    case True
    have "fl p x = of_int 1 * 2 powi (int p + e)"
      unfolding f True by (simp add: powi_add)
    moreover have "\<bar>1 :: int\<bar> < 2 ^ p"
      using assms(2) by simp
    ultimately show ?thesis
      unfolding representable_def by blast
  next
    case False
    with hi \<open>0 \<le> n\<close> have "\<bar>n\<bar> < 2 ^ p" by simp
    with f show ?thesis
      unfolding representable_def by blast
  qed
qed

lemma fl_representable: "0 < p \<Longrightarrow> representable p (fl p x)"
proof (cases x "0::rat" rule: linorder_cases)
  case less
  assume "0 < p"
  then have "representable p (fl p (- x))"
    using less by (intro fl_representable_pos) simp_all
  then show ?thesis by (simp add: fl_minus)
next
  case equal
  assume "0 < p"
  then show ?thesis using equal representable_of_int [of 0 p] by simp
next
  case greater
  assume "0 < p"
  then show ?thesis using greater by (intro fl_representable_pos) simp_all
qed

section \<open>The interface of a float type\<close>

text \<open>
  What the components rely on: rounding is monotone, yields values of the type and leaves them
  alone; they include every integer of at most \<open>p\<close> bits.
\<close>

locale rounding =
  fixes rnd :: "rat \<Rightarrow> rat" and is_float :: "rat \<Rightarrow> bool" and bits :: nat
  assumes rnd_mono: "x \<le> y \<Longrightarrow> rnd x \<le> rnd y"
    and rnd_exact: "is_float x \<Longrightarrow> rnd x = x"
    and rnd_is_float: "is_float (rnd x)"
    and rnd_expand: "0 \<le> x \<Longrightarrow> 2 * rnd x \<le> 3 * x"
    and int_is_float: "\<bar>n\<bar> < 2 ^ bits \<Longrightarrow> is_float (of_int n)"
begin

lemma rnd_le: "is_float y \<Longrightarrow> x \<le> y \<Longrightarrow> rnd x \<le> y"
  using rnd_mono [of x y] rnd_exact [of y] by simp

lemma rnd_ge: "is_float y \<Longrightarrow> y \<le> x \<Longrightarrow> y \<le> rnd x"
  using rnd_mono [of y x] rnd_exact [of y] by simp

lemma rnd_0 [simp]: "rnd 0 = 0"
  using rnd_exact [OF int_is_float [of 0]] by simp

lemma rnd_1 [simp]: "0 < bits \<Longrightarrow> rnd 1 = 1"
  using rnd_exact [OF int_is_float [of 1]] by simp

lemma rnd_nonneg: "0 \<le> x \<Longrightarrow> 0 \<le> rnd x"
  using rnd_mono [of 0 x] by simp

lemma rnd_of_nat: "n < 2 ^ bits \<Longrightarrow> rnd (of_nat n) = of_nat n"
proof -
  assume "n < 2 ^ bits"
  then have "\<bar>int n\<bar> < 2 ^ bits" by simp
  then show ?thesis
    using rnd_exact [OF int_is_float [of "int n"]] by simp
qed

lemma rnd_between:
  "is_float a \<Longrightarrow> is_float b \<Longrightarrow> a \<le> x \<Longrightarrow> x \<le> b \<Longrightarrow> a \<le> rnd x \<and> rnd x \<le> b"
  by (simp add: rnd_le rnd_ge)

end

interpretation f64: rounding f64 "representable 53" 53
  by unfold_locales (simp_all add: f64_def fl_mono fl_exact representable_of_int fl_representable fl_expand)

interpretation f32: rounding f32 "representable 24" 24
  by unfold_locales (simp_all add: f32_def fl_mono fl_exact representable_of_int fl_representable fl_expand)

end
