(* ===== verification/Predictor.thy ===== *)
theory Predictor
  imports Prelude Ieee_Float
begin

text \<open>
  The online latency model of \<open>rolter-balancer/src/predictor.rs\<close>: three coefficients per target,
  learned by normalised least mean squares in \<open>f64\<close> arithmetic. Latencies are finite values; the
  guard against infinities and NaN of \<open>observe\<close> has no counterpart here.
\<close>

definition MIN_SAMPLES :: nat where
  "MIN_SAMPLES = 8"

definition STEP :: rat where
  "STEP = f64 (15 / 100)"

definition EPSILON :: rat where
  "EPSILON = f64 (1 / 1000)"

definition MAX_COEFFICIENT :: rat where
  "MAX_COEFFICIENT = 600000"

record features =
  ft_queue_depth :: nat
  ft_prompt_tokens :: nat

definition feature_row :: "features \<Rightarrow> rat list" where
  "feature_row f =
     [1, f64 (of_nat (ft_queue_depth f)), f64 (f64 (of_nat (ft_prompt_tokens f)) / 1000)]"

record target_model =
  tgm_weights :: "rat list"
  tgm_samples :: nat

definition target_model_default :: target_model where
  "target_model_default = \<lparr>tgm_weights = [0, 0, 0], tgm_samples = 0\<rparr>"

text \<open>\<open>Iterator::sum\<close>: left to right, rounding after every addition.\<close>

definition f64_sum :: "rat list \<Rightarrow> rat" where
  "f64_sum xs = foldl (\<lambda>acc x. f64 (acc + x)) 0 xs"

definition model_predict :: "target_model \<Rightarrow> features \<Rightarrow> rat" where
  "model_predict tm f =
     max (f64_sum (map2 (\<lambda>w xi. f64 (w * xi)) (tgm_weights tm) (feature_row f))) 0"

definition clamp :: "rat \<Rightarrow> rat \<Rightarrow> rat \<Rightarrow> rat" where
  "clamp lo hi x = (if x < lo then lo else if hi < x then hi else x)"

definition model_observe :: "target_model \<Rightarrow> features \<Rightarrow> rat \<Rightarrow> target_model" where
  "model_observe tm f latency_ms =
     (let x = feature_row f;
          norm = f64 (EPSILON + f64_sum (map (\<lambda>xi. f64 (xi * xi)) x));
          err = f64 (latency_ms - model_predict tm f)
      in \<lparr>tgm_weights =
            map2 (\<lambda>w xi. clamp (- MAX_COEFFICIENT) MAX_COEFFICIENT
                     (f64 (w + f64 (f64 (f64 (STEP * err) * xi) / norm))))
              (tgm_weights tm) x,
          tgm_samples = saturating_add u64_max (tgm_samples tm) 1\<rparr>)"

record predictor =
  lp_models :: "target_model list"
  lp_observed :: nat

definition predictor_new :: "nat \<Rightarrow> predictor" where
  "predictor_new n = \<lparr>lp_models = replicate n target_model_default, lp_observed = 0\<rparr>"

definition predictor_observe :: "predictor \<Rightarrow> nat \<Rightarrow> features \<Rightarrow> rat \<Rightarrow> predictor" where
  "predictor_observe p target f latency_ms =
     (if latency_ms < 0 then p
      else
        case vec_get (lp_models p) target of
          None \<Rightarrow> p
        | Some model \<Rightarrow>
            p\<lparr>lp_models := (lp_models p)[target := model_observe model f latency_ms],
              lp_observed := lp_observed p + 1\<rparr>)"

definition predictor_predict :: "predictor \<Rightarrow> nat \<Rightarrow> nat list \<Rightarrow> nat \<Rightarrow> rat option list" where
  "predictor_predict p n loads prompt_tokens =
     map (\<lambda>i. case vec_get (lp_models p) i of
                None \<Rightarrow> None
              | Some model \<Rightarrow>
                  if tgm_samples model < MIN_SAMPLES then None
                  else Some (model_predict model
                         \<lparr>ft_queue_depth = (case vec_get loads i of None \<Rightarrow> 0 | Some l \<Rightarrow> l),
                          ft_prompt_tokens = prompt_tokens\<rparr>))
       [0..<n]"

definition coefficients :: "predictor \<Rightarrow> nat \<Rightarrow> rat list option" where
  "coefficients p target = map_option tgm_weights (vec_get (lp_models p) target)"

definition predictor_samples :: "predictor \<Rightarrow> nat \<Rightarrow> nat" where
  "predictor_samples p target =
     (case vec_get (lp_models p) target of None \<Rightarrow> 0 | Some model \<Rightarrow> tgm_samples model)"

section \<open>Invariant\<close>

definition model_ok :: "target_model \<Rightarrow> bool" where
  "model_ok tm =
     (length (tgm_weights tm) = 3 \<and> list_all (\<lambda>w. \<bar>w\<bar> \<le> MAX_COEFFICIENT) (tgm_weights tm))"

lemma clamp_bounds: "0 \<le> c \<Longrightarrow> \<bar>clamp (- c) c x\<bar> \<le> c"
  by (auto simp: clamp_def)

lemma length_feature_row [simp]: "length (feature_row f) = 3"
  by (simp add: feature_row_def)

lemma model_ok_default: "model_ok target_model_default"
  by (simp add: model_ok_def target_model_default_def MAX_COEFFICIENT_def)

lemma model_ok_observe: "model_ok tm \<Longrightarrow> model_ok (model_observe tm f l)"
  by (auto simp: model_ok_def model_observe_def Let_def list_all_iff clamp_bounds
      MAX_COEFFICIENT_def in_set_zip)

definition observations :: "predictor \<Rightarrow> (nat \<times> features \<times> rat) list \<Rightarrow> predictor" where
  "observations p obs = foldl (\<lambda>p (target, f, l). predictor_observe p target f l) p obs"

definition taught :: "nat \<Rightarrow> (nat \<times> features \<times> rat) list \<Rightarrow> nat" where
  "taught target obs = length (filter (\<lambda>(t, _, l). t = target \<and> 0 \<le> l) obs)"

lemma observations_snoc:
  "observations p (obs @ [(t, f, l)]) = predictor_observe (observations p obs) t f l"
  by (simp add: observations_def)

lemma observations_inv:
  "length (lp_models (observations (predictor_new n) obs)) = n \<and>
   (\<forall>i<n. model_ok (lp_models (observations (predictor_new n) obs) ! i) \<and>
      tgm_samples (lp_models (observations (predictor_new n) obs) ! i) = min u64_max (taught i obs))"
proof (induction obs rule: rev_induct)
  case Nil
  show ?case
    by (simp add: observations_def predictor_new_def model_ok_default taught_def)
      (simp add: target_model_default_def)
next
  case (snoc o' obs)
  obtain t f l where o': "o' = (t, f, l)" by (cases o')
  show ?case
  proof (cases "l < 0 \<or> n \<le> t")
    case True
    then have "predictor_observe (observations (predictor_new n) obs) t f l =
        observations (predictor_new n) obs"
      using snoc by (auto simp: predictor_observe_def vec_get_def)
    moreover have "taught i (obs @ [o']) = taught i obs" if "i < n" for i
      using True that by (auto simp: taught_def o')
    ultimately show ?thesis
      using snoc by (simp add: o' observations_snoc)
  next
    case False
    then have "taught i (obs @ [o']) = taught i obs + (if i = t then 1 else 0)" for i
      by (auto simp: taught_def o')
    moreover have "tgm_samples (model_observe tm f l) = saturating_add u64_max (tgm_samples tm) 1" for tm
      by (simp add: model_observe_def Let_def)
    ultimately show ?thesis
      using snoc False
      by (auto simp: o' observations_snoc predictor_observe_def model_ok_observe nth_list_update
          saturating_add_def min_def)
  qed
qed

text \<open>
  A target predicts nothing before eight valid completions have been folded into its own model,
  whatever was observed of other targets or rejected as a negative sample, and from then on its
  prediction is never negative; no learned coefficient ever leaves plus or minus ten minutes.
\<close>

theorem prediction_needs_evidence:
  assumes "i < k"
  shows "(predictor_predict (observations (predictor_new n) obs) k loads tokens ! i = None
      \<longleftrightarrow> n \<le> i \<or> taught i obs < MIN_SAMPLES) \<and>
    (\<forall>v. predictor_predict (observations (predictor_new n) obs) k loads tokens ! i = Some v \<longrightarrow> 0 \<le> v) \<and>
    (\<forall>ws. coefficients (observations (predictor_new n) obs) i = Some ws \<longrightarrow>
      list_all (\<lambda>w. \<bar>w\<bar> \<le> MAX_COEFFICIENT) ws)"
proof -
  define p where "p = observations (predictor_new n) obs"
  have inv: "length (lp_models p) = n"
    "\<And>i. i < n \<Longrightarrow> model_ok (lp_models p ! i) \<and> tgm_samples (lp_models p ! i) = min u64_max (taught i obs)"
    using observations_inv [of n obs] by (simp_all add: p_def)
  have small: "min u64_max x < MIN_SAMPLES \<longleftrightarrow> x < MIN_SAMPLES" for x
    by (auto simp: u64_max_def MIN_SAMPLES_def)
  have at: "predictor_predict p k loads tokens ! i =
      (if n \<le> i \<or> taught i obs < MIN_SAMPLES then None
       else Some (model_predict (lp_models p ! i)
              \<lparr>ft_queue_depth = (case vec_get loads i of None \<Rightarrow> 0 | Some l \<Rightarrow> l),
               ft_prompt_tokens = tokens\<rparr>))"
    using assms inv(1) inv(2) [of i] by (auto simp: predictor_predict_def vec_get_def small)
  have "0 \<le> model_predict tm f" for tm f
    by (simp add: model_predict_def)
  then show ?thesis
    unfolding p_def [symmetric] at using inv(1) inv(2) [of i]
    by (auto simp: coefficients_def vec_get_eq_Some model_ok_def)
qed

lemma prediction_needs_evidence_witness:
  "predictor_predict (observations (predictor_new 1)
      [(0, \<lparr>ft_queue_depth = 1, ft_prompt_tokens = 100\<rparr>, 50)]) 1 [0] 100 ! 0 = None"
  using prediction_needs_evidence [of 0 1 1 "[(0, \<lparr>ft_queue_depth = 1, ft_prompt_tokens = 100\<rparr>, 50)]" "[0]" 100]
  by (simp add: taught_def MIN_SAMPLES_def)

end
