(* ===== verification/Load.thy ===== *)
theory Load
  imports Route_Limits Predictor
begin

text \<open>
  The in-flight load tracker of \<open>rolter-gateway/src/load.rs\<close>: per-target counts held by guards for
  the life of a request, the smoothed latency of successful requests and the latency models.
  A guard's drop is \<open>guard_drop\<close>. The handles a guard clones are read as flags (whether the tracker
  has the registry; whether the model of the route existed when the guard was created): the maps
  they point into never lose or replace an entry of their own accord.
\<close>

section \<open>State\<close>

definition LATENCY_EWMA_ALPHA :: rat where
  "LATENCY_EWMA_ALPHA = f64 (3 / 10)"

type_synonym load_key = "string \<times> nat"

record load_tracker =
  lt_inner :: "(load_key, nat) hash_map option"
  lt_latency :: "(load_key, rat) hash_map option"
  lt_predictors :: "(string, predictor) hash_map option"

record load_guard =
  lg_inner :: "load_key option"
  lg_latency :: bool
  lg_predictor :: bool
  lg_started :: instant
  lg_record :: bool
  lg_queue_depth :: nat
  lg_prompt_tokens :: nat
  lg_route_permit :: "route_key option"

section \<open>Operations\<close>

definition tracker_new :: load_tracker where
  "tracker_new = \<lparr>lt_inner = Some [], lt_latency = Some [], lt_predictors = Some []\<rparr>"

definition tracker_predictor ::
  "load_tracker \<Rightarrow> string \<Rightarrow> nat \<Rightarrow> predictor option \<times> load_tracker"
where
  "tracker_predictor t model n =
     (case lt_predictors t of
        None \<Rightarrow> (None, t)
      | Some m \<Rightarrow>
          (case hm_get m model of
             Some p \<Rightarrow> (Some p, t)
           | None \<Rightarrow>
               let p = predictor_new n
               in (Some p, t\<lparr>lt_predictors := Some (hm_insert model p m)\<rparr>)))"

definition load_snapshot :: "load_tracker \<Rightarrow> string \<Rightarrow> nat \<Rightarrow> nat list" where
  "load_snapshot t model n =
     (case lt_inner t of
        None \<Rightarrow> []
      | Some m \<Rightarrow> map (\<lambda>i. count_of m (model, i)) [0..<n])"

definition total_in_flight :: "load_tracker \<Rightarrow> nat" where
  "total_in_flight t =
     (case lt_inner t of None \<Rightarrow> 0 | Some m \<Rightarrow> sum_list (map snd m))"

definition latency_snapshot :: "load_tracker \<Rightarrow> string \<Rightarrow> nat \<Rightarrow> rat list" where
  "latency_snapshot t model n =
     (case lt_latency t of
        None \<Rightarrow> []
      | Some m \<Rightarrow>
          map (\<lambda>i. case hm_get m (model, i) of None \<Rightarrow> 0 | Some l \<Rightarrow> l) [0..<n])"

definition begin_load :: "load_tracker \<Rightarrow> string \<Rightarrow> nat \<Rightarrow> instant \<Rightarrow> load_guard \<times> load_tracker" where
  "begin_load t model idx now =
     (case lt_inner t of
        None \<Rightarrow>
          (\<lparr>lg_inner = None, lg_latency = False, lg_predictor = False, lg_started = now,
            lg_record = False, lg_queue_depth = 0, lg_prompt_tokens = 0, lg_route_permit = None\<rparr>, t)
      | Some m \<Rightarrow>
          let key = (model, idx);
              queue_depth = count_of m key
          in (\<lparr>lg_inner = Some key,
               lg_latency = (lt_latency t \<noteq> None),
               lg_predictor =
                 (case lt_predictors t of None \<Rightarrow> False | Some ps \<Rightarrow> hm_get ps model \<noteq> None),
               lg_started = now, lg_record = False, lg_queue_depth = queue_depth,
               lg_prompt_tokens = 0, lg_route_permit = None\<rparr>,
              t\<lparr>lt_inner := Some (count_incr key m)\<rparr>))"

definition hold_route_permit :: "load_guard \<Rightarrow> route_key option \<Rightarrow> load_guard" where
  "hold_route_permit g permit = g\<lparr>lg_route_permit := permit\<rparr>"

definition mark_ok :: "load_guard \<Rightarrow> load_guard" where
  "mark_ok g = g\<lparr>lg_record := True\<rparr>"

definition set_prompt_tokens :: "load_guard \<Rightarrow> nat \<Rightarrow> load_guard" where
  "set_prompt_tokens g tokens = g\<lparr>lg_prompt_tokens := tokens\<rparr>"

definition ewma_fold :: "rat option \<Rightarrow> rat \<Rightarrow> rat" where
  "ewma_fold old sample =
     (case old of
        None \<Rightarrow> sample
      | Some e \<Rightarrow> f64 (e + f64 (LATENCY_EWMA_ALPHA * f64 (sample - e))))"

definition as_millis :: "duration \<Rightarrow> nat" where
  "as_millis d = d div 1000000"

definition guard_drop :: "load_guard \<Rightarrow> load_tracker \<Rightarrow> instant \<Rightarrow> load_tracker" where
  "guard_drop g t now =
     (case lg_inner g of
        None \<Rightarrow> t
      | Some key \<Rightarrow>
          let t = t\<lparr>lt_inner := map_option (count_decr key) (lt_inner t)\<rparr>
          in if lg_record g then
               let sample = f64 (of_nat (as_millis (now - lg_started g)));
                   t = (if lg_latency g
                        then t\<lparr>lt_latency :=
                               map_option (\<lambda>m. hm_insert key (ewma_fold (hm_get m key) sample) m)
                                 (lt_latency t)\<rparr>
                        else t)
               in if lg_predictor g then
                    t\<lparr>lt_predictors :=
                        map_option (\<lambda>ps.
                            case hm_get ps (fst key) of
                              None \<Rightarrow> ps
                            | Some p \<Rightarrow>
                                hm_insert (fst key)
                                  (predictor_observe p (snd key)
                                     \<lparr>ft_queue_depth = lg_queue_depth g,
                                      ft_prompt_tokens = lg_prompt_tokens g\<rparr> sample) ps)
                          (lt_predictors t)\<rparr>
                  else t
             else t)"

text \<open>The fields of a guard are dropped after its body: the route permit it holds is released.\<close>

definition guard_release_permit :: "load_guard \<Rightarrow> route_concurrency \<Rightarrow> route_concurrency" where
  "guard_release_permit g rc =
     (case lg_route_permit g of None \<Rightarrow> rc | Some key \<Rightarrow> permit_drop key rc)"

section \<open>The counts are the live guards\<close>

inductive load_reachable :: "load_tracker \<Rightarrow> load_guard multiset \<Rightarrow> bool" where
  load_start: "load_reachable tracker_new {#}"
| load_begin: "load_reachable t G \<Longrightarrow> begin_load t model idx now = (g, t') \<Longrightarrow>
    load_reachable t' (add_mset g G)"
| load_update: "load_reachable t (add_mset g G) \<Longrightarrow> lg_inner g' = lg_inner g \<Longrightarrow>
    load_reachable t (add_mset g' G)"
| load_predictor: "load_reachable t G \<Longrightarrow> load_reachable (snd (tracker_predictor t model n)) G"
| load_drop: "load_reachable t (add_mset g G) \<Longrightarrow> load_reachable (guard_drop g t now) G"

definition live_on :: "load_key \<Rightarrow> load_guard multiset \<Rightarrow> nat" where
  "live_on key G = size (filter_mset (\<lambda>g. lg_inner g = Some key) G)"

lemma live_on_empty [simp]: "live_on key {#} = 0"
  by (simp add: live_on_def)

lemma live_on_add [simp]:
  "live_on key (add_mset g G) = live_on key G + (if lg_inner g = Some key then 1 else 0)"
  by (simp add: live_on_def)

lemma guard_drop_inner:
  "lt_inner (guard_drop g t now) =
     (case lg_inner g of None \<Rightarrow> lt_inner t | Some key \<Rightarrow> map_option (count_decr key) (lt_inner t))"
  by (simp add: guard_drop_def Let_def split: option.splits)

lemma tracker_predictor_inner [simp]: "lt_inner (snd (tracker_predictor t model n)) = lt_inner t"
  by (simp add: tracker_predictor_def Let_def split: option.splits)

definition load_inv :: "load_tracker \<Rightarrow> load_guard multiset \<Rightarrow> bool" where
  "load_inv t G \<longleftrightarrow>
     (\<exists>m. lt_inner t = Some m \<and> count_positive m \<and> (\<forall>key. count_of m key = live_on key G)) \<and>
     (\<forall>g\<in>#G. lg_inner g \<noteq> None)"

lemma load_reachable_inv: "load_reachable t G \<Longrightarrow> load_inv t G"
proof (induction rule: load_reachable.induct)
  case load_start
  show ?case
    by (simp add: load_inv_def tracker_new_def count_positive_def)
next
  case (load_begin t G model idx now g t')
  then show ?case
    by (auto simp: load_inv_def begin_load_def Let_def count_positive_incr)
next
  case (load_update t g G g')
  then show ?case
    by (auto simp: load_inv_def)
next
  case (load_predictor t G model n)
  then show ?case
    by (simp add: load_inv_def)
next
  case (load_drop t g G now)
  then obtain m where m: "lt_inner t = Some m" "count_positive m"
    "\<forall>key. count_of m key = live_on key (add_mset g G)" "\<forall>g'\<in>#add_mset g G. lg_inner g' \<noteq> None"
    unfolding load_inv_def by blast
  then show ?case
    by (auto simp: load_inv_def guard_drop_inner count_positive_decr split: option.splits)
qed

lemma sum_counts:
  assumes "count_positive m" and "\<forall>key. count_of m key = live_on key G"
    and "\<forall>g\<in>#G. lg_inner g \<noteq> None"
  shows "sum_list (map snd m) = size G"
  using assms
proof (induction m arbitrary: G)
  case Nil
  show ?case
  proof (cases G)
    case (add g G')
    with Nil.prems(3) obtain key where "lg_inner g = Some key" by auto
    with add Nil.prems(2) [rule_format, of key] show ?thesis by simp
  qed simp
next
  case (Cons a m)
  obtain k v where a: "a = (k, v)" by (cases a)
  have fresh: "hm_get m k = None"
    using Cons.prems(1) by (auto simp: a count_positive_def hm_wf_def hm_get_def map_of_eq_None_iff)
  define G' where "G' = filter_mset (\<lambda>g. lg_inner g \<noteq> Some k) G"
  have "count_of m key = live_on key G'" for key
  proof (cases "key = k")
    case True
    then show ?thesis using fresh by (simp add: count_of_def live_on_def G'_def filter_filter_mset)
  next
    case False
    then have "filter_mset (\<lambda>g. lg_inner g = Some key) G' = filter_mset (\<lambda>g. lg_inner g = Some key) G"
      by (auto simp: G'_def filter_filter_mset intro: filter_mset_cong)
    moreover have "count_of (a # m) key = count_of m key"
      using False by (simp add: a count_of_def hm_get_Cons)
    ultimately show ?thesis
      using Cons.prems(2) by (metis live_on_def)
  qed
  moreover have "count_positive m"
    using Cons.prems(1) by (simp add: count_positive_def hm_wf_def)
  moreover have "\<forall>g\<in>#G'. lg_inner g \<noteq> None"
    using Cons.prems(3) by (simp add: G'_def)
  ultimately have "sum_list (map snd m) = size G'"
    by (intro Cons.IH) auto
  moreover have "v = live_on k G"
    using Cons.prems(2) [rule_format, of k] by (simp add: a count_of_def hm_get_Cons)
  moreover have "G = filter_mset (\<lambda>g. lg_inner g = Some k) G + G'"
    by (simp add: G'_def multiset_partition)
  ultimately show ?case
    by (simp add: a live_on_def) (metis size_union)
qed

text \<open>
  The load a balancer sees is exact and nothing leaks. In every state reachable by beginning,
  updating and dropping guards in any order, the snapshot of a route lists for each target the
  number of guards live on it, the total is the number of live guards, and when the last guard is
  gone the map is empty again.
\<close>

theorem in_flight_exact:
  assumes "load_reachable t G"
  shows "load_snapshot t model n = map (\<lambda>i. live_on (model, i) G) [0..<n] \<and>
    total_in_flight t = size G \<and> (G = {#} \<longrightarrow> lt_inner t = Some [])"
proof -
  from load_reachable_inv [OF assms] obtain m where m: "lt_inner t = Some m" "count_positive m"
    "\<forall>key. count_of m key = live_on key G" "\<forall>g\<in>#G. lg_inner g \<noteq> None"
    unfolding load_inv_def by blast
  then have "m = []" if "G = {#}"
    using that by (intro count_positive_empty) auto
  with m sum_counts [OF m(2-4)] show ?thesis
    by (simp add: load_snapshot_def total_in_flight_def)
qed

lemma in_flight_exact_witness:
  "load_snapshot (snd (begin_load tracker_new ''m'' 1 0)) ''m'' 2 = [0, 1]"
proof -
  have "load_reachable (snd (begin_load tracker_new ''m'' 1 0))
      (add_mset (fst (begin_load tracker_new ''m'' 1 0)) {#})"
    using load_begin [OF load_start] by (metis prod.collapse)
  from in_flight_exact [OF this, of "''m''" 2] show ?thesis
    by (simp add: begin_load_def tracker_new_def Let_def upt_rec)
qed

section \<open>The latency average\<close>

lemma alpha_value: "LATENCY_EWMA_ALPHA = 5404319552844595 / 18014398509481984"
  by code_simp

lemma f64_minus: "f64 (- x) = - f64 x"
  by (simp add: f64_def fl_minus)

lemma ewma_step_up:
  assumes "0 \<le> d"
  shows "0 \<le> f64 (LATENCY_EWMA_ALPHA * f64 d)" and "f64 (LATENCY_EWMA_ALPHA * f64 d) \<le> d"
proof -
  have d: "0 \<le> f64 d" "2 * f64 d \<le> 3 * d"
    using assms f64.rnd_nonneg f64.rnd_expand by auto
  have a: "0 \<le> LATENCY_EWMA_ALPHA * f64 d" "3 * (LATENCY_EWMA_ALPHA * f64 d) \<le> f64 d"
    using d(1) by (simp_all add: alpha_value)
  then show "0 \<le> f64 (LATENCY_EWMA_ALPHA * f64 d)"
    by (intro f64.rnd_nonneg)
  have "2 * f64 (LATENCY_EWMA_ALPHA * f64 d) \<le> 3 * (LATENCY_EWMA_ALPHA * f64 d)"
    using a(1) by (rule f64.rnd_expand)
  with a(2) d assms show "f64 (LATENCY_EWMA_ALPHA * f64 d) \<le> d"
    by linarith
qed

lemma ewma_between:
  assumes "representable 53 e" "representable 53 s"
  shows "min e s \<le> ewma_fold (Some e) s \<and> ewma_fold (Some e) s \<le> max e s \<and>
    representable 53 (ewma_fold (Some e) s)"
proof (cases "e \<le> s")
  case True
  then have "e \<le> e + f64 (LATENCY_EWMA_ALPHA * f64 (s - e))"
    "e + f64 (LATENCY_EWMA_ALPHA * f64 (s - e)) \<le> s"
    using ewma_step_up [of "s - e"] by auto
  with assms True show ?thesis
    using f64.rnd_between [of e s] f64.rnd_is_float by (simp add: ewma_fold_def)
next
  case False
  have "f64 (LATENCY_EWMA_ALPHA * f64 (s - e)) = - f64 (LATENCY_EWMA_ALPHA * f64 (e - s))"
    using f64_minus [of "e - s"] f64_minus [of "LATENCY_EWMA_ALPHA * f64 (e - s)"] by simp
  moreover have "0 \<le> e - s" using False by simp
  ultimately have "s \<le> e + f64 (LATENCY_EWMA_ALPHA * f64 (s - e))"
    "e + f64 (LATENCY_EWMA_ALPHA * f64 (s - e)) \<le> e"
    using ewma_step_up [of "e - s"] by linarith+
  with assms False show ?thesis
    using f64.rnd_between [of s e] f64.rnd_is_float by (simp add: ewma_fold_def)
qed

definition ewma_history :: "rat list \<Rightarrow> rat option" where
  "ewma_history samples = foldl (\<lambda>old s. Some (ewma_fold old s)) None samples"

lemma ewma_history_inv:
  assumes "\<forall>s\<in>set samples. representable 53 s \<and> lo \<le> s \<and> s \<le> hi" and "samples \<noteq> []"
  shows "\<exists>e. ewma_history samples = Some e \<and> representable 53 e \<and> lo \<le> e \<and> e \<le> hi"
  using assms
proof (induction samples rule: rev_induct)
  case (snoc s samples)
  show ?case
  proof (cases "samples = []")
    case True
    with snoc.prems show ?thesis by (simp add: ewma_history_def ewma_fold_def)
  next
    case False
    with snoc obtain e where e: "ewma_history samples = Some e" "representable 53 e" "lo \<le> e" "e \<le> hi"
      by auto
    have "ewma_history (samples @ [s]) = Some (ewma_fold (Some e) s)"
      using e(1) by (simp add: ewma_history_def)
    moreover have "lo \<le> min e s" "max e s \<le> hi" "representable 53 s"
      using snoc.prems e by auto
    ultimately show ?thesis
      using ewma_between [OF e(2), of s] by (metis order_trans)
  qed
qed simp

text \<open>
  The smoothed latency of a target never leaves the range of the samples it was made of, in
  \<open>f64\<close> arithmetic with its rounding: after any non-empty sequence of samples between \<open>lo\<close> and \<open>hi\<close>
  the average exists and lies between \<open>lo\<close> and \<open>hi\<close>.
\<close>

theorem ewma_within_samples:
  assumes "samples \<noteq> []" and "\<forall>ms\<in>set samples. lo \<le> f64 (of_nat ms) \<and> f64 (of_nat ms) \<le> hi"
  shows "\<exists>e. ewma_history (map (\<lambda>ms. f64 (of_nat ms)) samples) = Some e \<and> lo \<le> e \<and> e \<le> hi"
  using ewma_history_inv [of "map (\<lambda>ms. f64 (of_nat ms)) samples" lo hi] assms f64.rnd_is_float
  by auto

lemma ewma_within_samples_witness:
  "\<exists>e. ewma_history (map (\<lambda>ms. f64 (of_nat ms)) [120, 80]) = Some e \<and> 80 \<le> e \<and> e \<le> 120"
  using ewma_within_samples [of "[120, 80]" 80 120] f64.rnd_of_nat [of 80] f64.rnd_of_nat [of 120]
  by simp

end
