(* ===== verification/Usable.thy ===== *)
theory Usable
  imports Prelude
begin

unbundle bit_operations_syntax

text \<open>
  The set of targets one pick may choose from, \<open>Usable\<close> of \<open>rolter-balancer/src/lib.rs\<close>: a word for
  routes of up to 64 targets and a vector beyond. Both representations are shown to be the list of
  usable indices in increasing order.
\<close>

section \<open>Operations\<close>

datatype usable = UWord "64 word" | UWide "bool list"

definition usable_ask :: "nat \<Rightarrow> (nat \<Rightarrow> bool) \<Rightarrow> usable" where
  "usable_ask n eligible =
     (if n \<le> 64 then
        let word = foldl (\<lambda>w i. w OR push_bit i 1) 0 (filter eligible [0..<n]);
            word = (if word = 0 then drop_bit (64 - n) (- 1) else word)
        in UWord word
      else
        let msk = map eligible [0..<n];
            msk = (if True \<notin> set msk then map (\<lambda>_. True) msk else msk)
        in UWide msk)"

definition usable_contains :: "usable \<Rightarrow> nat \<Rightarrow> bool" where
  "usable_contains u i =
     (case u of
        UWord word \<Rightarrow> i < 64 \<and> word AND push_bit i 1 \<noteq> 0
      | UWide msk \<Rightarrow> (case vec_get msk i of None \<Rightarrow> False | Some b \<Rightarrow> b))"

definition count_ones :: "64 word \<Rightarrow> nat" where
  "count_ones w = length (filter (bit w) [0..<64])"

definition trailing_zeros :: "64 word \<Rightarrow> nat" where
  "trailing_zeros w = (case find_index_below 64 (bit w) of None \<Rightarrow> 64 | Some i \<Rightarrow> i)"

definition usable_count :: "usable \<Rightarrow> nat" where
  "usable_count u =
     (case u of UWord word \<Rightarrow> count_ones word | UWide msk \<Rightarrow> length (filter (\<lambda>b. b) msk))"

definition clear_lowest :: "64 word \<Rightarrow> 64 word" where
  "clear_lowest w = w AND (w - 1)"

definition usable_nth :: "usable \<Rightarrow> nat \<Rightarrow> nat option" where
  "usable_nth u rank =
     (case u of
        UWord word \<Rightarrow>
          let rest = (clear_lowest ^^ rank) word
          in if rest \<noteq> 0 then Some (trailing_zeros rest) else None
      | UWide msk \<Rightarrow> vec_get (filter (\<lambda>i. msk ! i) [0..<length msk]) rank)"

section \<open>Clearing the lowest bit\<close>

lemma bit_clear_lowest_nat:
  "bit (x AND (x - 1)) j \<longleftrightarrow> bit x j \<and> (\<exists>i<j. bit x i)" for x :: nat
proof (induction j arbitrary: x)
  case 0
  show ?case
    by (cases "odd x") (auto simp: bit_0 even_and_iff)
next
  case (Suc j)
  show ?case
  proof (cases "x = 0")
    case False
    have ex: "(\<exists>i<Suc j. bit x i) \<longleftrightarrow> odd x \<or> (\<exists>i<j. bit (x div 2) i)"
      by (auto simp: less_Suc_eq_0_disj bit_0 bit_Suc)
    show ?thesis
    proof (cases "odd x")
      case True
      then have "(x - 1) div 2 = x div 2" by (elim oddE) simp
      with True ex show ?thesis
        unfolding bit_and_iff by (simp add: bit_Suc)
    next
      case False
      then obtain y where "x = 2 * y" by (auto elim: evenE)
      with \<open>x \<noteq> 0\<close> have "(x - 1) div 2 = x div 2 - 1"
        by (cases y) simp_all
      then have "bit (x AND (x - 1)) (Suc j) \<longleftrightarrow> bit (x div 2 AND (x div 2 - 1)) j"
        unfolding bit_and_iff by (simp add: bit_Suc)
      with Suc.IH [of "x div 2"] ex False show ?thesis
        by (simp add: bit_Suc)
    qed
  qed simp
qed

lemma bit_clear_lowest: "bit (clear_lowest w) j \<longleftrightarrow> bit w j \<and> (\<exists>i<j. bit w i)"
proof (cases "w = 0")
  case False
  then have "unat (w - 1) = unat w - 1"
    by (simp add: unat_minus_one)
  then have "unat (clear_lowest w) = unat w AND (unat w - 1)"
    by (simp add: clear_lowest_def unsigned_and_eq)
  moreover have "bit (unat v) k = bit v k" for v :: "64 word" and k
    by (simp add: bit_unsigned_iff)
  ultimately show ?thesis
    by (metis bit_clear_lowest_nat)
qed (simp add: clear_lowest_def)

definition below :: "64 word \<Rightarrow> nat \<Rightarrow> nat" where
  "below w j = card {i. i < j \<and> bit w i}"

lemma below_Suc: "below w (Suc j) = below w j + (if bit w j then 1 else 0)"
proof -
  have "{i. i < Suc j \<and> bit w i} = (if bit w j then insert j {i. i < j \<and> bit w i} else {i. i < j \<and> bit w i})"
    by (auto simp: less_Suc_eq)
  then show ?thesis by (simp add: below_def)
qed

lemma below_mono: "i \<le> j \<Longrightarrow> below w i \<le> below w j"
  unfolding below_def by (rule card_mono) auto

lemma bit_clear_lowest_pow: "bit ((clear_lowest ^^ k) w) j \<longleftrightarrow> bit w j \<and> k \<le> below w j"
proof (induction k arbitrary: j)
  case (Suc k)
  have "(\<exists>i<j. bit w i \<and> k \<le> below w i) \<longleftrightarrow> Suc k \<le> below w j"
  proof
    assume "\<exists>i<j. bit w i \<and> k \<le> below w i"
    then obtain i where "i < j" "bit w i" "k \<le> below w i" by blast
    then have "Suc k \<le> below w (Suc i)" by (simp add: below_Suc)
    also have "\<dots> \<le> below w j" using \<open>i < j\<close> by (intro below_mono) simp
    finally show "Suc k \<le> below w j" .
  next
    assume "Suc k \<le> below w j"
    then show "\<exists>i<j. bit w i \<and> k \<le> below w i"
    proof (induction j)
      case 0
      then show ?case by (simp add: below_def)
    next
      case (Suc j)
      then show ?case
        by (cases "Suc k \<le> below w j") (auto simp: below_Suc less_Suc_eq split: if_splits)
    qed
  qed
  moreover have "k \<le> below w j" if "Suc k \<le> below w j"
    using that by simp
  ultimately show ?case
    unfolding funpow.simps o_apply bit_clear_lowest Suc.IH by blast
qed simp

section \<open>Both representations are the list of usable indices\<close>

lemma nth_filter_upt:
  "vec_get (filter P [0..<n]) k = Some j \<longleftrightarrow> j < n \<and> P j \<and> card {i. i < j \<and> P i} = k"
proof (induction n)
  case (Suc n)
  have len: "length (filter P [0..<n]) = card {i. i < n \<and> P i}"
    by (simp add: length_filter_conv_card)
      (rule arg_cong [of _ _ card], auto)
  show ?case
  proof (cases "P n")
    case False
    with Suc show ?thesis by (auto simp: less_Suc_eq)
  next
    case True
    define c where "c = card {i. i < n \<and> P i}"
    define d where "d = card {i. i < j \<and> P i}"
    have vg: "vec_get (filter P [0..<Suc n]) k =
        (if k < c then vec_get (filter P [0..<n]) k else if k = c then Some n else None)"
      using True len by (auto simp: vec_get_def nth_append c_def)
    have lt: "d < c" if "j < n" "P j"
    proof -
      have "{i. i < j \<and> P i} \<subset> {i. i < n \<and> P i}" using that by auto
      then show ?thesis unfolding c_def d_def by (rule psubset_card_mono [rotated]) simp
    qed
    have R: "j < Suc n \<and> P j \<and> d = k \<longleftrightarrow> (j < n \<and> P j \<and> d = k) \<or> (j = n \<and> c = k)"
      using True by (auto simp: c_def d_def less_Suc_eq)
    have IH: "vec_get (filter P [0..<n]) k = Some j \<longleftrightarrow> j < n \<and> P j \<and> d = k"
      using Suc by (simp add: d_def)
    show ?thesis
      unfolding vg d_def [symmetric] R using IH lt by auto
  qed
qed simp

definition usable_size :: "usable \<Rightarrow> nat" where
  "usable_size u = (case u of UWord _ \<Rightarrow> 64 | UWide msk \<Rightarrow> length msk)"

definition usable_list :: "usable \<Rightarrow> nat list" where
  "usable_list u = filter (usable_contains u) [0..<usable_size u]"

lemma usable_contains_word: "usable_contains (UWord w) i \<longleftrightarrow> bit w i"
  by (auto simp: usable_contains_def push_bit_eq_mult and_exp_eq_0_iff_not_bit
      dest: bit_imp_le_length)

lemma trailing_zeros_eq:
  assumes "w \<noteq> 0"
  shows "trailing_zeros w = j \<longleftrightarrow> bit w j \<and> (\<forall>i<j. \<not> bit w i)"
proof -
  from assms obtain k where "bit w k" "k < 64"
    using bit_eq_iff [of w 0] bit_imp_le_length [where 'a = 64] by fastforce
  then obtain i where i: "find_index_below 64 (bit w) = Some i"
    by (metis find_index_below_None not_Some_eq)
  then have "bit w i" "\<forall>j<i. \<not> bit w j"
    by (simp_all add: find_index_below_Some)
  then show ?thesis
    using i by (auto simp: trailing_zeros_def) (metis linorder_neqE_nat)
qed

lemma usable_nth_word: "usable_nth (UWord w) rank = vec_get (usable_list (UWord w)) rank"
proof -
  define rest where "rest = (clear_lowest ^^ rank) w"
  have list: "vec_get (usable_list (UWord w)) rank = Some j \<longleftrightarrow> bit w j \<and> below w j = rank" for j
    by (auto simp: usable_list_def usable_size_def nth_filter_upt usable_contains_word below_def
        dest: bit_imp_le_length)
  have low: "bit rest j \<and> (\<forall>i<j. \<not> bit rest i) \<longleftrightarrow> bit w j \<and> below w j = rank" for j
  proof
    assume *: "bit rest j \<and> (\<forall>i<j. \<not> bit rest i)"
    then have "bit w j" "rank \<le> below w j" by (auto simp: rest_def bit_clear_lowest_pow)
    moreover have "\<not> Suc rank \<le> below w j"
    proof
      assume "Suc rank \<le> below w j"
      then have "bit ((clear_lowest ^^ Suc rank) w) j"
        using \<open>bit w j\<close> unfolding bit_clear_lowest_pow by simp
      then have "\<exists>i<j. bit rest i"
        by (simp add: rest_def bit_clear_lowest)
      with * show False by blast
    qed
    ultimately show "bit w j \<and> below w j = rank" by simp
  next
    assume *: "bit w j \<and> below w j = rank"
    have "\<not> bit rest i" if "i < j" for i
    proof
      assume "bit rest i"
      then have "bit w i" "rank \<le> below w i" by (auto simp: rest_def bit_clear_lowest_pow)
      then have "Suc rank \<le> below w (Suc i)" by (simp add: below_Suc)
      also have "\<dots> \<le> below w j" using that by (intro below_mono) simp
      finally show False using * by simp
    qed
    with * show "bit rest j \<and> (\<forall>i<j. \<not> bit rest i)"
      by (simp add: rest_def bit_clear_lowest_pow)
  qed
  show ?thesis
  proof (cases "rest = 0")
    case True
    then have "vec_get (usable_list (UWord w)) rank \<noteq> Some j" for j
      using list [of j] low [of j] by simp
    with True show ?thesis
      by (simp add: usable_nth_def rest_def [symmetric]) (metis not_Some_eq vec_get_eq_None)
  next
    case False
    then have "bit w (trailing_zeros rest) \<and> below w (trailing_zeros rest) = rank"
      using trailing_zeros_eq [OF False, of "trailing_zeros rest"] low by simp
    then have "vec_get (usable_list (UWord w)) rank = Some (trailing_zeros rest)"
      unfolding list .
    with False show ?thesis
      by (simp only: usable_nth_def usable.case Let_def rest_def [symmetric] simp_thms if_True)
  qed
qed

lemma usable_list_wide: "usable_list (UWide msk) = filter (\<lambda>i. msk ! i) [0..<length msk]"
  unfolding usable_list_def usable_size_def usable.case
  by (rule filter_cong) (auto simp: usable_contains_def)

lemma usable_nth_wide: "usable_nth (UWide msk) rank = vec_get (usable_list (UWide msk)) rank"
  by (simp add: usable_nth_def usable_list_wide)

lemma usable_nth_list: "usable_nth u rank = vec_get (usable_list u) rank"
  by (cases u) (simp_all add: usable_nth_word usable_nth_wide)

lemma usable_count_list: "usable_count u = length (usable_list u)"
proof (cases u)
  case (UWord w)
  have "filter (usable_contains u) [0..<64] = filter (bit w) [0..<64]"
    by (rule filter_cong) (simp_all add: UWord usable_contains_word)
  then show ?thesis
    by (simp add: UWord usable_count_def count_ones_def usable_list_def usable_size_def)
next
  case (UWide msk)
  have "length (filter (\<lambda>b. b) msk) = length (filter (\<lambda>i. msk ! i) [0..<length msk])"
    by (simp add: length_filter_conv_card) (rule arg_cong [of _ _ card], auto)
  then show ?thesis
    by (simp add: UWide usable_count_def usable_list_wide)
qed

section \<open>What the caller's answers become\<close>

lemma bit_foldl_or:
  "\<forall>i\<in>set is. i < 64 \<Longrightarrow> bit (foldl (\<lambda>w i. w OR push_bit i 1) (w :: 64 word) is) j \<longleftrightarrow> bit w j \<or> j \<in> set is"
  by (induction "is" arbitrary: w) (auto simp: bit_simps simp del: push_bit_of_1)

lemma usable_contains_ask:
  assumes "0 < n"
  shows "usable_contains (usable_ask n eligible) i \<longleftrightarrow>
    i < n \<and> (eligible i \<or> (\<forall>j<n. \<not> eligible j))"
proof (cases "n \<le> 64")
  case True
  define w where "w = foldl (\<lambda>w i. w OR push_bit i 1) (0 :: 64 word) (filter eligible [0..<n])"
  have bw: "bit w j \<longleftrightarrow> j < n \<and> eligible j" for j
    unfolding w_def using True by (subst bit_foldl_or) auto
  then have w0: "w = 0 \<longleftrightarrow> (\<forall>j<n. \<not> eligible j)"
    by (metis bit_0_eq bit_eq_iff bot_apply bot_bool_def)
  have full: "bit (drop_bit (64 - n) (- 1 :: 64 word)) j \<longleftrightarrow> j < n" for j
    using True assms by (auto simp: bit_simps)
  have "usable_ask n eligible = UWord (if w = 0 then drop_bit (64 - n) (- 1) else w)"
    unfolding usable_ask_def w_def Let_def using True by simp
  then show ?thesis
    using bw w0 full by (auto simp: usable_contains_word)
next
  case False
  then show ?thesis
    by (auto simp: usable_ask_def usable_contains_def Let_def vec_get_def image_iff Ball_def)
qed

definition usable_targets :: "nat \<Rightarrow> (nat \<Rightarrow> bool) \<Rightarrow> nat list" where
  "usable_targets n eligible =
     (if \<exists>j<n. eligible j then filter eligible [0..<n] else [0..<n])"

lemma usable_list_ask:
  assumes "0 < n"
  shows "usable_list (usable_ask n eligible) = usable_targets n eligible"
proof -
  define m where "m = usable_size (usable_ask n eligible)"
  have "n \<le> m"
    by (auto simp: m_def usable_ask_def usable_size_def Let_def)
  then have split: "[0..<m] = [0..<n] @ [n..<m]"
    using upt_add_eq_append [of 0 n "m - n"] by simp
  have "filter (usable_contains (usable_ask n eligible)) [n..<m] = []"
    using usable_contains_ask [OF assms] by (auto simp: filter_empty_conv)
  moreover have "filter (usable_contains (usable_ask n eligible)) [0..<n] =
      (if \<exists>j<n. eligible j then filter eligible [0..<n] else [0..<n])"
  proof (cases "\<exists>j<n. eligible j")
    case True
    then have "usable_contains (usable_ask n eligible) i = eligible i" if "i \<in> set [0..<n]" for i
      using usable_contains_ask [OF assms, of eligible i] that by auto
    then have "filter (usable_contains (usable_ask n eligible)) [0..<n] = filter eligible [0..<n]"
      by (rule filter_cong [OF refl])
    with True show ?thesis by (simp only: if_True simp_thms)
  next
    case False
    then have "\<forall>i\<in>set [0..<n]. usable_contains (usable_ask n eligible) i"
      using usable_contains_ask [OF assms, of eligible] by auto
    with False show ?thesis
      by (simp only: filter_id_conv if_False)
  qed
  ultimately show ?thesis
    by (simp add: usable_list_def m_def [symmetric] split usable_targets_def)
qed

text \<open>
  The set of usable targets, in the word representation and in the wide one alike: its members
  are the targets the caller called eligible, or all of them when it called none so; the count is
  how many they are; and the \<open>rank\<close>-th of them, counting from zero in increasing order, is what a
  rank selects, so that a uniform rank is a uniform choice among them.
\<close>

theorem usable_exact:
  assumes "0 < n"
  shows "(usable_contains (usable_ask n eligible) i \<longleftrightarrow> i \<in> set (usable_targets n eligible)) \<and>
    usable_count (usable_ask n eligible) = length (usable_targets n eligible) \<and>
    usable_nth (usable_ask n eligible) rank =
      (if rank < length (usable_targets n eligible) then Some (usable_targets n eligible ! rank) else None)"
  using usable_list_ask [OF assms(1), of eligible] usable_contains_ask [OF assms(1), of eligible i]
  by (auto simp: usable_count_list usable_nth_list usable_targets_def vec_get_def)

lemma usable_exact_witness:
  "usable_nth (usable_ask 5 (\<lambda>i. i = 1 \<or> i = 4)) 1 = Some 4 \<and> usable_count (usable_ask 100 (\<lambda>_. False)) = 100"
proof -
  have ex: "\<exists>j<5. j = 1 \<or> j = (4 :: nat)" by (rule exI [of _ 1]) simp
  have "filter (\<lambda>i. i = 1 \<or> i = 4) [0..<5] = [1, 4 :: nat]" by code_simp
  with ex show ?thesis
    using usable_exact [of 5 "\<lambda>i. i = 1 \<or> i = 4" 0 1] usable_exact [of 100 "\<lambda>_. False" 0 0]
    by (simp add: usable_targets_def)
qed

end
