(* ===== verification/Trie.thy ===== *)
theory Trie
  imports Strings
begin

text \<open>
  The byte trie behind prefix affinity, \<open>rolter-balancer/src/trie.rs\<close>: a reference-counted prefix
  tree with a node cap and least-recently-inserted eviction. The children of a node are a hash map;
  reference counts and stamps are naturals. The invariant ties the tree to the set of resident keys
  (\<open>node_ok\<close>): a child exists exactly when a resident key passes through it, its count is how many do.
\<close>

section \<open>Nodes\<close>

datatype trie_node = Node (children: "(char \<times> trie_node) list") (terminal: bool) (refs: nat)

definition node_default :: trie_node where
  "node_default = Node [] False 0"

fun set_refs :: "nat \<Rightarrow> trie_node \<Rightarrow> trie_node" where
  "set_refs r (Node cs t _) = Node cs t r"

fun count_nodes :: "trie_node \<Rightarrow> nat" where
  "count_nodes (Node cs t r) = 1 + sum_list (map (\<lambda>(_, c). count_nodes c) cs)"

text \<open>The walk of \<open>insert_path\<close>: the count of a node is raised as the walk enters it.\<close>

fun insert_path :: "trie_node \<Rightarrow> string \<Rightarrow> nat \<times> trie_node" where
  "insert_path (Node cs t r) [] = (0, Node cs True r)"
| "insert_path (Node cs t r) (b # bs) =
     (let (fresh, child) =
            (case hm_get cs b of Some c \<Rightarrow> (0, c) | None \<Rightarrow> (1, node_default));
          (created, child') = insert_path (set_refs (refs child + 1) child) bs
      in (fresh + created, Node (hm_insert b child' cs) t r))"

fun remove_path :: "trie_node \<Rightarrow> string \<Rightarrow> nat \<times> trie_node" where
  "remove_path (Node cs t r) [] = (0, Node cs False r)"
| "remove_path (Node cs t r) (b # rest) =
     (case hm_get cs b of
        None \<Rightarrow> (0, Node cs t r)
      | Some c \<Rightarrow>
          let child = set_refs (refs c - 1) c
          in if refs child = 0 then (count_nodes child, Node (hm_remove b cs) t r)
             else
               let (removed, child') = remove_path child rest
               in (removed, Node (hm_insert b child' cs) t r))"

fun node_longest_prefix :: "trie_node \<Rightarrow> string \<Rightarrow> nat" where
  "node_longest_prefix n [] = 0"
| "node_longest_prefix n (b # s) =
     (case hm_get (children n) b of None \<Rightarrow> 0 | Some next \<Rightarrow> 1 + node_longest_prefix next s)"

section \<open>The trie\<close>

record trie =
  tr_root :: trie_node
  tr_nodes :: nat
  tr_max_nodes :: nat
  tr_seq :: nat
  tr_keys :: "(string, nat) hash_map"
  tr_order :: "(string \<times> nat) list"
  tr_evictions :: nat

definition trie_with_capacity :: "nat \<Rightarrow> trie" where
  "trie_with_capacity max_nodes =
     \<lparr>tr_root = node_default, tr_nodes = 0, tr_max_nodes = max_nodes, tr_seq = 0, tr_keys = [],
      tr_order = [], tr_evictions = 0\<rparr>"

definition touch :: "trie \<Rightarrow> string \<Rightarrow> trie" where
  "touch t s =
     (let t = t\<lparr>tr_seq := tr_seq t + 1\<rparr>
      in case hm_get (tr_keys t) s of
           None \<Rightarrow> t
         | Some _ \<Rightarrow>
             t\<lparr>tr_keys := hm_insert s (tr_seq t) (tr_keys t),
               tr_order := tr_order t @ [(s, tr_seq t)]\<rparr>)"

text \<open>Popping the access log: stale entries are skipped, the first live one is returned.\<close>

fun pop_live ::
  "(string, nat) hash_map \<Rightarrow> (string \<times> nat) list \<Rightarrow> (string \<times> nat) option \<times> (string \<times> nat) list"
where
  "pop_live keys [] = (None, [])"
| "pop_live keys ((key, stamp) # rest) =
     (if hm_get keys key = Some stamp then (Some (key, stamp), rest) else pop_live keys rest)"

definition evict_one :: "trie \<Rightarrow> bool \<times> trie" where
  "evict_one t =
     (case pop_live (tr_keys t) (tr_order t) of
        (None, order) \<Rightarrow> (False, t\<lparr>tr_order := order\<rparr>)
      | (Some (key, _), order) \<Rightarrow>
          let (removed, root) = remove_path (tr_root t) key
          in (True,
              t\<lparr>tr_order := order, tr_keys := hm_remove key (tr_keys t), tr_root := root,
                tr_nodes := tr_nodes t - removed, tr_evictions := tr_evictions t + 1\<rparr>))"

lemma pop_live_length: "pop_live keys order = (Some e, rest) \<Longrightarrow> length rest < length order"
  by (induction keys order rule: pop_live.induct) (auto split: if_splits)

lemma evict_one_shrinks: "evict_one t = (True, t') \<Longrightarrow> length (tr_order t') < length (tr_order t)"
  by (auto simp: evict_one_def Let_def dest: pop_live_length split: prod.splits option.splits)

function evict_while :: "trie \<Rightarrow> trie" where
  "evict_while t =
     (if tr_max_nodes t < tr_nodes t then
        (case evict_one t of (True, t') \<Rightarrow> evict_while t' | (False, t') \<Rightarrow> t')
      else t)"
  by auto
termination
  by (relation "measure (\<lambda>t. length (tr_order t))") (auto dest: evict_one_shrinks [OF sym])

definition evict_to_capacity :: "trie \<Rightarrow> trie" where
  "evict_to_capacity t = (if tr_max_nodes t = 0 then t else evict_while t)"

definition trie_insert :: "trie \<Rightarrow> string \<Rightarrow> trie" where
  "trie_insert t s =
     (if hm_get (tr_keys t) s \<noteq> None then touch t s
      else
        let (created, root) = insert_path (tr_root t) s;
            seq = tr_seq t + 1
        in evict_to_capacity
             (t\<lparr>tr_root := root, tr_nodes := tr_nodes t + created, tr_seq := seq,
                tr_keys := hm_insert s seq (tr_keys t), tr_order := tr_order t @ [(s, seq)]\<rparr>))"

definition longest_prefix :: "trie \<Rightarrow> string \<Rightarrow> nat" where
  "longest_prefix t s = node_longest_prefix (tr_root t) s"

definition trie_len :: "trie \<Rightarrow> nat" where
  "trie_len t = tr_nodes t"

definition trie_is_empty :: "trie \<Rightarrow> bool" where
  "trie_is_empty t = (tr_nodes t = 0)"

section \<open>Nodes and the keys that pass through them\<close>

definition sub :: "char \<Rightarrow> string set \<Rightarrow> string set" where
  "sub b K = {s. b # s \<in> K}"

inductive node_ok :: "trie_node \<Rightarrow> string set \<Rightarrow> bool" where
  node_okI: "finite K \<Longrightarrow> hm_wf cs \<Longrightarrow> t = ([] \<in> K) \<Longrightarrow>
    (\<And>b. hm_get cs b = None \<Longrightarrow> sub b K = {}) \<Longrightarrow>
    (\<And>b c. hm_get cs b = Some c \<Longrightarrow> sub b K \<noteq> {}) \<Longrightarrow>
    (\<And>b c. hm_get cs b = Some c \<Longrightarrow> refs c = card (sub b K)) \<Longrightarrow>
    (\<And>b c. hm_get cs b = Some c \<Longrightarrow> node_ok c (sub b K)) \<Longrightarrow>
    node_ok (Node cs t r) K"

inductive_cases node_okE: "node_ok (Node cs t r) K"

definition child_ok :: "trie_node option \<Rightarrow> string set \<Rightarrow> bool" where
  "child_ok c K =
     (case c of None \<Rightarrow> K = {} | Some n \<Rightarrow> K \<noteq> {} \<and> refs n = card K \<and> node_ok n K)"

lemma child_ok_simps [simp]:
  "child_ok None K \<longleftrightarrow> K = {}"
  "child_ok (Some n) K \<longleftrightarrow> K \<noteq> {} \<and> refs n = card K \<and> node_ok n K"
  by (simp_all add: child_ok_def)

lemma node_ok_iff:
  "node_ok (Node cs t r) K \<longleftrightarrow>
     finite K \<and> hm_wf cs \<and> t = ([] \<in> K) \<and> (\<forall>b. child_ok (hm_get cs b) (sub b K))"
  (is "?L \<longleftrightarrow> ?R")
proof
  assume ?L
  then show ?R by (rule node_okE) (auto simp: child_ok_def split: option.splits)
next
  assume R: ?R
  have at: "child_ok (hm_get cs b) (sub b K)" for b
    using R by blast
  show ?L
  proof (rule node_okI)
    show "finite K" "hm_wf cs" "t = ([] \<in> K)" using R by blast+
    show "sub b K = {}" if "hm_get cs b = None" for b using at [of b] that by simp
    show "sub b K \<noteq> {}" "refs c = card (sub b K)" "node_ok c (sub b K)"
      if "hm_get cs b = Some c" for b c using at [of b] that by simp_all
  qed
qed

lemma sub_insert: "sub b (insert (c # s) K) = (if b = c then insert s (sub b K) else sub b K)"
  by (auto simp: sub_def)

lemma sub_insert_Nil [simp]: "sub b (insert [] K) = sub b K"
  by (auto simp: sub_def)

lemma sub_remove: "sub b (K - {c # s}) = (if b = c then sub b K - {s} else sub b K)"
  by (auto simp: sub_def)

lemma sub_remove_Nil [simp]: "sub b (K - {[]}) = sub b K"
  by (auto simp: sub_def)

lemma sub_empty [simp]: "sub b {} = {}"
  by (simp add: sub_def)

lemma finite_sub: "finite K \<Longrightarrow> finite (sub b K)"
  by (rule finite_subset [of _ "tl ` K"]) (force simp: sub_def)+

lemma node_ok_finite: "node_ok n K \<Longrightarrow> finite K"
  by (auto elim: node_ok.cases)

lemma node_ok_default: "node_ok node_default {}"
  by (simp add: node_default_def node_ok_iff)

lemma node_ok_refs_irrelevant: "node_ok (set_refs r n) K \<longleftrightarrow> node_ok n K"
  by (cases n) (simp add: node_ok_iff)

lemma refs_set_refs [simp]: "refs (set_refs r n) = r"
  by (cases n) simp

lemma count_set_refs [simp]: "count_nodes (set_refs r n) = count_nodes n"
  by (cases n) simp

lemma insert_path_refs [simp]: "refs (snd (insert_path n bs)) = refs n"
  by (cases n; cases bs) (simp_all add: Let_def split: prod.splits)

lemma remove_path_refs [simp]: "refs (snd (remove_path n bs)) = refs n"
  by (cases n; cases bs) (simp_all add: Let_def split: prod.splits option.splits)

lemma node_ok_replace:
  assumes "node_ok (Node cs t r) K" and "node_ok c (sub b K')" and "refs c = card (sub b K')"
    and "sub b K' \<noteq> {}" and "finite K'" and "\<And>x. x \<noteq> b \<Longrightarrow> sub x K' = sub x K"
    and "([] \<in> K') = ([] \<in> K)"
  shows "node_ok (Node (hm_insert b c cs) t r) K'"
  using assms by (auto simp: node_ok_iff hm.wf_put)

lemma node_ok_insert:
  "node_ok n K \<Longrightarrow> bs \<notin> K \<Longrightarrow> node_ok (snd (insert_path n bs)) (insert bs K)"
proof (induction n bs arbitrary: K rule: insert_path.induct)
  case (1 cs t r)
  then show ?case
    by (simp add: node_ok_iff)
next
  case (2 cs t r b bs)
  define child where "child = (case hm_get cs b of Some c \<Rightarrow> c | None \<Rightarrow> node_default)"
  have fresh: "bs \<notin> sub b K"
    using 2(3) by (simp add: sub_def)
  have "child_ok (hm_get cs b) (sub b K)"
    using 2(2) unfolding node_ok_iff by blast
  then have child: "node_ok child (sub b K)" "refs child = card (sub b K)"
    by (auto simp: child_def node_ok_default split: option.splits) (simp add: node_default_def)
  define child' where "child' = snd (insert_path (set_refs (refs child + 1) child) bs)"
  have IH: "node_ok child' (insert bs (sub b K))"
    unfolding child'_def
    using "2.IH" [of "(if hm_get cs b = None then 1 else 0, child)" _ child "sub b K"] child(1) fresh
    by (auto simp: child_def node_ok_refs_irrelevant split: option.splits)
  have refs': "refs child' = card (insert bs (sub b K))"
    using child(2) fresh finite_sub [OF node_ok_finite [OF 2(2)], of b] by (simp add: child'_def)
  have "node_ok (Node (hm_insert b child' cs) t r) (insert (b # bs) K)"
    by (rule node_ok_replace [OF 2(2)])
      (use IH refs' node_ok_finite [OF 2(2)] in \<open>auto simp: sub_insert\<close>)
  then show ?case
    by (simp add: Let_def child'_def child_def case_prod_unfold split: option.splits)
qed

lemma node_ok_remove:
  "node_ok n K \<Longrightarrow> bs \<in> K \<Longrightarrow> node_ok (snd (remove_path n bs)) (K - {bs})"
proof (induction n bs arbitrary: K rule: remove_path.induct)
  case (1 cs t r)
  then show ?case
    by (simp add: node_ok_iff)
next
  case (2 cs t r b rest)
  have mem: "rest \<in> sub b K"
    using 2(3) by (simp add: sub_def)
  have "child_ok (hm_get cs b) (sub b K)"
    using 2(2) unfolding node_ok_iff by blast
  with mem obtain c where c: "hm_get cs b = Some c" "refs c = card (sub b K)" "node_ok c (sub b K)"
    by (cases "hm_get cs b") auto
  have fin: "finite (sub b K)"
    by (rule finite_sub [OF node_ok_finite [OF 2(2)]])
  have card: "card (sub b K - {rest}) = card (sub b K) - 1"
    using mem fin by simp
  show ?case
  proof (cases "card (sub b K) - 1 = 0")
    case True
    with card fin have "sub b K - {rest} = {}"
      by simp
    then have "node_ok (Node (hm_remove b cs) t r) (K - {b # rest})"
      using 2(2) by (auto simp: node_ok_iff hm.wf_del sub_remove)
    with True c show ?thesis
      by (simp add: Let_def)
  next
    case False
    define child' where "child' = snd (remove_path (set_refs (refs c - 1) c) rest)"
    have ne: "sub b K - {rest} \<noteq> {}"
      using False card by (metis card.empty)
    have "node_ok child' (sub b K - {rest})"
      unfolding child'_def
      using "2.IH" [OF c(1) refl, of "sub b K"] False c mem by (simp add: node_ok_refs_irrelevant)
    moreover have "refs child' = card (sub b K - {rest})"
      using c(2) card by (simp add: child'_def)
    ultimately have "node_ok (Node (hm_insert b child' cs) t r) (K - {b # rest})"
      by (intro node_ok_replace [OF 2(2)])
        (use ne node_ok_finite [OF 2(2)] in \<open>auto simp: sub_remove\<close>)
    with False c show ?thesis
      by (simp add: Let_def child'_def case_prod_unfold)
  qed
qed

section \<open>Counting nodes\<close>

lemma sum_insert_new:
  "hm_get cs b = None \<Longrightarrow>
    sum_list (map (\<lambda>(_, c). f c) (hm_insert b v cs)) = f v + sum_list (map (\<lambda>(_, c). f c) cs)"
  for f :: "'a \<Rightarrow> nat"
  unfolding hm_insert_def hm_get_def by (induction cs) (auto split: if_splits)

lemma sum_insert_old:
  "hm_get cs b = Some w \<Longrightarrow>
    sum_list (map (\<lambda>(_, c). f c) (hm_insert b v cs)) + f w = f v + sum_list (map (\<lambda>(_, c). f c) cs)"
  for f :: "'a \<Rightarrow> nat"
  unfolding hm_insert_def hm_get_def by (induction cs) (auto split: if_splits)

lemma sum_remove:
  "hm_wf cs \<Longrightarrow> hm_get cs b = Some w \<Longrightarrow>
    sum_list (map (\<lambda>(_, c). f c) (hm_remove b cs)) + f w = sum_list (map (\<lambda>(_, c). f c) cs)"
  for f :: "'a \<Rightarrow> nat"
proof (induction cs)
  case (Cons a cs)
  obtain k v where a: "a = (k, v)" by (cases a)
  have del: "hm_remove b cs = cs" if "b \<notin> fst ` set cs"
    using that by (simp add: hm_remove_def AList.delete_eq filter_id_conv) force
  show ?case
  proof (cases "k = b")
    case True
    with Cons.prems have "b \<notin> fst ` set cs" "w = v"
      by (auto simp: a hm_wf_def hm_get_Cons)
    with True del show ?thesis
      by (simp add: a hm_remove_def)
  next
    case False
    with Cons show ?thesis
      by (simp add: a hm_remove_def hm_get_Cons hm_wf_def)
  qed
qed simp

lemma count_insert_path:
  "count_nodes (snd (insert_path n bs)) = count_nodes n + fst (insert_path n bs)"
proof (induction n bs rule: insert_path.induct)
  case (2 cs t r b bs)
  show ?case
  proof (cases "hm_get cs b")
    case None
    with 2 [of "(1, node_default)" 1 node_default] sum_insert_new [OF None, of count_nodes
        "snd (insert_path (set_refs (refs node_default + 1) node_default) bs)"]
    show ?thesis
      by (simp add: Let_def case_prod_unfold) (simp add: node_default_def)
  next
    case (Some c)
    with 2 [of "(0, c)" 0 c] sum_insert_old [OF Some, of count_nodes
        "snd (insert_path (set_refs (refs c + 1) c) bs)"]
    show ?thesis
      by (simp add: Let_def case_prod_unfold)
  qed
qed simp

lemma count_remove_path:
  "node_ok n K \<Longrightarrow> bs \<in> K \<Longrightarrow>
    count_nodes (snd (remove_path n bs)) + fst (remove_path n bs) = count_nodes n"
proof (induction n bs arbitrary: K rule: remove_path.induct)
  case (2 cs t r b rest)
  have mem: "rest \<in> sub b K"
    using 2(3) by (simp add: sub_def)
  have wf: "hm_wf cs" and "child_ok (hm_get cs b) (sub b K)"
    using 2(2) unfolding node_ok_iff by blast+
  with mem obtain c where c: "hm_get cs b = Some c" "node_ok c (sub b K)"
    by (cases "hm_get cs b") auto
  show ?case
  proof (cases "refs c - 1 = 0")
    case True
    with c sum_remove [OF wf c(1), of count_nodes] show ?thesis
      by (simp add: Let_def)
  next
    case False
    with c mem "2.IH" [OF c(1) refl, of "sub b K"]
      sum_insert_old [OF c(1), of count_nodes "snd (remove_path (set_refs (refs c - 1) c) rest)"]
    show ?thesis
      by (simp add: Let_def case_prod_unfold node_ok_refs_irrelevant)
  qed
qed simp

lemma count_nodes_empty: "node_ok n {} \<Longrightarrow> count_nodes n = 1"
proof (cases n)
  case (Node cs t r)
  assume "node_ok n {}"
  then have "hm_get cs b = None" for b
    unfolding Node node_ok_iff by (metis child_ok_simps(2) not_None_eq sub_empty)
  then have "cs = []"
    by (cases cs) (auto simp: hm_get_Cons split: if_splits, metis option.distinct(1))
  with Node show ?thesis by simp
qed

section \<open>Longest prefix\<close>

lemma longest_prefix_le: "node_longest_prefix n s \<le> length s"
  by (induction n s rule: node_longest_prefix.induct) (auto split: option.splits)

lemma longest_prefix_iff:
  "node_ok n K \<Longrightarrow> m \<le> length s \<Longrightarrow>
    m \<le> node_longest_prefix n s \<longleftrightarrow> m = 0 \<or> (\<exists>k\<in>K. prefix (take m s) k)"
proof (induction s arbitrary: n K m)
  case (Cons b s)
  obtain cs t r where n: "n = Node cs t r" by (cases n)
  have ok: "child_ok (hm_get cs b) (sub b K)"
    using Cons.prems(1) unfolding n node_ok_iff by blast
  show ?case
  proof (cases m)
    case (Suc m')
    have "(\<exists>k\<in>K. prefix (take m (b # s)) k) \<longleftrightarrow> (\<exists>k\<in>sub b K. prefix (take m' s) k)"
      unfolding Suc take_Suc_Cons by (auto simp: sub_def prefix_def)
    moreover have "m' \<le> node_longest_prefix c s \<longleftrightarrow> (\<exists>k\<in>sub b K. prefix (take m' s) k)"
      if "hm_get cs b = Some c" for c
      using ok that Cons.IH [of c "sub b K" m'] Cons.prems(2) Suc by auto
    ultimately show ?thesis
      using ok Suc by (auto simp: n split: option.splits)
  qed simp
qed simp

section \<open>The invariant of the trie\<close>

definition resident :: "trie \<Rightarrow> string set" where
  "resident t = {k. hm_get (tr_keys t) k \<noteq> None}"

definition trie_inv :: "trie \<Rightarrow> bool" where
  "trie_inv t \<longleftrightarrow>
     node_ok (tr_root t) (resident t) \<and> count_nodes (tr_root t) = tr_nodes t + 1 \<and>
     (\<forall>k st. hm_get (tr_keys t) k = Some st \<longrightarrow> (k, st) \<in> set (tr_order t)) \<and>
     sorted_wrt (\<lambda>a b. snd a < snd b) (tr_order t) \<and> (\<forall>e\<in>set (tr_order t). snd e \<le> tr_seq t)"

lemma trie_inv_new: "trie_inv (trie_with_capacity n)"
  by (simp add: trie_inv_def trie_with_capacity_def resident_def node_ok_default)
    (simp add: node_default_def)

lemma pop_live_Some:
  "pop_live keys order = (Some (k, st), rest) \<Longrightarrow>
    hm_get keys k = Some st \<and>
    (\<exists>pre. order = pre @ (k, st) # rest \<and> (\<forall>e\<in>set pre. hm_get keys (fst e) \<noteq> Some (snd e)))"
proof (induction keys order rule: pop_live.induct)
  case (2 keys key stamp more)
  show ?case
  proof (cases "hm_get keys key = Some stamp")
    case True
    with 2(2) show ?thesis by simp
  next
    case False
    with 2 obtain pre where "hm_get keys k = Some st" "more = pre @ (k, st) # rest"
      "\<forall>e\<in>set pre. hm_get keys (fst e) \<noteq> Some (snd e)"
      by auto
    with False show ?thesis
      by (intro conjI exI [of _ "(key, stamp) # pre"]) simp_all
  qed
qed simp

lemma pop_live_None:
  "pop_live keys order = (None, rest) \<Longrightarrow>
    rest = [] \<and> (\<forall>e\<in>set order. hm_get keys (fst e) \<noteq> Some (snd e))"
  by (induction keys order rule: pop_live.induct) (auto split: if_splits)

lemma evict_one_False:
  assumes "trie_inv t" and "evict_one t = (False, t')"
  shows "resident t = {} \<and> t' = t\<lparr>tr_order := []\<rparr>"
proof -
  obtain order where pop: "pop_live (tr_keys t) (tr_order t) = (None, order)"
    and t': "t' = t\<lparr>tr_order := order\<rparr>"
    using assms(2) by (auto simp: evict_one_def Let_def split: prod.splits option.splits)
  from pop_live_None [OF pop] assms(1) t' show ?thesis
    by (fastforce simp: trie_inv_def resident_def)
qed

lemma evict_one_True:
  assumes inv: "trie_inv t" and "evict_one t = (True, t')"
  obtains k st where "hm_get (tr_keys t) k = Some st" "tr_keys t' = hm_remove k (tr_keys t)"
    "\<forall>k' st'. hm_get (tr_keys t) k' = Some st' \<longrightarrow> st \<le> st'" "trie_inv t'"
    "tr_max_nodes t' = tr_max_nodes t" "tr_evictions t' = tr_evictions t + 1"
proof -
  obtain k st order where pop: "pop_live (tr_keys t) (tr_order t) = (Some (k, st), order)"
    and t': "t' = t\<lparr>tr_order := order, tr_keys := hm_remove k (tr_keys t),
        tr_root := snd (remove_path (tr_root t) k),
        tr_nodes := tr_nodes t - fst (remove_path (tr_root t) k), tr_evictions := tr_evictions t + 1\<rparr>"
    using assms(2) by (auto simp: evict_one_def Let_def split: prod.splits option.splits)
  from pop_live_Some [OF pop] obtain pre where get: "hm_get (tr_keys t) k = Some st"
    and order: "tr_order t = pre @ (k, st) # order"
    and stale: "\<forall>e\<in>set pre. hm_get (tr_keys t) (fst e) \<noteq> Some (snd e)"
    by blast
  have live: "(k', st') = (k, st) \<or> (k', st') \<in> set order" if "hm_get (tr_keys t) k' = Some st'" for k' st'
    using inv that stale by (fastforce simp: trie_inv_def order)
  have sorted: "sorted_wrt (\<lambda>a b. snd a < snd b) order" "\<forall>e\<in>set order. st < snd e"
    using inv by (auto simp: trie_inv_def order sorted_wrt_append)
  have least: "\<forall>k' st'. hm_get (tr_keys t) k' = Some st' \<longrightarrow> st \<le> st'"
    using live sorted(2) by fastforce
  have res: "resident t' = resident t - {k}" "k \<in> resident t"
    using get by (auto simp: resident_def t')
  have ok: "node_ok (tr_root t) (resident t)" "count_nodes (tr_root t) = tr_nodes t + 1"
    using inv by (simp_all add: trie_inv_def)
  have cnt: "count_nodes (snd (remove_path (tr_root t) k)) + fst (remove_path (tr_root t) k) = tr_nodes t + 1"
    using count_remove_path [OF ok(1) res(2)] ok(2) by simp
  have "0 < count_nodes n" for n
    by (cases n) simp
  with cnt have "count_nodes (snd (remove_path (tr_root t) k)) = tr_nodes t - fst (remove_path (tr_root t) k) + 1"
    by (metis add.commute add_diff_cancel_left' diff_Suc_1 Suc_eq_plus1 Suc_pred' diff_commute)
  moreover have "node_ok (snd (remove_path (tr_root t) k)) (resident t')"
    using node_ok_remove [OF ok(1) res(2)] res(1) by simp
  moreover have "(k', st') \<in> set order" if "hm_get (hm_remove k (tr_keys t)) k' = Some st'" for k' st'
    using that live by (auto split: if_splits)
  ultimately have "trie_inv t'"
    using inv sorted(1) by (auto simp: trie_inv_def t' order)
  with get least show thesis
    by (intro that) (simp_all add: t')
qed

lemma trie_inv_evict_while:
  "trie_inv t \<Longrightarrow>
    trie_inv (evict_while t) \<and> tr_nodes (evict_while t) \<le> tr_max_nodes t \<and>
    tr_max_nodes (evict_while t) = tr_max_nodes t"
proof (induction t rule: evict_while.induct)
  case (1 t)
  show ?case
  proof (cases "tr_max_nodes t < tr_nodes t")
    case False
    with 1(2) show ?thesis by simp
  next
    case True
    obtain go t' where ev: "evict_one t = (go, t')" by (cases "evict_one t")
    show ?thesis
    proof (cases go)
      case True
      with ev obtain "trie_inv t'" "tr_max_nodes t' = tr_max_nodes t"
        using evict_one_True [OF 1(2), of t'] by metis
      with 1(1) [OF \<open>tr_max_nodes t < tr_nodes t\<close>, of go t'] ev True \<open>tr_max_nodes t < tr_nodes t\<close>
      show ?thesis by simp
    next
      case False
      with ev have "resident t = {}"
        using evict_one_False [OF 1(2), of t'] by simp
      then have "tr_nodes t = 0"
        using 1(2) count_nodes_empty by (fastforce simp: trie_inv_def)
      with True show ?thesis by simp
    qed
  qed
qed

lemma resident_touch [simp]: "resident (touch t s) = resident t"
  by (auto simp: resident_def touch_def Let_def split: option.splits)

lemma trie_inv_touch: "trie_inv t \<Longrightarrow> trie_inv (touch t s)"
proof -
  assume inv: "trie_inv t"
  have "node_ok (tr_root (touch t s)) (resident (touch t s))"
    using inv by (simp add: trie_inv_def) (simp add: touch_def Let_def split: option.splits)
  with inv show ?thesis
    unfolding trie_inv_def [of "touch t s"]
    by (auto simp: trie_inv_def touch_def Let_def sorted_wrt_append le_Suc_eq less_Suc_eq_le
        split: option.splits)
qed

lemma trie_inv_insert:
  assumes "trie_inv t"
  shows "trie_inv (trie_insert t s)"
    and "tr_max_nodes (trie_insert t s) = tr_max_nodes t"
    and "tr_max_nodes t \<noteq> 0 \<Longrightarrow> tr_nodes t \<le> tr_max_nodes t \<Longrightarrow> tr_nodes (trie_insert t s) \<le> tr_max_nodes t"
proof -
  define u where "u = t\<lparr>tr_root := snd (insert_path (tr_root t) s),
      tr_nodes := tr_nodes t + fst (insert_path (tr_root t) s), tr_seq := tr_seq t + 1,
      tr_keys := hm_insert s (tr_seq t + 1) (tr_keys t), tr_order := tr_order t @ [(s, tr_seq t + 1)]\<rparr>"
  have ins: "trie_insert t s = (if s \<in> resident t then touch t s else evict_to_capacity u)"
    by (simp add: trie_insert_def resident_def u_def Let_def case_prod_unfold)
  have u: "trie_inv u" if "s \<notin> resident t"
  proof -
    have res: "resident u = insert s (resident t)"
      by (auto simp: resident_def u_def)
    have "node_ok (tr_root u) (resident u)"
      using assms that node_ok_insert [of "tr_root t" "resident t" s]
      by (simp add: res) (simp add: u_def trie_inv_def)
    then show ?thesis
      unfolding trie_inv_def [of u] using assms that
      by (auto simp: u_def trie_inv_def sorted_wrt_append count_insert_path le_Suc_eq less_Suc_eq_le)
  qed
  note ev = trie_inv_evict_while [OF u]
  show "trie_inv (trie_insert t s)"
    using assms u ev by (simp add: ins trie_inv_touch evict_to_capacity_def)
  have max: "tr_max_nodes u = tr_max_nodes t"
    by (simp add: u_def)
  have touch: "tr_max_nodes (touch t s) = tr_max_nodes t" "tr_nodes (touch t s) = tr_nodes t"
    by (simp_all add: touch_def Let_def split: option.splits)
  show "tr_max_nodes (trie_insert t s) = tr_max_nodes t"
    using ev max touch by (simp add: ins evict_to_capacity_def del: evict_while.simps)
  show "tr_nodes (trie_insert t s) \<le> tr_max_nodes t"
    if "tr_max_nodes t \<noteq> 0" "tr_nodes t \<le> tr_max_nodes t"
    using that ev max touch by (simp add: ins evict_to_capacity_def del: evict_while.simps)
qed

section \<open>Properties\<close>

text \<open>The tries a balancer can hold: any sequence of insertions into an empty one.\<close>

definition trie_of :: "nat \<Rightarrow> string list \<Rightarrow> trie" where
  "trie_of cap ss = foldl trie_insert (trie_with_capacity cap) ss"

lemma trie_of_inv: "trie_inv (trie_of cap ss) \<and> tr_max_nodes (trie_of cap ss) = cap \<and>
    (cap \<noteq> 0 \<longrightarrow> tr_nodes (trie_of cap ss) \<le> cap)"
proof (induction ss rule: rev_induct)
  case Nil
  show ?case
    by (simp add: trie_of_def trie_inv_new) (simp add: trie_with_capacity_def)
next
  case (snoc s ss)
  then show ?case
    using trie_inv_insert [of "trie_of cap ss" s] by (simp add: trie_of_def)
qed

text \<open>
  C31: Prefix affinity is exact and memory bounded. After any sequence of served prompts, the number
  of leading bytes reported for a prompt is the longest prefix it shares with a prompt still
  resident, the node counter is the number of nodes, and with a cap it never exceeds it.
\<close>

theorem trie_longest_prefix:
  "m \<le> length s \<longrightarrow>
     (m \<le> longest_prefix (trie_of cap ss) s \<longleftrightarrow>
        m = 0 \<or> (\<exists>k\<in>resident (trie_of cap ss). prefix (take m s) k)) \<and>
   longest_prefix (trie_of cap ss) s \<le> length s \<and>
   count_nodes (tr_root (trie_of cap ss)) = trie_len (trie_of cap ss) + 1 \<and>
   (cap \<noteq> 0 \<longrightarrow> trie_len (trie_of cap ss) \<le> cap)"
  using trie_of_inv [of cap ss] longest_prefix_iff [of "tr_root (trie_of cap ss)" "resident (trie_of cap ss)" m s]
  by (auto simp: trie_inv_def longest_prefix_def longest_prefix_le trie_len_def)

lemma trie_longest_prefix_witness:
  "longest_prefix (trie_of 100 [''hello'', ''help'']) ''held'' \<le> 4 \<and>
   trie_len (trie_of 100 [''hello'', ''help'']) \<le> 100"
  using trie_longest_prefix [of 1 "''held''" 100 "[''hello'', ''help'']"] by simp

text \<open>
  Eviction takes the least recently inserted prompt: when a key is evicted it is the resident
  key with the oldest stamp, exactly that key leaves, and nothing is evicted only when nothing is
  resident.
\<close>

theorem evicts_oldest:
  assumes "trie_inv t"
  shows "case evict_one t of
      (True, t') \<Rightarrow>
        \<exists>k st. hm_get (tr_keys t) k = Some st \<and> resident t' = resident t - {k} \<and>
          (\<forall>k' st'. hm_get (tr_keys t) k' = Some st' \<longrightarrow> st \<le> st')
    | (False, _) \<Rightarrow> resident t = {}"
proof (cases "evict_one t")
  case (Pair go t')
  show ?thesis
  proof (cases go)
    case True
    with Pair have "evict_one t = (True, t')" by simp
    then obtain k st where k: "hm_get (tr_keys t) k = Some st" "tr_keys t' = hm_remove k (tr_keys t)"
      "\<forall>k' st'. hm_get (tr_keys t) k' = Some st' \<longrightarrow> st \<le> st'"
      using evict_one_True [OF assms] by metis
    then have "resident t' = resident t - {k}"
      by (auto simp: resident_def)
    with k Pair True show ?thesis by auto
  next
    case False
    with Pair show ?thesis
      using evict_one_False [OF assms, of t'] by simp
  qed
qed

lemma evicts_oldest_witness:
  "case evict_one (trie_of 100 [''ab'', ''cd'']) of
      (True, t') \<Rightarrow>
        \<exists>k st. hm_get (tr_keys (trie_of 100 [''ab'', ''cd''])) k = Some st \<and>
          resident t' = resident (trie_of 100 [''ab'', ''cd'']) - {k} \<and>
          (\<forall>k' st'. hm_get (tr_keys (trie_of 100 [''ab'', ''cd''])) k' = Some st' \<longrightarrow> st \<le> st')
    | (False, _) \<Rightarrow> resident (trie_of 100 [''ab'', ''cd'']) = {}"
  by (rule evicts_oldest) (use trie_of_inv in blast)

text \<open>
  The access log is not bounded by the cap: serving the same resident prompt again appends to it
  every time, and only an eviction ever shortens it.
\<close>

theorem access_log_grows:
  assumes "s \<in> resident t"
  shows "length (tr_order (((\<lambda>t. trie_insert t s) ^^ n) t)) = length (tr_order t) + n \<and>
    tr_nodes (((\<lambda>t. trie_insert t s) ^^ n) t) = tr_nodes t"
proof -
  have step: "s \<in> resident (trie_insert u s) \<and> length (tr_order (trie_insert u s)) = length (tr_order u) + 1 \<and>
      tr_nodes (trie_insert u s) = tr_nodes u" if "s \<in> resident u" for u
    using that by (auto simp: trie_insert_def resident_def touch_def Let_def)
  have "s \<in> resident (((\<lambda>t. trie_insert t s) ^^ n) t) \<and>
      length (tr_order (((\<lambda>t. trie_insert t s) ^^ n) t)) = length (tr_order t) + n \<and>
      tr_nodes (((\<lambda>t. trie_insert t s) ^^ n) t) = tr_nodes t"
    by (induction n) (use assms step in auto)
  then show ?thesis by blast
qed

lemma access_log_grows_witness:
  "length (tr_order (((\<lambda>t. trie_insert t ''ab'') ^^ 1000) (trie_of 2 [''ab'']))) =
     length (tr_order (trie_of 2 [''ab''])) + 1000"
proof -
  have "''ab'' \<in> resident (trie_of 2 [''ab''])"
    by (simp add: trie_of_def trie_insert_def trie_with_capacity_def node_default_def Let_def
        evict_to_capacity_def resident_def)
  from access_log_grows [OF this, of 1000] show ?thesis by blast
qed

end
