(* ===== verification/Failover.thy ===== *)
theory Failover
  imports Strings
begin

text \<open>
  Which failures a fallback target takes over: \<open>rolter-core/src/failover.rs\<close>. The JSON parser
  (\<open>serde_json\<close>) is the argument \<open>parse\<close> of \<open>failure_refusal\<close>.
\<close>

definition MAX_REFUSAL_CATEGORY_LEN :: nat where
  "MAX_REFUSAL_CATEGORY_LEN = 64"

definition ALL_TARGETS_RESTRICTED :: string where
  "ALL_TARGETS_RESTRICTED = ''all_targets_restricted''"

section \<open>Failures\<close>

datatype failure_kind = Throttled | Timeout | Transport | ServerError | Refusal | UnknownKind

definition kind_as_str :: "failure_kind \<Rightarrow> string" where
  "kind_as_str k =
     (case k of
        Throttled \<Rightarrow> ''throttled''
      | Timeout \<Rightarrow> ''timeout''
      | Transport \<Rightarrow> ''transport''
      | ServerError \<Rightarrow> ''server_error''
      | Refusal \<Rightarrow> ''refusal''
      | UnknownKind \<Rightarrow> ''unknown'')"

definition kind_parse :: "string \<Rightarrow> failure_kind option" where
  "kind_parse token =
     (if token = ''throttled'' then Some Throttled
      else if token = ''timeout'' then Some Timeout
      else if token = ''transport'' then Some Transport
      else if token = ''server_error'' then Some ServerError
      else if token = ''refusal'' then Some Refusal
      else None)"

record failure =
  fa_kind :: failure_kind
  fa_categories :: "string list"

definition failure_of :: "failure_kind \<Rightarrow> failure" where
  "failure_of kind = \<lparr>fa_kind = kind, fa_categories = []\<rparr>"

definition from_status :: "nat \<Rightarrow> failure option" where
  "from_status status =
     (if status = 429 then Some (failure_of Throttled)
      else if status = 408 \<or> status = 504 then Some (failure_of Timeout)
      else if 500 \<le> status \<and> status \<le> 599 then Some (failure_of ServerError)
      else None)"

definition from_transport_error :: "string \<Rightarrow> failure" where
  "from_transport_error message =
     (if str_contains message ''timed out'' then failure_of Timeout else failure_of Transport)"

definition REFUSAL_MARKERS :: "string list" where
  "REFUSAL_MARKERS =
     [''content_policy'', ''content_filter'', ''content_management'', ''responsible_ai'',
      ''safety'', ''moderation'']"

definition is_refusal_token :: "string \<Rightarrow> bool" where
  "is_refusal_token token = list_ex (str_contains token) REFUSAL_MARKERS"

definition valid_category :: "string \<Rightarrow> bool" where
  "valid_category category =
     (category \<noteq> [] \<and> length category \<le> MAX_REFUSAL_CATEGORY_LEN \<and>
      list_all (\<lambda>b. is_ascii_lowercase b \<or> is_ascii_digit b \<or> b = CHR ''_'' \<or> b = CHR ''-'') category)"

definition push_category :: "string list \<Rightarrow> string \<Rightarrow> string list" where
  "push_category categories category =
     (if valid_category category \<and> category \<notin> set categories then categories @ [category]
      else categories)"

text \<open>The two scans of \<open>refusal\<close>: the error's own tokens, then the content-filter result.\<close>

definition scan_token :: "json \<Rightarrow> bool \<times> string list \<Rightarrow> string \<Rightarrow> bool \<times> string list" where
  "scan_token err acc key =
     (case acc of
        (marked, categories) \<Rightarrow>
          (case Option.bind (json_get err key) json_as_str of
             None \<Rightarrow> acc
           | Some token \<Rightarrow>
               let token = to_ascii_lowercase (trim token)
               in if is_refusal_token token then (True, push_category categories token) else acc))"

definition scan_filter :: "string list \<Rightarrow> string \<times> json \<Rightarrow> string list" where
  "scan_filter categories member =
     (case member of
        (name, result) \<Rightarrow>
          if Option.bind (json_get result ''filtered'') json_as_bool = Some True
          then push_category categories (to_ascii_lowercase name)
          else categories)"

definition failure_refusal :: "(string \<Rightarrow> json option) \<Rightarrow> nat \<Rightarrow> string \<Rightarrow> failure option" where
  "failure_refusal parse status body =
     (if status \<notin> {400, 403, 422, 451} then None
      else
        let value = (case parse body of None \<Rightarrow> JNull | Some v \<Rightarrow> v);
            err = (case json_get value ''error'' of None \<Rightarrow> value | Some e \<Rightarrow> e);
            (marked, categories) = foldl (scan_token err) (status = 451, []) [''code'', ''type''];
            flt = (case Option.bind (json_get err ''innererror'')
                           (\<lambda>inner. json_get inner ''content_filter_result'') of
                     Some f \<Rightarrow> Some f
                   | None \<Rightarrow> json_get err ''content_filter_result'');
            (marked, categories) =
              (case Option.bind flt json_as_object of
                 None \<Rightarrow> (marked, categories)
               | Some results \<Rightarrow> (True, foldl scan_filter categories results))
        in if marked then Some \<lparr>fa_kind = Refusal, fa_categories = categories\<rparr> else None)"

definition failure_token :: "failure \<Rightarrow> string" where
  "failure_token f =
     (case fa_categories f of
        category # _ \<Rightarrow>
          if fa_kind f = Refusal then ''refusal:'' @ category else kind_as_str (fa_kind f)
      | [] \<Rightarrow> kind_as_str (fa_kind f))"

section \<open>Classes\<close>

record failure_class =
  fc_kind :: failure_kind
  fc_category :: "string option"

definition class_matches :: "failure_class \<Rightarrow> failure \<Rightarrow> bool" where
  "class_matches c f =
     (fc_kind c \<noteq> UnknownKind \<and> fc_kind c = fa_kind f \<and>
      (case fc_category c of None \<Rightarrow> True | Some category \<Rightarrow> category \<in> set (fa_categories f)))"

definition class_display :: "failure_class \<Rightarrow> string" where
  "class_display c =
     (if fc_kind c = UnknownKind then
        (case fc_category c of None \<Rightarrow> ''unknown'' | Some t \<Rightarrow> t)
      else
        (case fc_category c of
           Some category \<Rightarrow> kind_as_str (fc_kind c) @ CHR '':'' # category
         | None \<Rightarrow> kind_as_str (fc_kind c)))"

datatype class_error = UnknownClass string | CategoryNotTaken string | BadCategory string

definition class_from_str :: "string \<Rightarrow> class_error + failure_class" where
  "class_from_str token =
     (let (head, category) =
            (case split_once CHR '':'' token of
               Some (head, category) \<Rightarrow> (head, Some category)
             | None \<Rightarrow> (token, None))
      in case kind_parse head of
           None \<Rightarrow> Inl (UnknownClass token)
         | Some kind \<Rightarrow>
             (case category of
                None \<Rightarrow> Inr \<lparr>fc_kind = kind, fc_category = None\<rparr>
              | Some category \<Rightarrow>
                  if kind \<noteq> Refusal then Inl (CategoryNotTaken token)
                  else if \<not> valid_category category then Inl (BadCategory category)
                  else Inr \<lparr>fc_kind = kind, fc_category = Some category\<rparr>))"

definition class_deserialize :: "string \<Rightarrow> failure_class" where
  "class_deserialize token =
     (case class_from_str token of
        Inr c \<Rightarrow> c
      | Inl _ \<Rightarrow> \<lparr>fc_kind = UnknownKind, fc_category = Some token\<rparr>)"

definition may_dial :: "failure_class list \<Rightarrow> failure option \<Rightarrow> bool" where
  "may_dial classes failure =
     (case failure of
        None \<Rightarrow> classes = []
      | Some f \<Rightarrow>
          if classes = [] then fa_kind f \<noteq> Refusal
          else list_ex (\<lambda>c. class_matches c f) classes)"

section \<open>Problems of a route\<close>

definition all_targets_restricted :: "string \<Rightarrow> string" where
  "all_targets_restricted route =
     ''route '' @ [char_of (39 :: nat)] @ route @ [char_of (39 :: nat)] @
     '' has no target it may dial first: every target sets takes_over, so the route could never serve a request ('' @
     ALL_TARGETS_RESTRICTED @ ''); leave takes_over off at least one target''"

definition class_problems :: "string \<Rightarrow> string \<Rightarrow> failure_class list \<Rightarrow> string list" where
  "class_problems route provider classes =
     (let q = [char_of (39 :: nat)]
      in map (\<lambda>i. ''route '' @ q @ route @ q @ '' target '' @ q @ provider @ q @
                  '' lists takes_over class '' @ q @ class_display (classes ! i) @ q @ '' twice'')
           (filter (\<lambda>i. classes ! i \<in> set (take i classes)) [0..<length classes]))"

definition duplicate_class_problems :: "string \<Rightarrow> (string \<times> failure_class list) list \<Rightarrow> string list" where
  "duplicate_class_problems route targets =
     concat (map (\<lambda>(provider, classes). class_problems route provider classes) targets)"

definition takes_over_problems :: "string \<Rightarrow> (string \<times> failure_class list) list \<Rightarrow> string list" where
  "takes_over_problems route targets =
     (let any = (targets \<noteq> []);
          all_restricted = list_all (\<lambda>(_, classes). classes \<noteq> []) targets
      in duplicate_class_problems route targets @
         (if any \<and> all_restricted then [all_targets_restricted route] else []))"

section \<open>Tokens\<close>

lemma kind_parse_as_str: "kind_parse (kind_as_str k) = (if k = UnknownKind then None else Some k)"
  by (cases k) (simp_all add: kind_parse_def kind_as_str_def)

lemma kind_parse_Some: "kind_parse t = Some k \<Longrightarrow> t = kind_as_str k \<and> k \<noteq> UnknownKind"
  by (auto simp: kind_parse_def kind_as_str_def split: if_splits)

lemma kind_as_str_no_colon: "CHR '':'' \<notin> set (kind_as_str k)"
  by (cases k) (simp_all add: kind_as_str_def)

lemma class_from_str_display:
  "class_from_str token = Inr c \<Longrightarrow> class_display c = token"
  by (auto simp: class_from_str_def class_display_def Let_def dest!: kind_parse_Some split_once_Some
      split: option.splits prod.splits if_splits)

text \<open>
  Reading a class never loses its token: a gateway that does not know a class still serves it on
  unchanged, and reading what it served gives the same class again.
\<close>

theorem class_token_roundtrip:
  "class_display (class_deserialize token) = token \<and>
   class_deserialize (class_display (class_deserialize token)) = class_deserialize token"
proof -
  have "class_display (class_deserialize token) = token"
    unfolding class_deserialize_def
    by (cases "class_from_str token") (simp_all add: class_display_def [of "\<lparr>fc_kind = _, fc_category = _\<rparr>"]
        class_from_str_display)
  then show ?thesis by simp
qed

lemma class_from_str_iff:
  "class_from_str token = Inr c \<longleftrightarrow>
     token = class_display c \<and> fc_kind c \<noteq> UnknownKind \<and>
     (case fc_category c of None \<Rightarrow> True | Some category \<Rightarrow> fc_kind c = Refusal \<and> valid_category category)"
proof
  assume *: "class_from_str token = Inr c"
  then show "token = class_display c \<and> fc_kind c \<noteq> UnknownKind \<and>
     (case fc_category c of None \<Rightarrow> True | Some category \<Rightarrow> fc_kind c = Refusal \<and> valid_category category)"
    using class_from_str_display [OF *]
    by (auto simp: class_from_str_def Let_def dest: kind_parse_Some
        split: option.splits prod.splits if_splits)
next
  assume *: "token = class_display c \<and> fc_kind c \<noteq> UnknownKind \<and>
     (case fc_category c of None \<Rightarrow> True | Some category \<Rightarrow> fc_kind c = Refusal \<and> valid_category category)"
  show "class_from_str token = Inr c"
  proof (cases "fc_category c")
    case None
    with * have "split_once CHR '':'' token = None"
      by (simp add: split_once_None class_display_def kind_as_str_no_colon)
    with * None show ?thesis
      by (simp add: class_from_str_def class_display_def kind_parse_as_str)
  next
    case (Some category)
    with * have "split_once CHR '':'' token = Some (kind_as_str Refusal, category)"
      by (simp add: class_display_def kind_as_str_no_colon)
    with * Some show ?thesis
      by (simp add: class_from_str_def kind_parse_as_str)
  qed
qed

text \<open>
  The strict parser accepts exactly the tokens of the known classes: a kind by itself, or a
  refusal narrowed to a valid category.
\<close>

theorem class_from_str_accepts:
  "class_from_str token = Inr c \<longleftrightarrow>
     token = class_display c \<and> fc_kind c \<noteq> UnknownKind \<and>
     (case fc_category c of None \<Rightarrow> True | Some category \<Rightarrow> fc_kind c = Refusal \<and> valid_category category)"
  by (rule class_from_str_iff)

section \<open>Dialling\<close>

text \<open>
  Who may be dialled when. A target without classes leads and follows every failure but a
  refusal; a restricted target never leads and follows only a failure one of its known classes
  covers, so a set made only of classes this build does not know is never dialled at all.
\<close>

theorem may_dial_rules:
  "(may_dial classes None \<longleftrightarrow> classes = []) \<and>
   (may_dial [] (Some f) \<longleftrightarrow> fa_kind f \<noteq> Refusal) \<and>
   (tokens \<noteq> [] \<and> list_all (\<lambda>t. \<exists>e. class_from_str t = Inl e) tokens \<longrightarrow>
      \<not> may_dial (map class_deserialize tokens) failure)"
  by (auto simp: may_dial_def list_ex_iff list_all_iff class_matches_def class_deserialize_def
      split: option.splits)

lemma may_dial_rules_witness:
  "\<not> may_dial (map class_deserialize [''quota_exhausted'']) (Some (failure_of Throttled))"
  using may_dial_rules [of "[]" "failure_of Throttled" "[''quota_exhausted'']" "Some (failure_of Throttled)"]
  by (simp add: class_from_str_def kind_parse_def)

text \<open>
  Every error status falls under at most one class and transient ones under exactly one: a
  failure is named for 408, 429 and every 5xx, it is never a refusal, and it carries no category.
\<close>

theorem from_status_spec:
  "(from_status status \<noteq> None \<longleftrightarrow> status = 408 \<or> status = 429 \<or> (500 \<le> status \<and> status < 600)) \<and>
   (\<forall>f. from_status status = Some f \<longrightarrow>
      fa_categories f = [] \<and> fa_kind f \<in> {Throttled, Timeout, ServerError} \<and> may_dial [] (Some f))"
  by (auto simp: from_status_def failure_of_def may_dial_def)

lemma from_status_spec_witness: "may_dial [] (Some (failure_of Timeout))"
  using from_status_spec [of 504] by (simp add: from_status_def)

section \<open>Refusals\<close>

lemma push_category_valid:
  "list_all valid_category cs \<and> distinct cs \<Longrightarrow>
    list_all valid_category (push_category cs c) \<and> distinct (push_category cs c)"
  by (auto simp: push_category_def list_all_iff)

lemma scan_filter_valid:
  "list_all valid_category cs \<and> distinct cs \<Longrightarrow>
    list_all valid_category (foldl scan_filter cs ms) \<and> distinct (foldl scan_filter cs ms)"
  by (induction ms arbitrary: cs) (auto simp: scan_filter_def push_category_valid split: prod.splits)

lemma scan_token_valid:
  "list_all valid_category (snd acc) \<and> distinct (snd acc) \<Longrightarrow>
    list_all valid_category (snd (foldl (scan_token err) acc ks)) \<and>
    distinct (snd (foldl (scan_token err) acc ks))"
  by (induction ks arbitrary: acc)
    (auto simp: scan_token_def Let_def push_category_valid split: prod.splits option.splits)

lemma scan_token_marked: "fst acc \<Longrightarrow> fst (foldl (scan_token err) acc ks)"
  by (induction ks arbitrary: acc)
    (auto simp: scan_token_def Let_def split: prod.splits option.splits)

lemma failure_refusal_shape:
  assumes "status \<in> {400, 403, 422, 451}"
  shows "\<exists>marked cs. failure_refusal parse status body =
      (if marked then Some \<lparr>fa_kind = Refusal, fa_categories = cs\<rparr> else None) \<and>
    (status = 451 \<longrightarrow> marked) \<and> list_all valid_category cs \<and> distinct cs"
proof -
  define doc where "doc = (case parse body of None \<Rightarrow> JNull | Some v \<Rightarrow> v)"
  define err where "err = (case json_get doc ''error'' of None \<Rightarrow> doc | Some e \<Rightarrow> e)"
  define acc where "acc = foldl (scan_token err) (status = 451, []) [''code'', ''type'']"
  define flt where "flt = (case Option.bind (json_get err ''innererror'')
        (\<lambda>inner. json_get inner ''content_filter_result'') of
      Some f \<Rightarrow> Some f | None \<Rightarrow> json_get err ''content_filter_result'')"
  define fin where "fin = (case Option.bind flt json_as_object of None \<Rightarrow> acc
      | Some results \<Rightarrow> (True, foldl scan_filter (snd acc) results))"
  have acc: "list_all valid_category (snd acc) \<and> distinct (snd acc)" "status = 451 \<longrightarrow> fst acc"
    unfolding acc_def by (rule scan_token_valid, simp) (rule impI, rule scan_token_marked, simp)
  then have fin: "list_all valid_category (snd fin) \<and> distinct (snd fin)" "status = 451 \<longrightarrow> fst fin"
    by (auto simp: fin_def scan_filter_valid split: option.splits)
  have "failure_refusal parse status body =
      (if fst fin then Some \<lparr>fa_kind = Refusal, fa_categories = snd fin\<rparr> else None)"
    using assms
    unfolding failure_refusal_def Let_def doc_def [symmetric] err_def [symmetric] acc_def [symmetric]
      flt_def [symmetric]
    by (auto simp: fin_def case_prod_unfold split: option.splits)
  with fin show ?thesis by blast
qed

text \<open>
  Whatever body an upstream sends, a refusal is only ever read from a 400, 403, 422 or 451, a 451
  always is one, and the categories it names are pairwise different and each a category a route may
  narrow a class to; hence a route can name any recorded refusal by its token.
\<close>

theorem refusal_spec:
  "(failure_refusal parse status body \<noteq> None \<longrightarrow> status \<in> {400, 403, 422, 451}) \<and>
   failure_refusal parse 451 body \<noteq> None \<and>
   (\<forall>f. failure_refusal parse status body = Some f \<longrightarrow>
      fa_kind f = Refusal \<and> distinct (fa_categories f) \<and> list_all valid_category (fa_categories f) \<and>
      (\<exists>c. class_from_str (failure_token f) = Inr c \<and> class_matches c f))"
proof -
  have dom: "failure_refusal parse s body \<noteq> None \<Longrightarrow> s \<in> {400, 403, 422, 451}" for s
    by (auto simp: failure_refusal_def split: if_splits)
  have "fa_kind f = Refusal \<and> distinct (fa_categories f) \<and> list_all valid_category (fa_categories f) \<and>
      (\<exists>c. class_from_str (failure_token f) = Inr c \<and> class_matches c f)"
    if "failure_refusal parse status body = Some f" for f
  proof -
    have f: "fa_kind f = Refusal" "distinct (fa_categories f)" "list_all valid_category (fa_categories f)"
      using that dom [of status] failure_refusal_shape [of status parse body] by (auto split: if_splits)
    define c where "c = \<lparr>fc_kind = Refusal,
      fc_category = (case fa_categories f of [] \<Rightarrow> None | t # _ \<Rightarrow> Some t)\<rparr>"
    have "class_from_str (failure_token f) = Inr c"
      unfolding class_from_str_iff using f
      by (auto simp: c_def failure_token_def class_display_def kind_as_str_def split: list.splits)
    moreover have "class_matches c f"
      using f by (auto simp: c_def class_matches_def split: list.splits)
    ultimately show ?thesis using f by blast
  qed
  moreover have "failure_refusal parse 451 body \<noteq> None"
    using failure_refusal_shape [of 451 parse body] by auto
  ultimately show ?thesis
    using dom by blast
qed

lemma refusal_spec_witness:
  "\<exists>c. class_from_str ''refusal'' = Inr c \<and> class_matches c \<lparr>fa_kind = Refusal, fa_categories = []\<rparr>"
  using refusal_spec [of "\<lambda>_. None" 451 "[]"]
  by (simp add: failure_refusal_def scan_token_def json_get_def failure_token_def kind_as_str_def)

end
