(* ===== verification/Secret_Env.thy ===== *)
theory Secret_Env
  imports Strings
begin

text \<open>
  Which environment variables a row may name as an outbound credential:
  \<open>rolter-core/src/secret_env.rs\<close>. A computation that can panic returns an option, \<open>None\<close> being the
  panic; the only one here is slicing a string at an index that is not a character boundary. The
  process environment is the argument \<open>env\<close>.
\<close>

type_synonym 'a may_panic = "'a option"

definition DENIED :: "string list" where
  "DENIED =
     [''ROLTER_KEK'', ''ROLTER_KEK_OLD'', ''ROLTER_MASTER_KEY'', ''ROLTER_KEY_PEPPER'',
      ''ROLTER_SESSION_PEPPER'', ''ROLTER_ADMIN_TOKEN'', ''ROLTER_INTERNAL_TOKEN'',
      ''ROLTER_PLUGIN_TOKEN'', ''ROLTER_DATABASE_URL'', ''ROLTER_REDIS_URL'', ''DATABASE_URL'',
      ''REDIS_URL'', ''CLICKHOUSE_URL'', ''CLICKHOUSE_PASSWORD'', ''CLICKHOUSE_USER'',
      ''PGPASSWORD'', ''PGPASSFILE'']"

definition PREFIX :: string where
  "PREFIX = ''ROLTER_''"

definition ALLOWED :: "string list" where
  "ALLOWED = [''ROLTER_GUARDRAIL_TOKEN'']"

definition eq_ignore_ascii_case :: "string \<Rightarrow> string \<Rightarrow> bool" where
  "eq_ignore_ascii_case a b = (to_ascii_lowercase a = to_ascii_lowercase b)"

definition is_char_boundary :: "string \<Rightarrow> nat \<Rightarrow> bool" where
  "is_char_boundary s i =
     (i = 0 \<or> i = length s \<or> (i < length s \<and> (byte (s ! i) < 128 \<or> 192 \<le> byte (s ! i))))"

definition slice_to :: "string \<Rightarrow> nat \<Rightarrow> string may_panic" where
  "slice_to s i = (if is_char_boundary s i then Some (take i s) else None)"

definition is_control_plane_secret :: "string \<Rightarrow> bool may_panic" where
  "is_control_plane_secret name =
     (let name = trim name
      in if list_ex (\<lambda>ok. eq_ignore_ascii_case ok name) ALLOWED then Some False
         else if list_ex (\<lambda>bad. eq_ignore_ascii_case bad name) DENIED then Some True
         else if length PREFIX \<le> length name then
           map_option (\<lambda>p. eq_ignore_ascii_case p PREFIX) (slice_to name (length PREFIX))
         else Some False)"

definition is_secret_unless_allowed :: "string \<Rightarrow> string list \<Rightarrow> bool may_panic" where
  "is_secret_unless_allowed name allowed =
     (let name = trim name
      in if list_ex (\<lambda>ok. eq_ignore_ascii_case ok name) allowed then Some False
         else is_control_plane_secret name)"

definition credential_from_env ::
  "(string \<Rightarrow> string option) \<Rightarrow> string \<Rightarrow> string list \<Rightarrow> string option may_panic"
where
  "credential_from_env env name allowed =
     map_option (\<lambda>secret. if secret then None else env name) (is_secret_unless_allowed name allowed)"

section \<open>Deployment secrets never leave\<close>

text \<open>The rule, stated without the slicing: what the trimmed name is, ignoring case.\<close>

definition names_secret :: "string \<Rightarrow> bool" where
  "names_secret name \<longleftrightarrow>
     to_ascii_lowercase name \<notin> to_ascii_lowercase ` set ALLOWED \<and>
     (to_ascii_lowercase name \<in> to_ascii_lowercase ` set DENIED \<or>
      prefix (to_ascii_lowercase PREFIX) (to_ascii_lowercase name))"

lemma take_prefix_lower:
  "length p \<le> length s \<Longrightarrow>
    (to_ascii_lowercase (take (length p) s) = to_ascii_lowercase p) \<longleftrightarrow>
      prefix (to_ascii_lowercase p) (to_ascii_lowercase s)"
  unfolding to_ascii_lowercase_def take_map [symmetric] prefix_def
  by (metis append_eq_conv_conj append_take_drop_id length_map)

lemma length_PREFIX: "length PREFIX = 7"
  by (simp add: PREFIX_def)

lemma is_control_plane_secret_eq:
  "is_control_plane_secret name =
     (if to_ascii_lowercase (trim name) \<in> to_ascii_lowercase ` (set ALLOWED \<union> set DENIED) \<or>
         is_char_boundary (trim name) (length PREFIX) \<or> length (trim name) < length PREFIX
      then Some (names_secret (trim name)) else None)"
proof -
  have ex: "list_ex (\<lambda>x. eq_ignore_ascii_case x n) xs \<longleftrightarrow>
      to_ascii_lowercase n \<in> to_ascii_lowercase ` set xs" for n xs
    by (auto simp: list_ex_iff eq_ignore_ascii_case_def intro: rev_image_eqI)
  have short: "\<not> prefix (to_ascii_lowercase PREFIX) (to_ascii_lowercase n)"
    if "length n < length PREFIX" for n
    using that prefix_length_le by (fastforce simp: to_ascii_lowercase_def)
  have pre: "eq_ignore_ascii_case (take (length PREFIX) n) PREFIX \<longleftrightarrow>
      prefix (to_ascii_lowercase PREFIX) (to_ascii_lowercase n)" if "length PREFIX \<le> length n" for n
    using take_prefix_lower [OF that] by (simp add: eq_ignore_ascii_case_def)
  show ?thesis
    unfolding is_control_plane_secret_def Let_def ex names_secret_def image_Un Un_iff slice_to_def
    by (cases "to_ascii_lowercase (trim name) \<in> to_ascii_lowercase ` set ALLOWED";
        cases "to_ascii_lowercase (trim name) \<in> to_ascii_lowercase ` set DENIED";
        cases "length PREFIX \<le> length (trim name)")
      (simp_all add: pre short)
qed

text \<open>
  A deployment secret is never handed out as an outbound credential: whatever the environment
  holds, a name that reads (trimmed, ignoring case) as one of the listed variables or starts with
  \<open>ROLTER_\<close> yields no value, unless the caller's purpose documents that very variable.
\<close>

theorem secret_never_read:
  assumes "names_secret (trim (trim name))"
    and "to_ascii_lowercase (trim name) \<notin> to_ascii_lowercase ` set allowed"
  shows "credential_from_env env name allowed \<noteq> Some (Some v)"
proof -
  have "\<not> list_ex (\<lambda>ok. eq_ignore_ascii_case ok (trim name)) allowed"
    using assms(2) by (auto simp: list_ex_iff eq_ignore_ascii_case_def intro: rev_image_eqI)
  with assms(1) show ?thesis
    by (auto simp: credential_from_env_def is_secret_unless_allowed_def is_control_plane_secret_eq
        Let_def split: if_splits)
qed

lemma secret_never_read_witness:
  "credential_from_env (\<lambda>_. Some ''hunter2'') '' rolter_kek '' [''ROLTER_PLUGIN_TOKEN''] \<noteq> Some (Some ''hunter2'')"
proof (rule secret_never_read)
  show "names_secret (trim (trim '' rolter_kek ''))"
    by code_simp
  show "to_ascii_lowercase (trim '' rolter_kek '') \<notin> to_ascii_lowercase ` set [''ROLTER_PLUGIN_TOKEN'']"
    by code_simp
qed

text \<open>
  The check panics instead of answering exactly when the trimmed name is neither listed nor
  shorter than the prefix and a multi-byte character straddles the seventh byte; for a name of ASCII
  characters it always answers.
\<close>

theorem secret_check_panics:
  "(is_control_plane_secret name = None \<longleftrightarrow>
      to_ascii_lowercase (trim name) \<notin> to_ascii_lowercase ` (set ALLOWED \<union> set DENIED) \<and>
      7 < length (trim name) \<and> 128 \<le> byte (trim name ! 7) \<and> byte (trim name ! 7) < 192) \<and>
   is_control_plane_secret (''KEY_AB'' @ map char_of [195, 169 :: nat]) = None"
proof
  show "is_control_plane_secret name = None \<longleftrightarrow>
      to_ascii_lowercase (trim name) \<notin> to_ascii_lowercase ` (set ALLOWED \<union> set DENIED) \<and>
      7 < length (trim name) \<and> 128 \<le> byte (trim name ! 7) \<and> byte (trim name ! 7) < 192"
    by (auto simp: is_control_plane_secret_eq is_char_boundary_def length_PREFIX)
  show "is_control_plane_secret (''KEY_AB'' @ map char_of [195, 169 :: nat]) = None"
    by code_simp
qed

end
