(* ===== verification/Route_Config.thy ===== *)
theory Route_Config
  imports Failover Secret_Env Ieee_Float
begin

text \<open>
  The configuration a request is routed by, from \<open>rolter-core/src/config.rs\<close>: targets, variants and
  routes with their parameter policy and limits, tenancy, provider keys, and the retry and cooldown
  tuning. Random draws are arguments; \<open>f64\<close> arithmetic is rounded as in \<open>Ieee_Float\<close>.
\<close>

section \<open>Data\<close>

datatype balancing_strategy =
    RoundRobin | Random | PowerOfTwo | ConsistentHash | CacheAware | Weighted | Pipeline | Cheapest
  | Fastest | PreciseCacheAware | LmcacheAware | Adaptive | LoraAware | PredictedLatency
  | UnknownStrategy

record target =
  tg_provider :: string
  tg_model :: "string option"
  tg_weight :: nat
  tg_takes_over :: "failure_class list"

definition default_weight :: nat where
  "default_weight = 1"

definition target_default :: target where
  "target_default =
     \<lparr>tg_provider = [], tg_model = None, tg_weight = default_weight, tg_takes_over = []\<rparr>"

definition is_restricted :: "target \<Rightarrow> bool" where
  "is_restricted t = (tg_takes_over t \<noteq> [])"

record model_limits =
  ml_timeout_secs :: "nat option"
  ml_retries :: "nat option"
  ml_output_tokens :: "nat option"
  ml_rpm :: "nat option"
  ml_tpm :: "nat option"
  ml_concurrency :: "nat option"

definition MAX_ROUTE_THROUGHPUT :: nat where
  "MAX_ROUTE_THROUGHPUT = 10000000"

definition MAX_ROUTE_RETRIES :: nat where
  "MAX_ROUTE_RETRIES = 10"

record tenancy =
  tn_org_id :: string
  tn_project_id :: "string option"

record model_visibility =
  mv_minimum_role :: "string option"
  mv_allowed_team_ids :: "string list"
  mv_allowed_key_ids :: "string list"
  mv_allowed_user_ids :: "string list"
  mv_project_only :: bool

datatype override_mode = ModeAllow | ModeDeny | ModeUnknown

record param_policy =
  pp_mode :: override_mode
  pp_allow :: "string list"
  pp_deny :: "string list"

record variant =
  vr_name :: string
  vr_weight :: nat
  vr_targets :: "target list"
  vr_params :: "(string, json) hash_map"

record route_cache =
  rc_enabled :: bool
  rc_ttl_secs :: "nat option"
  rc_per_key :: bool

text \<open>
  A route with the parts of its advanced settings the gateway's decisions read: the limits and the
  visibility.
\<close>

record model_route =
  mr_model :: string
  mr_strategy :: balancing_strategy
  mr_targets :: "target list"
  mr_params :: "(string, json) hash_map"
  mr_param_policy :: param_policy
  mr_limits :: model_limits
  mr_visibility :: model_visibility
  mr_variants :: "variant list"
  mr_cache :: "route_cache option"
  mr_tenancy :: "tenancy option"

section \<open>Limits\<close>

definition cap_problem :: "string \<times> nat option \<times> nat \<Rightarrow> bool" where
  "cap_problem c =
     (case c of (_, v, ceil) \<Rightarrow> (case v of None \<Rightarrow> False | Some n \<Rightarrow> n = 0 \<or> ceil < n))"

text \<open>A problem is reported as the name and the ceil its sentence mentions.\<close>

definition throughput_problems :: "model_limits \<Rightarrow> (string \<times> nat) list" where
  "throughput_problems l =
     map (\<lambda>(name, _, ceil). (name, ceil))
       (filter cap_problem
          [(''rpm'', ml_rpm l, MAX_ROUTE_THROUGHPUT),
           (''tpm'', ml_tpm l, u32_max),
           (''concurrency'', ml_concurrency l, MAX_ROUTE_THROUGHPUT)])"

definition usable_cap :: "nat option \<Rightarrow> nat \<Rightarrow> nat option" where
  "usable_cap v ceil =
     (case v of None \<Rightarrow> None | Some n \<Rightarrow> if n = 0 \<or> ceil < n then None else Some n)"

definition drop_unusable_throughput :: "model_limits \<Rightarrow> (string \<times> nat) list \<times> model_limits" where
  "drop_unusable_throughput l =
     (let problems = throughput_problems l
      in (problems,
          if problems \<noteq> [] then
            l\<lparr>ml_rpm := usable_cap (ml_rpm l) MAX_ROUTE_THROUGHPUT,
              ml_tpm := usable_cap (ml_tpm l) u32_max,
              ml_concurrency := usable_cap (ml_concurrency l) MAX_ROUTE_THROUGHPUT\<rparr>
          else l))"

definition max_retries :: "model_limits \<Rightarrow> nat \<Rightarrow> nat" where
  "max_retries l def = (case ml_retries l of None \<Rightarrow> def | Some n \<Rightarrow> min n MAX_ROUTE_RETRIES)"

section \<open>Tenancy\<close>

definition tenancy_admits :: "tenancy option \<Rightarrow> string \<Rightarrow> bool" where
  "tenancy_admits t key_org =
     (case t of None \<Rightarrow> True | Some owner \<Rightarrow> key_org = [] \<or> tn_org_id owner = key_org)"

definition admits_scoped :: "tenancy option \<Rightarrow> string \<Rightarrow> string \<Rightarrow> bool" where
  "admits_scoped t key_org key_project =
     (if \<not> tenancy_admits t key_org then False
      else
        case Option.bind t tn_project_id of
          Some scope \<Rightarrow> key_org = [] \<or> scope = key_project
        | None \<Rightarrow> True)"

section \<open>Weighted draws\<close>

fun pick_share :: "nat \<Rightarrow> nat \<Rightarrow> nat \<Rightarrow> nat list \<Rightarrow> nat option" where
  "pick_share point i acc [] = None"
| "pick_share point i acc (w # ws) =
     (if point < acc + w then Some i else pick_share point (Suc i) (acc + w) ws)"

definition clamp01 :: "rat \<Rightarrow> rat" where
  "clamp01 r = (if r < 0 then 0 else if 1 < r then 1 else r)"

definition weighted_index :: "nat list \<Rightarrow> rat \<Rightarrow> nat option" where
  "weighted_index weights r =
     (if weights = [] then None
      else
        let shares = (if list_all (\<lambda>w. w = 0) weights then map (\<lambda>_. 1) weights else weights);
            total = sum_list shares;
            point = nat \<lfloor>f64 (clamp01 r * f64 (of_nat total))\<rfloor>;
            point = (if total \<le> point then total - 1 else point)
        in case pick_share point 0 0 shares of
             Some i \<Rightarrow> Some i
           | None \<Rightarrow> Some (length shares - 1))"

section \<open>Routes\<close>

definition may_override :: "param_policy \<Rightarrow> string \<Rightarrow> bool" where
  "may_override p param =
     (case pp_mode p of
        ModeAllow \<Rightarrow> param \<notin> set (pp_deny p)
      | ModeDeny \<Rightarrow> param \<in> set (pp_allow p)
      | ModeUnknown \<Rightarrow> param \<in> set (pp_allow p))"

definition apply_default ::
  "param_policy \<Rightarrow> (string \<times> json) list \<Rightarrow> string \<times> json \<Rightarrow> (string \<times> json) list"
where
  "apply_default policy obj kv =
     (case kv of
        (key, def) \<Rightarrow>
          let caller_sent = (hm_get obj key \<noteq> None)
          in if \<not> caller_sent \<or> \<not> may_override policy key then hm_insert key def obj else obj)"

definition apply_params :: "model_route \<Rightarrow> json \<Rightarrow> json" where
  "apply_params r body =
     (if mr_params r = [] then body
      else
        case body of
          JObj obj \<Rightarrow> JObj (foldl (apply_default (mr_param_policy r)) obj (mr_params r))
        | _ \<Rightarrow> body)"

definition apply_variant_params :: "model_route \<Rightarrow> variant \<Rightarrow> json \<Rightarrow> json" where
  "apply_variant_params r v body =
     (if mr_params r = [] \<and> vr_params v = [] then body
      else
        case body of
          JObj obj \<Rightarrow>
            let effective = foldl (\<lambda>m (key, val). hm_insert key val m) (mr_params r) (vr_params v)
            in JObj (foldl (apply_default (mr_param_policy r)) obj effective)
        | _ \<Rightarrow> body)"

definition has_variants :: "model_route \<Rightarrow> bool" where
  "has_variants r = (mr_variants r \<noteq> [])"

definition every_target :: "model_route \<Rightarrow> target list" where
  "every_target r = mr_targets r @ concat (map vr_targets (mr_variants r))"

definition dialled_targets :: "target list \<Rightarrow> variant list \<Rightarrow> target list" where
  "dialled_targets pool variants =
     (if variants = [] then pool else concat (map vr_targets variants))"

definition all_restricted :: "bool list \<Rightarrow> bool" where
  "all_restricted flags =
     (case flags of [] \<Rightarrow> False | first # rest \<Rightarrow> first \<and> list_all (\<lambda>r. r) rest)"

definition only_restricted_dialled :: "bool list \<Rightarrow> bool list list \<Rightarrow> bool" where
  "only_restricted_dialled pool variants =
     (if variants = [] then all_restricted pool else all_restricted (concat variants))"

definition only_restricted_targets_dialled :: "target list \<Rightarrow> variant list \<Rightarrow> bool" where
  "only_restricted_targets_dialled pool variants =
     only_restricted_dialled (map is_restricted pool)
       (map (\<lambda>v. map is_restricted (vr_targets v)) variants)"

definition route_takes_over_problems :: "model_route \<Rightarrow> string list" where
  "route_takes_over_problems r =
     duplicate_class_problems (mr_model r)
       (map (\<lambda>t. (tg_provider t, tg_takes_over t)) (every_target r)) @
     (if only_restricted_targets_dialled (mr_targets r) (mr_variants r)
      then [all_targets_restricted (mr_model r)] else [])"

definition takes_over_refusals :: "model_route \<Rightarrow> bool" where
  "takes_over_refusals r =
     list_ex (\<lambda>t. list_ex (\<lambda>c. fc_kind c = Refusal) (tg_takes_over t)) (every_target r)"

definition cache_enabled :: "model_route \<Rightarrow> bool" where
  "cache_enabled r = (case mr_cache r of None \<Rightarrow> False | Some c \<Rightarrow> rc_enabled c)"

definition cache_ttl_secs :: "model_route \<Rightarrow> nat \<Rightarrow> nat" where
  "cache_ttl_secs r def =
     (case Option.bind (mr_cache r) rc_ttl_secs of None \<Rightarrow> def | Some t \<Rightarrow> t)"

definition cache_per_key :: "model_route \<Rightarrow> bool" where
  "cache_per_key r = (case mr_cache r of None \<Rightarrow> False | Some c \<Rightarrow> rc_per_key c)"

definition sample_variant :: "model_route \<Rightarrow> rat \<Rightarrow> nat option" where
  "sample_variant r draw = weighted_index (map vr_weight (mr_variants r)) draw"

definition fallback_order :: "model_route \<Rightarrow> nat \<Rightarrow> nat list" where
  "fallback_order r primary =
     (let n = length (mr_variants r)
      in (if primary < n then [primary] else []) @ filter (\<lambda>i. i \<noteq> primary) [0..<n])"

section \<open>Provider keys\<close>

record api_key_config =
  ak_key :: "string option"
  ak_env :: "string option"
  ak_weight :: nat

definition api_key_resolve ::
  "(string \<Rightarrow> string option) \<Rightarrow> api_key_config \<Rightarrow> string option may_panic"
where
  "api_key_resolve env k =
     (case ak_key k of
        Some key \<Rightarrow> Some (Some key)
      | None \<Rightarrow> (case ak_env k of None \<Rightarrow> Some None | Some e \<Rightarrow> credential_from_env env e []))"

record provider_keys =
  pk_api_keys :: "api_key_config list"
  pk_api_key :: "string option"
  pk_api_key_env :: "string option"

fun first_resolved ::
  "(string \<Rightarrow> string option) \<Rightarrow> api_key_config list \<Rightarrow> string option may_panic"
where
  "first_resolved env [] = Some None"
| "first_resolved env (k # ks) =
     (case api_key_resolve env k of
        None \<Rightarrow> None
      | Some (Some s) \<Rightarrow> Some (Some s)
      | Some None \<Rightarrow> first_resolved env ks)"

definition resolve_api_key ::
  "(string \<Rightarrow> string option) \<Rightarrow> provider_keys \<Rightarrow> string option may_panic"
where
  "resolve_api_key env p =
     (if pk_api_keys p \<noteq> [] then first_resolved env (pk_api_keys p)
      else
        case pk_api_key p of
          Some k \<Rightarrow> Some (Some k)
        | None \<Rightarrow>
            (case pk_api_key_env p of
               None \<Rightarrow> Some None
             | Some e \<Rightarrow> credential_from_env env e []))"

definition declares_credential :: "provider_keys \<Rightarrow> bool" where
  "declares_credential p =
     (pk_api_keys p \<noteq> [] \<or> pk_api_key p \<noteq> None \<or> pk_api_key_env p \<noteq> None)"

fun resolve_all ::
  "(string \<Rightarrow> string option) \<Rightarrow> api_key_config list \<Rightarrow> (string \<times> nat) list may_panic"
where
  "resolve_all env [] = Some []"
| "resolve_all env (k # ks) =
     (case api_key_resolve env k of
        None \<Rightarrow> None
      | Some s \<Rightarrow>
          (case resolve_all env ks of
             None \<Rightarrow> None
           | Some rest \<Rightarrow>
               Some ((case s of None \<Rightarrow> [] | Some key \<Rightarrow> [(key, ak_weight k)]) @ rest)))"

definition resolve_api_keys ::
  "(string \<Rightarrow> string option) \<Rightarrow> provider_keys \<Rightarrow> (string \<times> nat) list may_panic"
where
  "resolve_api_keys env p =
     (if pk_api_keys p = [] then
        map_option (\<lambda>k. case k of None \<Rightarrow> [] | Some k \<Rightarrow> [(k, 1)]) (resolve_api_key env p)
      else resolve_all env (pk_api_keys p))"

definition pick_key_from ::
  "(string \<times> nat) list \<Rightarrow> rat \<Rightarrow> (nat \<Rightarrow> bool) \<Rightarrow> (nat \<times> string) option"
where
  "pick_key_from keys r blocked =
     (if keys = [] then None
      else if length keys = 1 then Some (0, fst (last keys))
      else
        let opn = filter (\<lambda>i. \<not> blocked i) [0..<length keys];
            pool = (if opn = [] then [0..<length keys] else opn)
        in case weighted_index (map (\<lambda>i. snd (keys ! i)) pool) r of
             None \<Rightarrow> None
           | Some picked \<Rightarrow> let i = pool ! picked in Some (i, fst (keys ! i)))"

definition pick_api_key_indexed ::
  "(string \<Rightarrow> string option) \<Rightarrow> provider_keys \<Rightarrow> rat \<Rightarrow> (nat \<Rightarrow> bool) \<Rightarrow> (nat \<times> string) option may_panic"
where
  "pick_api_key_indexed env p r blocked =
     map_option (\<lambda>keys. pick_key_from keys r blocked) (resolve_api_keys env p)"

definition pick_api_key ::
  "(string \<Rightarrow> string option) \<Rightarrow> provider_keys \<Rightarrow> rat \<Rightarrow> string option may_panic"
where
  "pick_api_key env p r = map_option (map_option snd) (pick_api_key_indexed env p r (\<lambda>_. False))"

section \<open>Retry and cooldown tuning\<close>

record retry_config =
  rt_max_retries :: nat
  rt_base_backoff_ms :: nat
  rt_max_backoff_ms :: nat

definition retry_default :: retry_config where
  "retry_default = \<lparr>rt_max_retries = 2, rt_base_backoff_ms = 100, rt_max_backoff_ms = 2000\<rparr>"

definition backoff_ms :: "retry_config \<Rightarrow> nat \<Rightarrow> rat \<Rightarrow> nat" where
  "backoff_ms c attempt rand01 =
     (let exp = saturating_mul u64_max (rt_base_backoff_ms c) (2 ^ (min attempt 16 - 1));
          capped = min exp (rt_max_backoff_ms c)
      in min u64_max (nat \<lfloor>f64 (f64 (of_nat capped) * clamp01 rand01)\<rfloor>))"

record cooldown_config =
  cc_base_secs :: nat
  cc_max_secs :: nat

definition cooldown_default :: cooldown_config where
  "cooldown_default = \<lparr>cc_base_secs = 5, cc_max_secs = 300\<rparr>"

definition cooldown_enabled :: "cooldown_config \<Rightarrow> bool" where
  "cooldown_enabled c = (0 < cc_base_secs c)"

definition duration_secs :: "cooldown_config \<Rightarrow> nat option \<Rightarrow> nat" where
  "duration_secs c retry_after =
     (case retry_after of
        Some ra \<Rightarrow> min (max ra (cc_base_secs c)) (cc_max_secs c)
      | None \<Rightarrow> cc_base_secs c)"

section \<open>Draws\<close>

lemma pick_share_Some:
  "acc \<le> point \<Longrightarrow>
    pick_share point i acc ws = Some j \<longleftrightarrow>
      i \<le> j \<and> j - i < length ws \<and> acc + sum_list (take (j - i) ws) \<le> point \<and>
      point < acc + sum_list (take (Suc (j - i)) ws)"
proof (induction point i acc ws arbitrary: j rule: pick_share.induct)
  case (2 point i acc w ws)
  show ?case
  proof (cases "point < acc + w")
    case True
    with 2(2) show ?thesis
      by (cases "j - i") auto
  next
    case False
    with 2 have IH: "pick_share point (Suc i) (acc + w) ws = Some j \<longleftrightarrow>
      Suc i \<le> j \<and> j - Suc i < length ws \<and> acc + w + sum_list (take (j - Suc i) ws) \<le> point \<and>
      point < acc + w + sum_list (take (Suc (j - Suc i)) ws)" by simp
    show ?thesis
    proof (cases "Suc i \<le> j")
      case True
      then have "j - i = Suc (j - Suc i)" by simp
      with True False IH show ?thesis by (simp add: add.assoc)
    next
      case less: False
      then have "j - i = 0" by simp
      with False IH less show ?thesis by auto
    qed
  qed
qed simp

lemma pick_share_total: "acc \<le> point \<Longrightarrow> point < acc + sum_list ws \<Longrightarrow> pick_share point i acc ws \<noteq> None"
  by (induction point i acc ws rule: pick_share.induct) (auto simp: add.assoc)

definition shares_of :: "nat list \<Rightarrow> nat list" where
  "shares_of weights = (if list_all (\<lambda>w. w = 0) weights then map (\<lambda>_. 1) weights else weights)"

definition draw_point :: "nat list \<Rightarrow> rat \<Rightarrow> nat" where
  "draw_point weights r =
     (let total = sum_list (shares_of weights);
          point = nat \<lfloor>f64 (clamp01 r * f64 (of_nat total))\<rfloor>
      in if total \<le> point then total - 1 else point)"

lemma length_shares_of [simp]: "length (shares_of weights) = length weights"
  by (simp add: shares_of_def)

lemma sum_shares_pos: "weights \<noteq> [] \<Longrightarrow> 0 < sum_list (shares_of weights)"
  by (auto simp: shares_of_def list_all_iff neq_Nil_conv) (metis gr0I)

lemma draw_point_less: "weights \<noteq> [] \<Longrightarrow> draw_point weights r < sum_list (shares_of weights)"
  using sum_shares_pos [of weights] by (auto simp: draw_point_def Let_def)

lemma weighted_index_eq:
  "weights \<noteq> [] \<Longrightarrow> weighted_index weights r = pick_share (draw_point weights r) 0 0 (shares_of weights)"
proof -
  assume "weights \<noteq> []"
  then have "weighted_index weights r =
      (case pick_share (draw_point weights r) 0 0 (shares_of weights) of
         Some i \<Rightarrow> Some i | None \<Rightarrow> Some (length (shares_of weights) - 1))"
    unfolding weighted_index_def shares_of_def [symmetric] draw_point_def Let_def by simp
  moreover have "pick_share (draw_point weights r) 0 0 (shares_of weights) \<noteq> None"
    using pick_share_total draw_point_less [OF \<open>weights \<noteq> []\<close>] by simp
  ultimately show ?thesis by (auto split: option.splits)
qed

lemma weighted_index_iff:
  assumes "weights \<noteq> []"
  shows "weighted_index weights r = Some i \<longleftrightarrow>
    i < length weights \<and> sum_list (take i (shares_of weights)) \<le> draw_point weights r \<and>
    draw_point weights r < sum_list (take (Suc i) (shares_of weights))"
  by (simp add: weighted_index_eq [OF assms] pick_share_Some)

lemma weighted_index_total:
  assumes "weights \<noteq> []"
  obtains i where "weighted_index weights r = Some i" "i < length weights"
proof -
  have "pick_share (draw_point weights r) 0 0 (shares_of weights) \<noteq> None"
    using pick_share_total draw_point_less [OF assms] by simp
  then obtain i where "weighted_index weights r = Some i"
    unfolding weighted_index_eq [OF assms] by auto
  with weighted_index_iff [OF assms] that show thesis by blast
qed

lemma weighted_index_positive:
  assumes "weighted_index weights r = Some i" and "\<exists>w\<in>set weights. 0 < w"
  shows "0 < weights ! i"
proof -
  from assms(2) have ne: "weights \<noteq> []" and sh: "shares_of weights = weights"
    by (auto simp: shares_of_def list_all_iff)
  from assms(1) have "i < length weights" "sum_list (take i weights) < sum_list (take (Suc i) weights)"
    using weighted_index_iff [OF ne, of r i] by (auto simp: sh)
  then show ?thesis by (simp add: take_Suc_conv_app_nth)
qed

text \<open>
  A weighted draw. For every non-empty list of weights and every draw, also one outside the
  unit interval, an index of the list is chosen; it is the one whose share of the total contains the
  drawn point; and an index of weight zero is chosen only when all weights are zero.
\<close>

theorem weighted_index_spec:
  assumes "weights \<noteq> []"
  shows "\<exists>i<length weights. weighted_index weights r = Some i \<and>
    sum_list (take i (shares_of weights)) \<le> draw_point weights r \<and>
    draw_point weights r < sum_list (take (Suc i) (shares_of weights)) \<and>
    ((\<exists>w\<in>set weights. 0 < w) \<longrightarrow> 0 < weights ! i)"
proof -
  obtain i where "weighted_index weights r = Some i" "i < length weights"
    using assms by (rule weighted_index_total)
  then show ?thesis
    using weighted_index_iff [OF assms, of r i] weighted_index_positive [of weights r i] by blast
qed

lemma weighted_index_spec_witness:
  "\<exists>i<length [0, 3, 1]. weighted_index [0, 3, 1] (1 / 2) = Some i \<and> 0 < [0, 3, 1 :: nat] ! i"
  using weighted_index_spec [of "[0, 3, 1]" "1 / 2"] by auto

section \<open>Provider keys\<close>

lemma pick_key_from_multi:
  fixes keys :: "(string \<times> nat) list" and blocked :: "nat \<Rightarrow> bool"
  assumes "1 < length keys"
  defines "opn \<equiv> filter (\<lambda>i. \<not> blocked i) [0..<length keys]"
  defines "pool \<equiv> (if opn = [] then [0..<length keys] else opn)"
  obtains k where "k < length pool" "pick_key_from keys r blocked = Some (pool ! k, fst (keys ! (pool ! k)))"
    "weighted_index (map (\<lambda>i. snd (keys ! i)) pool) r = Some k"
proof -
  have "pool \<noteq> []"
    using assms(1) by (auto simp: pool_def)
  then obtain k where k: "weighted_index (map (\<lambda>i. snd (keys ! i)) pool) r = Some k" "k < length pool"
    by (metis weighted_index_total length_map map_is_Nil_conv)
  have "keys \<noteq> []" "length keys \<noteq> 1"
    using assms(1) by auto
  then have "pick_key_from keys r blocked = Some (pool ! k, fst (keys ! (pool ! k)))"
    using k(1) unfolding pick_key_from_def opn_def [symmetric] pool_def [symmetric] Let_def by simp
  with k that show thesis by blast
qed

text \<open>
  A provider with keys always yields one, with its own index: never a parked key while another is
  open, a parked one only when all are (fail open), and among those considered never one of weight
  zero while another has a positive weight.
\<close>

theorem pick_key_spec:
  assumes "keys \<noteq> []"
  shows "\<exists>i<length keys. pick_key_from keys r blocked = Some (i, fst (keys ! i)) \<and>
    (1 < length keys \<and> (\<exists>j<length keys. \<not> blocked j) \<longrightarrow> \<not> blocked i) \<and>
    (1 < length keys \<and> (\<exists>j<length keys. \<not> blocked j \<and> 0 < snd (keys ! j)) \<longrightarrow> 0 < snd (keys ! i))"
proof (cases "1 < length keys")
  case False
  with assms obtain k w where "keys = [(k, w)]"
    by (cases keys) auto
  then show ?thesis by (simp add: pick_key_from_def)
next
  case True
  define opn where "opn = filter (\<lambda>i. \<not> blocked i) [0..<length keys]"
  define pool where "pool = (if opn = [] then [0..<length keys] else opn)"
  obtain k where k: "k < length pool"
    "pick_key_from keys r blocked = Some (pool ! k, fst (keys ! (pool ! k)))"
    "weighted_index (map (\<lambda>i. snd (keys ! i)) pool) r = Some k"
    unfolding pool_def opn_def by (rule pick_key_from_multi [OF True, of blocked r])
  have mem: "pool ! k \<in> set pool" using k(1) by simp
  have set: "set pool = (if \<exists>j<length keys. \<not> blocked j then {i. i < length keys \<and> \<not> blocked i}
      else {i. i < length keys})"
    by (auto simp: pool_def opn_def filter_empty_conv)
  have pos: "0 < snd (keys ! (pool ! k))" if "\<exists>j\<in>set pool. 0 < snd (keys ! j)"
    using weighted_index_positive [OF k(3)] that k(1) by auto
  have lt: "pool ! k < length keys" and nb: "(\<exists>j<length keys. \<not> blocked j) \<longrightarrow> \<not> blocked (pool ! k)"
    using mem unfolding set by (simp_all split: if_splits)
  have wt: "(\<exists>j<length keys. \<not> blocked j \<and> 0 < snd (keys ! j)) \<longrightarrow> 0 < snd (keys ! (pool ! k))"
  proof
    assume "\<exists>j<length keys. \<not> blocked j \<and> 0 < snd (keys ! j)"
    then obtain j where j: "j < length keys" "\<not> blocked j" "0 < snd (keys ! j)" by blast
    then have "j \<in> set pool" unfolding set by auto
    with j(3) pos show "0 < snd (keys ! (pool ! k))" by blast
  qed
  show ?thesis
    by (rule exI [of _ "pool ! k"], simp only: lt k(2) simp_thms) (use nb wt in blast)
qed

lemma pick_key_spec_witness:
  "\<exists>i<length [(''a'', 1 :: nat), (''b'', 1)].
     pick_key_from [(''a'', 1), (''b'', 1)] 0 (\<lambda>i. i = 0) = Some (i, fst ([(''a'', 1 :: nat), (''b'', 1)] ! i)) \<and>
     i \<noteq> 0"
proof -
  have "1 < length [(''a'', 1 :: nat), (''b'', 1)] \<and> (\<exists>j<length [(''a'', 1 :: nat), (''b'', 1)]. \<not> j = 0)"
    by (simp, rule exI [of _ 1]) simp
  then show ?thesis
    using pick_key_spec [of "[(''a'', 1), (''b'', 1)]" 0 "\<lambda>i. i = 0"] by blast
qed

section \<open>Parameters\<close>

lemma hm_get_apply_default:
  "hm_get (apply_default p obj (key, def)) k =
     (if k = key \<and> (hm_get obj key = None \<or> \<not> may_override p key) then Some def else hm_get obj k)"
  by (auto simp: apply_default_def Let_def)

lemma hm_get_apply_defaults:
  assumes "hm_wf ds"
  shows "hm_get (foldl (apply_default p) obj ds) k =
    (case hm_get ds k of
       None \<Rightarrow> hm_get obj k
     | Some def \<Rightarrow> if hm_get obj k = None \<or> \<not> may_override p k then Some def else hm_get obj k)"
  using assms
proof (induction ds arbitrary: obj)
  case Nil
  show ?case by simp
next
  case (Cons d ds)
  obtain key def where d: "d = (key, def)" by (cases d)
  from Cons.prems have wf: "hm_wf ds" and "key \<notin> fst ` set ds"
    by (auto simp: d hm_wf_def)
  then have fresh: "hm_get ds key = None"
    by (simp add: hm_get_def map_of_eq_None_iff)
  show ?case
    using Cons.IH [OF wf, of "apply_default p obj d"] fresh
    by (cases "k = key") (auto simp: d hm_get_Cons hm_get_apply_default split: option.splits)
qed

lemma hm_wf_layer: "hm_wf m \<Longrightarrow> hm_wf (foldl (\<lambda>m (key, val). hm_insert key val m) m vs)"
  by (induction vs arbitrary: m) (auto simp: hm.wf_put split: prod.splits)

lemma hm_get_layer:
  assumes "hm_wf vs"
  shows "hm_get (foldl (\<lambda>m (key, val). hm_insert key val m) m vs) k =
    (case hm_get vs k of None \<Rightarrow> hm_get m k | Some v \<Rightarrow> Some v)"
  using assms
proof (induction vs arbitrary: m)
  case (Cons d vs)
  obtain key v where d: "d = (key, v)" by (cases d)
  from Cons.prems have wf: "hm_wf vs" and "key \<notin> fst ` set vs"
    by (auto simp: d hm_wf_def)
  then have "hm_get vs key = None"
    by (simp add: hm_get_def map_of_eq_None_iff)
  with Cons.IH [OF wf] show ?case
    by (auto simp: d hm_get_Cons split: option.splits)
qed simp

text \<open>
  The parameters of a request on a variant: for every parameter the caller's value survives
  exactly when the caller sent one and either no default is configured or the policy lets callers
  override it; otherwise the variant's default, else the route's, is what goes upstream.
\<close>

theorem apply_variant_params_spec:
  assumes "hm_wf (mr_params r)" and "hm_wf (vr_params v)"
  shows "\<exists>obj'. apply_variant_params r v (JObj obj) = JObj obj' \<and>
    (\<forall>k. hm_get obj' k =
       (let def = (case hm_get (vr_params v) k of Some d \<Rightarrow> Some d | None \<Rightarrow> hm_get (mr_params r) k)
        in if def \<noteq> None \<and> (hm_get obj k = None \<or> \<not> may_override (mr_param_policy r) k)
           then def else hm_get obj k))"
proof (cases "mr_params r = [] \<and> vr_params v = []")
  case True
  then show ?thesis
    by (intro exI [of _ obj]) (simp add: apply_variant_params_def)
next
  case False
  define eff where "eff = foldl (\<lambda>m (key, val). hm_insert key val m) (mr_params r) (vr_params v)"
  have eff: "hm_wf eff" "hm_get eff k =
      (case hm_get (vr_params v) k of Some d \<Rightarrow> Some d | None \<Rightarrow> hm_get (mr_params r) k)" for k
    using hm_get_layer [OF assms(2), of "mr_params r" k] hm_wf_layer [OF assms(1)]
    by (auto simp: eff_def split: option.splits)
  have "apply_variant_params r v (JObj obj) = JObj (foldl (apply_default (mr_param_policy r)) obj eff)"
    using False by (auto simp: apply_variant_params_def eff_def)
  then show ?thesis
    by (intro exI conjI, assumption)
      (auto simp: hm_get_apply_defaults [OF eff(1)] eff(2) Let_def split: option.splits)
qed

definition example_route :: model_route where
  "example_route =
     \<lparr>mr_model = ''gpt'', mr_strategy = RoundRobin, mr_targets = [],
      mr_params = [(''temperature'', JNum 1), (''seed'', JNum 7)],
      mr_param_policy = \<lparr>pp_mode = ModeAllow, pp_allow = [], pp_deny = [''seed'']\<rparr>,
      mr_limits = \<lparr>ml_timeout_secs = None, ml_retries = None, ml_output_tokens = None, ml_rpm = None,
                   ml_tpm = None, ml_concurrency = None\<rparr>,
      mr_visibility = \<lparr>mv_minimum_role = None, mv_allowed_team_ids = [], mv_allowed_key_ids = [],
                       mv_allowed_user_ids = [], mv_project_only = False\<rparr>,
      mr_variants =
        [\<lparr>vr_name = ''a'', vr_weight = 1, vr_targets = [], vr_params = [(''temperature'', JNum 0)]\<rparr>,
         \<lparr>vr_name = ''b'', vr_weight = 3, vr_targets = [], vr_params = []\<rparr>],
      mr_cache = None, mr_tenancy = None\<rparr>"

lemma apply_variant_params_spec_witness:
  "\<exists>obj'. apply_variant_params example_route (mr_variants example_route ! 0)
       (JObj [(''seed'', JNum 3), (''temperature'', JNum 2)]) = JObj obj' \<and>
     hm_get obj' ''seed'' = Some (JNum 7) \<and> hm_get obj' ''temperature'' = Some (JNum 2)"
proof -
  have "hm_wf (mr_params example_route)" "hm_wf (vr_params (mr_variants example_route ! 0))"
    by (simp_all add: example_route_def hm_wf_def)
  from apply_variant_params_spec [OF this, of "[(''seed'', JNum 3), (''temperature'', JNum 2)]"]
  show ?thesis
    by (auto simp: example_route_def hm_get_def may_override_def Let_def)
qed

section \<open>Fallback order, limits and backoff\<close>

text \<open>
  The order variants are tried in is a permutation of all of them, led by the sampled one and
  otherwise in declared order.
\<close>

theorem fallback_order_spec:
  assumes "primary < length (mr_variants r)"
  shows "distinct (fallback_order r primary) \<and> set (fallback_order r primary) = {..<length (mr_variants r)} \<and>
    hd (fallback_order r primary) = primary \<and> sorted (tl (fallback_order r primary))"
  using assms by (auto simp: fallback_order_def Let_def sorted_wrt_filter)

lemma fallback_order_spec_witness: "hd (fallback_order example_route 1) = 1"
  using fallback_order_spec [of 1 example_route] by (simp add: example_route_def)

lemma throughput_problems_usable:
  "throughput_problems l = [] \<longleftrightarrow>
     usable_cap (ml_rpm l) MAX_ROUTE_THROUGHPUT = ml_rpm l \<and> usable_cap (ml_tpm l) u32_max = ml_tpm l \<and>
     usable_cap (ml_concurrency l) MAX_ROUTE_THROUGHPUT = ml_concurrency l"
  by (auto simp: throughput_problems_def cap_problem_def usable_cap_def split: option.splits)

lemma usable_idem [simp]: "usable_cap (usable_cap v c) c = usable_cap v c"
  by (simp add: usable_cap_def split: option.splits)

text \<open>
  Sanitising the throughput caps leaves none that would refuse every request or exceed its
  ceiling, keeps every usable cap as it was, and never touches the other limits; retries a route may
  ask for stop at ten.
\<close>

theorem drop_unusable_throughput_spec:
  "throughput_problems (snd (drop_unusable_throughput l)) = [] \<and>
   ml_rpm (snd (drop_unusable_throughput l)) = usable_cap (ml_rpm l) MAX_ROUTE_THROUGHPUT \<and>
   ml_tpm (snd (drop_unusable_throughput l)) = usable_cap (ml_tpm l) u32_max \<and>
   ml_concurrency (snd (drop_unusable_throughput l)) = usable_cap (ml_concurrency l) MAX_ROUTE_THROUGHPUT \<and>
   ml_retries (snd (drop_unusable_throughput l)) = ml_retries l \<and>
   max_retries l def \<le> max def 10"
proof -
  have "max_retries l def \<le> max def 10"
    by (simp add: max_retries_def MAX_ROUTE_RETRIES_def split: option.splits) linarith?
  then show ?thesis
    by (cases "throughput_problems l = []")
      (simp_all add: drop_unusable_throughput_def Let_def throughput_problems_usable)
qed

lemma clamp01_bounds: "0 \<le> clamp01 r" "clamp01 r \<le> 1"
  by (simp_all add: clamp01_def)

text \<open>
  The jittered backoff of a retry never exceeds the configured ceiling nor the exponential
  envelope, for every attempt number and every draw, with the \<open>f64\<close> rounding of the product. (The
  ceiling is below 2 to the 53 milliseconds, which every duration in use is.)
\<close>

theorem backoff_bounded_by_ceiling:
  assumes "rt_max_backoff_ms c < 2 ^ 53"
  shows "backoff_ms c attempt draw \<le> rt_max_backoff_ms c \<and>
    backoff_ms c attempt draw \<le> rt_base_backoff_ms c * 2 ^ (min attempt 16 - 1)"
proof -
  define capped where "capped = min (saturating_mul u64_max (rt_base_backoff_ms c) (2 ^ (min attempt 16 - 1)))
      (rt_max_backoff_ms c)"
  have "capped < 2 ^ 53"
    using assms by (simp add: capped_def)
  then have fl: "f64 (of_nat capped) = of_nat capped" and rep: "representable 53 (of_nat capped)"
    using f64.rnd_of_nat f64.rnd_is_float [of "of_nat capped"] by simp_all
  have "of_nat capped * clamp01 draw \<le> of_nat capped"
    using clamp01_bounds [of draw] by (simp add: mult_left_le)
  then have "f64 (of_nat capped * clamp01 draw) \<le> of_nat capped"
    using rep f64.rnd_le by blast
  then have "\<lfloor>f64 (of_nat capped * clamp01 draw)\<rfloor> \<le> int capped"
    by linarith
  then have "backoff_ms c attempt draw \<le> capped"
    unfolding backoff_ms_def Let_def capped_def [symmetric] fl by linarith
  then show ?thesis
    by (auto simp: capped_def saturating_mul_def)
qed

lemma backoff_bounded_by_ceiling_witness: "backoff_ms retry_default 5 (99 / 100) \<le> 2000"
  using backoff_bounded_by_ceiling [of retry_default 5 "99 / 100"] by (simp add: retry_default_def)

end
