(* ===== verification/Balancer.thy ===== *)
theory Balancer
  imports Usable Trie Route_Config
begin

text \<open>
  The load-balancing strategies of \<open>rolter-balancer/src/lib.rs\<close>. A strategy's interior-mutable state
  is returned updated. Three things are arguments: the seeded hash of the \<open>ahash\<close> crate (\<open>hs\<close> on
  strings, \<open>hw\<close> on 64-bit values), the random draws (\<open>r1\<close> and \<open>r2\<close> map the size of the range to the
  drawn value), and the pick of the scoring pipelines of \<open>scorer.rs\<close> and \<open>adaptive.rs\<close>, which are
  not modelled here. The locale \<open>load_balancer\<close> is the contract of the trait.
\<close>

section \<open>Requests\<close>

record route_context =
  cx_session_key :: "string option"
  cx_prompt :: "string option"
  cx_prompt_len :: "nat option"
  cx_prompt_digest :: "64 word option"
  cx_token_ids :: "nat list option"
  cx_adapter :: "string option"

definition context_new :: route_context where
  "context_new =
     \<lparr>cx_session_key = None, cx_prompt = None, cx_prompt_len = None, cx_prompt_digest = None,
      cx_token_ids = None, cx_adapter = None\<rparr>"

definition prompt_tokens :: "route_context \<Rightarrow> nat" where
  "prompt_tokens ctx =
     (case cx_token_ids ctx of
        Some ids \<Rightarrow> length ids
      | None \<Rightarrow>
          (case (case cx_prompt_len ctx of Some l \<Rightarrow> Some l | None \<Rightarrow> map_option length (cx_prompt ctx)) of
             None \<Rightarrow> 0
           | Some bytes \<Rightarrow> bytes div 4))"

section \<open>Rotation\<close>

text \<open>The cursor is a 64-bit atomic: \<open>fetch_add\<close> returns the old value and wraps.\<close>

record round_robin =
  rr_n :: nat
  rr_next :: "64 word"

definition round_robin_new :: "nat \<Rightarrow> round_robin" where
  "round_robin_new n = \<lparr>rr_n = n, rr_next = 0\<rparr>"

definition round_robin_pick :: "round_robin \<Rightarrow> nat option \<times> round_robin" where
  "round_robin_pick b =
     (if rr_n b = 0 then (None, b)
      else (Some (unat (rr_next b) mod rr_n b), b\<lparr>rr_next := rr_next b + 1\<rparr>))"

section \<open>Smooth weighted rotation\<close>

record weighted_rr =
  wr_weights :: "int list"
  wr_current :: "int list"
  wr_total :: int

definition weighted_new :: "nat list \<Rightarrow> weighted_rr" where
  "weighted_new weights =
     (let ws = map (\<lambda>w. max (int w) 1) weights
      in \<lparr>wr_weights = ws, wr_current = replicate (length ws) 0, wr_total = sum_list ws\<rparr>)"

fun wrr_loop :: "int list \<Rightarrow> nat list \<Rightarrow> int list \<times> nat \<Rightarrow> int list \<times> nat" where
  "wrr_loop weights [] acc = acc"
| "wrr_loop weights (i # is) (current, best) =
     (let current = current[i := current ! i + weights ! i];
          best = (if current ! i > current ! best then i else best)
      in wrr_loop weights is (current, best))"

definition weighted_pick :: "weighted_rr \<Rightarrow> nat option \<times> weighted_rr" where
  "weighted_pick b =
     (let n = length (wr_weights b)
      in if n = 0 then (None, b)
         else
           let (current, best) = wrr_loop (wr_weights b) [0..<n] (wr_current b, 0)
           in (Some best, b\<lparr>wr_current := current[best := current ! best - wr_total b]\<rparr>))"

section \<open>Random choices\<close>

definition random_pick :: "nat \<Rightarrow> (nat \<Rightarrow> nat) \<Rightarrow> nat option" where
  "random_pick n r1 = (if n = 0 then None else Some (r1 n))"

definition power_of_two_pick :: "nat \<Rightarrow> nat list \<Rightarrow> (nat \<Rightarrow> nat) \<Rightarrow> (nat \<Rightarrow> nat) \<Rightarrow> nat option" where
  "power_of_two_pick n loads r1 r2 =
     (if n = 0 then None
      else if n = 1 then Some 0
      else
        let a = r1 n;
            b = r2 n;
            b = (if b = a then (b + 1) mod n else b)
        in if length loads = n then Some (if loads ! a \<le> loads ! b then a else b) else Some a)"

definition power_of_two_pick_eligible ::
  "nat \<Rightarrow> nat list \<Rightarrow> (nat \<Rightarrow> bool) \<Rightarrow> (nat \<Rightarrow> nat) \<Rightarrow> (nat \<Rightarrow> nat) \<Rightarrow> nat option"
where
  "power_of_two_pick_eligible n loads eligible r1 r2 =
     (if n = 0 then None
      else
        let usable = usable_ask n eligible;
            count = usable_count usable;
            rank_a = r1 count
        in if count = 1 then usable_nth usable rank_a
           else
             let rank_b = r2 (count - 1);
                 rank_b = (if rank_a \<le> rank_b then rank_b + 1 else rank_b)
             in case (usable_nth usable rank_a, usable_nth usable rank_b) of
                  (Some a, Some b) \<Rightarrow>
                    if length loads = n then Some (if loads ! a \<le> loads ! b then a else b)
                    else Some a
                | _ \<Rightarrow> None)"

section \<open>The hash ring\<close>

fun show_nat :: "nat \<Rightarrow> string" where
  "show_nat n =
     (if n < 10 then [char_of (48 + n)] else show_nat (n div 10) @ [char_of (48 + n mod 10)])"

declare show_nat.simps [simp del]

definition VIRTUAL_NODES :: nat where
  "VIRTUAL_NODES = 100"

definition vnode_key :: "nat \<Rightarrow> nat \<Rightarrow> string" where
  "vnode_key i v = show_nat i @ ''#'' @ show_nat v"

record consistent_hash =
  ch_ring :: "(64 word \<times> nat) list"
  ch_n :: nat
  ch_rr :: "64 word"

definition vnodes :: "(string \<Rightarrow> 64 word) \<Rightarrow> nat \<Rightarrow> (64 word \<times> nat) list" where
  "vnodes hs n =
     concat (map (\<lambda>i. map (\<lambda>v. (hs (vnode_key i v), i)) [0..<VIRTUAL_NODES]) [0..<n])"

definition consistent_hash_new :: "(string \<Rightarrow> 64 word) \<Rightarrow> nat \<Rightarrow> consistent_hash" where
  "consistent_hash_new hs n = \<lparr>ch_ring = sort_key fst (vnodes hs n), ch_n = n, ch_rr = 0\<rparr>"

text \<open>\<open>slice::binary_search_by_key\<close>: halving until one element is left, then one comparison.\<close>

fun bisect :: "64 word list \<Rightarrow> 64 word \<Rightarrow> nat \<Rightarrow> nat \<Rightarrow> nat" where
  "bisect xs h base sz =
     (if sz \<le> 1 then base
      else
        let half = sz div 2;
            mid = base + half
        in bisect xs h (if h < xs ! mid then base else mid) (sz - half))"

declare bisect.simps [simp del]

definition binary_search :: "64 word list \<Rightarrow> 64 word \<Rightarrow> nat + nat" where
  "binary_search xs h =
     (if xs = [] then Inl 0
      else
        let base = bisect xs h 0 (length xs)
        in if xs ! base = h then Inr base
           else Inl (base + (if xs ! base < h then 1 else 0)))"

definition pick_hash :: "consistent_hash \<Rightarrow> 64 word \<Rightarrow> nat" where
  "pick_hash b h =
     (case binary_search (map fst (ch_ring b)) h of
        Inr idx \<Rightarrow> snd (ch_ring b ! idx)
      | Inl idx \<Rightarrow> snd (ch_ring b ! (if idx = length (ch_ring b) then 0 else idx)))"

definition consistent_hash_pick ::
  "(string \<Rightarrow> 64 word) \<Rightarrow> (64 word \<Rightarrow> 64 word) \<Rightarrow> consistent_hash \<Rightarrow> route_context \<Rightarrow>
    nat option \<times> consistent_hash"
where
  "consistent_hash_pick hs hw b ctx =
     (if ch_n b = 0 then (None, b)
      else
        case cx_session_key ctx of
          Some key \<Rightarrow> (Some (pick_hash b (hs key)), b)
        | None \<Rightarrow>
            (case cx_prompt_digest ctx of
               Some digest \<Rightarrow> (Some (pick_hash b (hw digest)), b)
             | None \<Rightarrow>
                 (case cx_prompt ctx of
                    Some prompt \<Rightarrow> (Some (pick_hash b (hs prompt)), b)
                  | None \<Rightarrow> (Some (unat (ch_rr b) mod ch_n b), b\<lparr>ch_rr := ch_rr b + 1\<rparr>))))"

section \<open>Cache affinity\<close>

definition BALANCE_ABS_THRESHOLD :: nat where
  "BALANCE_ABS_THRESHOLD = 2"

definition BALANCE_REL_THRESHOLD :: rat where
  "BALANCE_REL_THRESHOLD = 3 / 2"

definition DEFAULT_PREFIX_MAX_NODES :: nat where
  "DEFAULT_PREFIX_MAX_NODES = 1000000"

text \<open>\<open>Iterator::min_by_key\<close>: the first of the smallest.\<close>

fun min_by_key :: "('a \<Rightarrow> 'b :: linorder) \<Rightarrow> 'a list \<Rightarrow> 'a option" where
  "min_by_key f [] = None"
| "min_by_key f (x # xs) =
     (case min_by_key f xs of None \<Rightarrow> Some x | Some y \<Rightarrow> if f x \<le> f y then Some x else Some y)"

definition is_overloaded :: "nat \<Rightarrow> nat list \<Rightarrow> (nat \<Rightarrow> bool) \<Rightarrow> bool" where
  "is_overloaded target loads usable =
     (case vec_get loads target of
        None \<Rightarrow> False
      | Some load \<Rightarrow>
          (case min_by_key (\<lambda>l. l) (map (\<lambda>i. loads ! i) (filter usable [0..<length loads])) of
             None \<Rightarrow> False
           | Some mn \<Rightarrow>
               saturating_add u64_max mn BALANCE_ABS_THRESHOLD < load \<and>
               f64 (f64 (of_nat mn) * BALANCE_REL_THRESHOLD) < f64 (of_nat load)))"

record cache_aware =
  ca_n :: nat
  ca_threshold :: rat
  ca_tries :: "trie list"
  ca_sizes :: "nat list"
  ca_rr :: "64 word"

definition cache_aware_new :: "nat \<Rightarrow> rat \<Rightarrow> cache_aware" where
  "cache_aware_new n threshold =
     \<lparr>ca_n = n, ca_threshold = threshold,
      ca_tries = replicate n (trie_with_capacity DEFAULT_PREFIX_MAX_NODES),
      ca_sizes = replicate n 0, ca_rr = 0\<rparr>"

definition match_ratio :: "trie \<Rightarrow> string \<Rightarrow> rat" where
  "match_ratio t prompt =
     f32 (f32 (of_nat (longest_prefix t prompt)) / f32 (of_nat (length prompt)))"

fun best_ratio :: "(nat \<Rightarrow> rat) \<Rightarrow> nat list \<Rightarrow> (nat \<times> rat) option \<Rightarrow> (nat \<times> rat) option" where
  "best_ratio ratio [] best = best"
| "best_ratio ratio (i # is) best =
     best_ratio ratio is
       (if (case best of None \<Rightarrow> True | Some (_, b) \<Rightarrow> b < ratio i) then Some (i, ratio i) else best)"

definition affinity_pick :: "cache_aware \<Rightarrow> route_context \<Rightarrow> nat list \<Rightarrow> (nat \<Rightarrow> bool) \<Rightarrow> nat option" where
  "affinity_pick b ctx loads usable =
     (case cx_prompt ctx of
        None \<Rightarrow> None
      | Some prompt \<Rightarrow>
          if prompt = [] then None
          else
            case best_ratio (\<lambda>i. match_ratio (ca_tries b ! i) prompt) (filter usable [0..<ca_n b]) None of
              None \<Rightarrow> None
            | Some (best, ratio) \<Rightarrow>
                if ca_threshold b \<le> ratio \<and>
                   \<not> (length loads = ca_n b \<and> is_overloaded best loads usable)
                then Some best else None)"

definition cache_aware_pick_eligible ::
  "cache_aware \<Rightarrow> route_context \<Rightarrow> nat list \<Rightarrow> (nat \<Rightarrow> bool) \<Rightarrow> nat option \<times> cache_aware"
where
  "cache_aware_pick_eligible b ctx loads eligible =
     (if ca_n b = 0 then (None, b)
      else
        let msk = usable_ask (ca_n b) eligible;
            usable = usable_contains msk
        in case affinity_pick b ctx loads usable of
             Some best \<Rightarrow> (Some best, b)
           | None \<Rightarrow>
               if length loads = ca_n b then
                 (min_by_key (\<lambda>i. loads ! i) (filter usable [0..<ca_n b]), b)
               else
                 (case min_by_key snd (map (\<lambda>i. (i, ca_sizes b ! i)) (filter usable [0..<ca_n b])) of
                    None \<Rightarrow> (None, b)
                  | Some (idx, mn) \<Rightarrow>
                      if mn = 0 then
                        let start = unat (ca_rr b) mod ca_n b
                        in (find usable (map (\<lambda>k. (start + k) mod ca_n b) [0..<ca_n b]),
                            b\<lparr>ca_rr := ca_rr b + 1\<rparr>)
                      else (Some idx, b)))"

definition cache_aware_observe :: "cache_aware \<Rightarrow> nat \<Rightarrow> route_context \<Rightarrow> cache_aware" where
  "cache_aware_observe b target ctx =
     (if ca_n b \<le> target then b
      else
        case cx_prompt ctx of
          None \<Rightarrow> b
        | Some prompt \<Rightarrow>
            if prompt = [] then b
            else b\<lparr>ca_tries := (ca_tries b)[target := trie_insert (ca_tries b ! target) prompt],
                   ca_sizes := (ca_sizes b)[target := ca_sizes b ! target + 1]\<rparr>)"

section \<open>The trait and its factory\<close>

text \<open>
  \<open>BPipeline\<close> stands for the strategies whose pick is a scoring pipeline; it remembers the strategy
  and the number of targets.
\<close>

datatype balancer =
    BRefusing
  | BRoundRobin round_robin
  | BWeighted weighted_rr
  | BRandom nat
  | BPowerOfTwo nat
  | BConsistentHash consistent_hash
  | BCacheAware cache_aware
  | BPipeline balancing_strategy nat

definition build :: "(string \<Rightarrow> 64 word) \<Rightarrow> balancing_strategy \<Rightarrow> nat list \<Rightarrow> balancer" where
  "build hs strategy weights =
     (let n = length weights
      in case strategy of
           RoundRobin \<Rightarrow> BRoundRobin (round_robin_new n)
         | Random \<Rightarrow> BRandom n
         | PowerOfTwo \<Rightarrow> BPowerOfTwo n
         | ConsistentHash \<Rightarrow> BConsistentHash (consistent_hash_new hs n)
         | CacheAware \<Rightarrow> BCacheAware (cache_aware_new n (1 / 2))
         | Weighted \<Rightarrow> BWeighted (weighted_new weights)
         | UnknownStrategy \<Rightarrow> BRefusing
         | _ \<Rightarrow> BPipeline strategy n)"

record env =
  en_hs :: "string \<Rightarrow> 64 word"
  en_hw :: "64 word \<Rightarrow> 64 word"
  en_r1 :: "nat \<Rightarrow> nat"
  en_r2 :: "nat \<Rightarrow> nat"
  en_pipeline :: "balancing_strategy \<Rightarrow> nat \<Rightarrow> route_context \<Rightarrow> nat list \<Rightarrow> (nat \<Rightarrow> bool) \<Rightarrow> nat option"

definition balancer_pick ::
  "env \<Rightarrow> balancer \<Rightarrow> route_context \<Rightarrow> nat list \<Rightarrow> nat option \<times> balancer"
where
  "balancer_pick e b ctx loads =
     (case b of
        BRefusing \<Rightarrow> (None, b)
      | BRoundRobin s \<Rightarrow> apsnd BRoundRobin (round_robin_pick s)
      | BWeighted s \<Rightarrow> apsnd BWeighted (weighted_pick s)
      | BRandom n \<Rightarrow> (random_pick n (en_r1 e), b)
      | BPowerOfTwo n \<Rightarrow> (power_of_two_pick n loads (en_r1 e) (en_r2 e), b)
      | BConsistentHash s \<Rightarrow> apsnd BConsistentHash (consistent_hash_pick (en_hs e) (en_hw e) s ctx)
      | BCacheAware s \<Rightarrow> apsnd BCacheAware (cache_aware_pick_eligible s ctx loads (\<lambda>_. True))
      | BPipeline strategy n \<Rightarrow> (en_pipeline e strategy n ctx loads (\<lambda>_. True), b))"

definition balancer_pick_eligible ::
  "env \<Rightarrow> balancer \<Rightarrow> route_context \<Rightarrow> nat list \<Rightarrow> (nat \<Rightarrow> bool) \<Rightarrow> nat option \<times> balancer"
where
  "balancer_pick_eligible e b ctx loads eligible =
     (case b of
        BPowerOfTwo n \<Rightarrow> (power_of_two_pick_eligible n loads eligible (en_r1 e) (en_r2 e), b)
      | BCacheAware s \<Rightarrow> apsnd BCacheAware (cache_aware_pick_eligible s ctx loads eligible)
      | BPipeline strategy n \<Rightarrow> (en_pipeline e strategy n ctx loads eligible, b)
      | _ \<Rightarrow> balancer_pick e b ctx loads)"

definition balancer_observe :: "balancer \<Rightarrow> nat \<Rightarrow> route_context \<Rightarrow> balancer" where
  "balancer_observe b target ctx =
     (case b of BCacheAware s \<Rightarrow> BCacheAware (cache_aware_observe s target ctx) | _ \<Rightarrow> b)"

end
