(* ===== verification/Balancer_Contract.thy ===== *)
theory Balancer_Contract
  imports Balancer_Props
begin

text \<open>
  The contract of the \<open>LoadBalancer\<close> trait of \<open>rolter-balancer/src/lib.rs\<close>, and its implementation by
  the strategies. A caller may index its target list with what \<open>pick_eligible\<close> returned
  (\<open>load_balancer\<close>), and a strategy over at least one target always answers (\<open>total_balancer\<close>).
\<close>

text \<open>A sequence of requests served by one strategy, its state threaded through.\<close>

fun serve ::
  "('s \<Rightarrow> route_context \<Rightarrow> nat list \<Rightarrow> (nat \<Rightarrow> bool) \<Rightarrow> nat option \<times> 's) \<Rightarrow> 's \<Rightarrow>
    (route_context \<times> nat list \<times> (nat \<Rightarrow> bool)) list \<Rightarrow> nat option list \<times> 's"
where
  "serve pick s [] = ([], s)"
| "serve pick s ((ctx, loads, eligible) # reqs) =
     (let (p, s') = pick s ctx loads eligible in apfst ((#) p) (serve pick s' reqs))"

locale load_balancer =
  fixes pick :: "'s \<Rightarrow> route_context \<Rightarrow> nat list \<Rightarrow> (nat \<Rightarrow> bool) \<Rightarrow> nat option \<times> 's"
    and targets :: "'s \<Rightarrow> nat"
    and ok :: "'s \<Rightarrow> bool"
  assumes pick_in_range: "ok s \<Longrightarrow> fst (pick s ctx loads eligible) = Some i \<Longrightarrow> i < targets s"
    and pick_ok: "ok s \<Longrightarrow> ok (snd (pick s ctx loads eligible))"
    and pick_targets: "ok s \<Longrightarrow> targets (snd (pick s ctx loads eligible)) = targets s"
begin

lemma serve_keeps: "ok s \<Longrightarrow> ok (snd (serve pick s reqs)) \<and> targets (snd (serve pick s reqs)) = targets s"
proof (induction reqs arbitrary: s)
  case (Cons r reqs)
  obtain ctx loads eligible where r: "r = (ctx, loads, eligible)" by (cases r)
  note step = pick_ok [OF Cons.prems, of ctx loads eligible] pick_targets [OF Cons.prems, of ctx loads eligible]
  show ?case
    using Cons.IH [OF step(1)] step(2) by (simp add: r case_prod_beta)
qed simp

lemma serve_in_range: "ok s \<Longrightarrow> Some i \<in> set (fst (serve pick s reqs)) \<Longrightarrow> i < targets s"
proof (induction reqs arbitrary: s)
  case (Cons r reqs)
  obtain ctx loads eligible where r: "r = (ctx, loads, eligible)" by (cases r)
  note step = pick_ok [OF Cons.prems(1), of ctx loads eligible]
    pick_targets [OF Cons.prems(1), of ctx loads eligible]
  show ?case
    using Cons.IH [OF step(1)] step(2) Cons.prems pick_in_range [OF Cons.prems(1)]
    by (auto simp: r case_prod_beta)
qed simp

end

locale total_balancer = load_balancer +
  assumes pick_total: "ok s \<Longrightarrow> 0 < targets s \<Longrightarrow> fst (pick s ctx loads eligible) \<noteq> None"
begin

lemma serve_answers: "ok s \<Longrightarrow> 0 < targets s \<Longrightarrow> None \<notin> set (fst (serve pick s reqs))"
proof (induction reqs arbitrary: s)
  case (Cons r reqs)
  obtain ctx loads eligible where r: "r = (ctx, loads, eligible)" by (cases r)
  note step = pick_ok [OF Cons.prems(1), of ctx loads eligible]
    pick_targets [OF Cons.prems(1), of ctx loads eligible]
  show ?case
    using Cons.IH [OF step(1)] step(2) Cons.prems(2) pick_total [OF Cons.prems, of ctx loads eligible]
    by (auto simp: r case_prod_beta)
qed simp

end

section \<open>Each strategy keeps the contract\<close>

interpretation rr: total_balancer "\<lambda>s _ _ _. round_robin_pick s" rr_n "\<lambda>_. True"
  by unfold_locales (auto simp: round_robin_pick_def split: if_splits)

definition weighted_ok :: "weighted_rr \<Rightarrow> bool" where
  "weighted_ok s \<longleftrightarrow> length (wr_current s) = length (wr_weights s)"

lemma weighted_pick_contract:
  assumes "weighted_ok s"
  shows "fst (weighted_pick s) = Some i \<Longrightarrow> i < length (wr_weights s)"
    and "weighted_ok (snd (weighted_pick s))"
    and "wr_weights (snd (weighted_pick s)) = wr_weights s"
    and "0 < length (wr_weights s) \<Longrightarrow> fst (weighted_pick s) \<noteq> None"
proof -
  have empty: "weighted_pick s = (None, s)" if "\<not> 0 < length (wr_weights s)"
    using that by (simp add: weighted_pick_def)
  note step = weighted_pick_step [of s, OF _ assms [unfolded weighted_ok_def]]
  show "fst (weighted_pick s) = Some i \<Longrightarrow> i < length (wr_weights s)"
    using empty by (cases "0 < length (wr_weights s)") (metis step option.inject, simp)
  show "weighted_ok (snd (weighted_pick s))"
    using empty assms unfolding weighted_ok_def
    by (cases "0 < length (wr_weights s)") (metis step, simp)
  show "wr_weights (snd (weighted_pick s)) = wr_weights s"
    using empty by (cases "0 < length (wr_weights s)") (metis step, simp)
  show "0 < length (wr_weights s) \<Longrightarrow> fst (weighted_pick s) \<noteq> None"
    by (metis step option.distinct(1))
qed

interpretation weighted: total_balancer "\<lambda>s _ _ _. weighted_pick s" "\<lambda>s. length (wr_weights s)" weighted_ok
  by unfold_locales (simp_all add: weighted_pick_contract)

definition ring_ok :: "consistent_hash \<Rightarrow> bool" where
  "ring_ok s \<longleftrightarrow> sorted (map fst (ch_ring s)) \<and> (\<forall>p\<in>set (ch_ring s). snd p < ch_n s) \<and>
     (0 < ch_n s \<longrightarrow> ch_ring s \<noteq> [])"

lemma ring_ok_new: "ring_ok (consistent_hash_new hs n)"
proof -
  have "vnodes hs n \<noteq> []" if "0 < n"
  proof -
    have "(hs (vnode_key 0 0), 0) \<in> set (vnodes hs n)"
      using that by (auto simp: set_vnodes VIRTUAL_NODES_def)
    then show ?thesis by auto
  qed
  moreover have "snd p < n" if "p \<in> set (vnodes hs n)" for p
    using that by (auto simp: set_vnodes)
  ultimately show ?thesis
    by (metis (no_types, lifting) ring_ok_def consistent_hash_new_def consistent_hash.select_convs
        set_sort set_empty sorted_sort_key)
qed

lemma pick_hash_range:
  assumes "ring_ok s" "0 < ch_n s"
  shows "pick_hash s h < ch_n s"
proof -
  note bs = binary_search_spec [of "map fst (ch_ring s)" h]
  have "\<exists>k<length (ch_ring s). pick_hash s h = snd (ch_ring s ! k)"
    using bs assms
    by (auto simp: ring_ok_def pick_hash_def split: sum.splits intro: exI [of _ 0] le_neq_implies_less)
  then show ?thesis using assms(1) by (metis nth_mem ring_ok_def)
qed

interpretation ch: total_balancer "\<lambda>s ctx _ _. consistent_hash_pick hs hw s ctx" ch_n ring_ok for hs hw
  by unfold_locales
    (auto simp: consistent_hash_pick_def ring_ok_def pick_hash_range split: if_splits option.splits
      intro: pick_hash_range [unfolded ring_ok_def])

lemma cache_aware_pick_state:
  "\<exists>c. snd (cache_aware_pick_eligible b ctx loads eligible) = b\<lparr>ca_rr := c\<rparr>"
proof -
  have self: "b = b\<lparr>ca_rr := ca_rr b\<rparr>" by simp
  show ?thesis
    unfolding cache_aware_pick_eligible_def Let_def
    using self by (auto split: option.splits prod.splits intro: exI [of _ "ca_rr b"])
qed

interpretation ca: total_balancer cache_aware_pick_eligible ca_n "\<lambda>_. True"
proof unfold_locales
  fix b ctx loads eligible i
  show "ca_n (snd (cache_aware_pick_eligible b ctx loads eligible)) = ca_n b"
    using cache_aware_pick_state [of b ctx loads eligible] by auto
  have empty: "fst (cache_aware_pick_eligible b ctx loads eligible) = None" if "ca_n b = 0"
    using that by (simp add: cache_aware_pick_eligible_def)
  show "fst (cache_aware_pick_eligible b ctx loads eligible) = Some i \<Longrightarrow> i < ca_n b"
    using empty cache_aware_pick_usable [of b ctx loads eligible] usable_targets_range
    by (cases "ca_n b = 0") fastforce+
  show "0 < ca_n b \<Longrightarrow> fst (cache_aware_pick_eligible b ctx loads eligible) \<noteq> None"
    using cache_aware_pick_usable [of b ctx loads eligible] by auto
qed simp

section \<open>The built balancer keeps the contract\<close>

definition env_ok :: "env \<Rightarrow> bool" where
  "env_ok e \<longleftrightarrow> (\<forall>m>0. en_r1 e m < m \<and> en_r2 e m < m) \<and>
     (\<forall>st n ctx loads eligible i. en_pipeline e st n ctx loads eligible = Some i \<longrightarrow> i < n)"

definition balancer_targets :: "balancer \<Rightarrow> nat" where
  "balancer_targets b =
     (case b of
        BRefusing \<Rightarrow> 0
      | BRoundRobin s \<Rightarrow> rr_n s
      | BWeighted s \<Rightarrow> length (wr_weights s)
      | BRandom n \<Rightarrow> n
      | BPowerOfTwo n \<Rightarrow> n
      | BConsistentHash s \<Rightarrow> ch_n s
      | BCacheAware s \<Rightarrow> ca_n s
      | BPipeline _ n \<Rightarrow> n)"

definition balancer_ok :: "balancer \<Rightarrow> bool" where
  "balancer_ok b = (case b of BWeighted s \<Rightarrow> weighted_ok s | BConsistentHash s \<Rightarrow> ring_ok s | _ \<Rightarrow> True)"

lemma build_ok: "balancer_ok (build hs st weights)"
  by (cases st) (simp_all add: build_def balancer_ok_def weighted_ok_def weighted_new_def ring_ok_new Let_def)

lemma build_targets: "st \<noteq> UnknownStrategy \<Longrightarrow> balancer_targets (build hs st weights) = length weights"
  by (cases st) (simp_all add: build_def balancer_targets_def weighted_new_def round_robin_new_def
      consistent_hash_new_def cache_aware_new_def Let_def)

lemma power_of_two_range:
  assumes "env_ok e" "power_of_two_pick_eligible n loads eligible (en_r1 e) (en_r2 e) = Some i"
  shows "i < n"
proof (cases "n = 0")
  case True
  then show ?thesis using assms(2) by (simp add: power_of_two_pick_eligible_def)
next
  case False
  then show ?thesis
    using power_of_two_pick_usable [of n "en_r1 e" "en_r2 e" loads eligible] assms usable_targets_range
    by (fastforce simp: env_ok_def)
qed

lemma balancer_pick_contract:
  assumes "env_ok e" "balancer_ok b"
  shows "fst (balancer_pick_eligible e b ctx loads eligible) = Some i \<Longrightarrow> i < balancer_targets b"
    and "balancer_ok (snd (balancer_pick_eligible e b ctx loads eligible))"
    and "balancer_targets (snd (balancer_pick_eligible e b ctx loads eligible)) = balancer_targets b"
proof -
  note defs = balancer_pick_eligible_def balancer_pick_def balancer_ok_def balancer_targets_def
  show "fst (balancer_pick_eligible e b ctx loads eligible) = Some i \<Longrightarrow> i < balancer_targets b"
    using assms rr.pick_in_range weighted.pick_in_range ch.pick_in_range ca.pick_in_range
      power_of_two_range [OF assms(1)]
    by (cases b) (auto simp: defs random_pick_def env_ok_def split: if_splits)
  show "balancer_ok (snd (balancer_pick_eligible e b ctx loads eligible))"
    using assms weighted.pick_ok ch.pick_ok by (cases b) (simp_all add: defs)
  show "balancer_targets (snd (balancer_pick_eligible e b ctx loads eligible)) = balancer_targets b"
    using assms rr.pick_targets weighted.pick_targets ch.pick_targets ca.pick_targets
    by (cases b) (simp_all add: defs)
qed

interpretation lb: load_balancer "balancer_pick_eligible e" balancer_targets
  "\<lambda>b. env_ok e \<and> balancer_ok b" for e
  by unfold_locales (use balancer_pick_contract in blast)+


definition sample_env :: env where
  "sample_env =
     \<lparr>en_hs = (\<lambda>s. of_nat (length s)), en_hw = (\<lambda>w. w), en_r1 = (\<lambda>m. 7 mod m), en_r2 = (\<lambda>m. 5 mod m),
      en_pipeline = (\<lambda>_ n _ _ _. if n = 0 then None else Some 0)\<rparr>"

lemma env_ok_sample: "env_ok sample_env"
  by (auto simp: env_ok_def sample_env_def split: if_splits)


end
