(* ===== verification/Namespace.thy ===== *)
theory Namespace
  imports Route_Config
begin

text \<open>
  Names of routes, providers and provider groups: the per-organisation tables of
  \<open>rolter-core/src/namespace.rs\<close> and the address slugs of \<open>rolter-core/src/slug.rs\<close>. A table refines a
  partial function from (organisation, name) to row, and a lookup is characterised over the rows that
  were inserted.
\<close>

section \<open>Slugs\<close>

definition SLUG_MAX_LEN :: nat where
  "SLUG_MAX_LEN = 63"

text \<open>\<open>chars().count()\<close> on UTF-8 bytes: every byte that does not continue a character.\<close>

definition char_count :: "string \<Rightarrow> nat" where
  "char_count s = length (filter (\<lambda>c. \<not> (128 \<le> byte c \<and> byte c < 192)) s)"

definition is_valid_slug :: "string \<Rightarrow> bool" where
  "is_valid_slug s =
     (let len = char_count s
      in if \<not> (1 \<le> len \<and> len \<le> SLUG_MAX_LEN) then False
         else
           case s of
             [] \<Rightarrow> False
           | c # cs \<Rightarrow>
               if \<not> (is_ascii_lowercase c \<or> is_ascii_digit c) then False
               else list_all (\<lambda>c. is_ascii_lowercase c \<or> is_ascii_digit c \<or> c = CHR ''-'') cs)"

definition address_slug :: "string \<Rightarrow> string option" where
  "address_slug model =
     (case split_once (CHR ''/'') model of
        None \<Rightarrow> None
      | Some (slug, upstream) \<Rightarrow> if upstream \<noteq> [] \<and> is_valid_slug slug then Some slug else None)"

text \<open>
  \<open>slugify\<close> walks the characters of the lower-cased name. The Unicode lower-casing table of the
  standard library is the argument \<open>lower\<close>; it yields code points, of which only the ASCII letters
  and digits are kept.
\<close>

definition code_is_alphanumeric :: "nat \<Rightarrow> bool" where
  "code_is_alphanumeric u = (u < 128 \<and> is_ascii_alphanumeric (char_of u))"

fun slug_loop :: "nat list \<Rightarrow> string \<Rightarrow> bool \<Rightarrow> string \<times> bool" where
  "slug_loop [] out last_was_dash = (out, False)"
| "slug_loop (u # us) out last_was_dash =
     (if code_is_alphanumeric u then
        if SLUG_MAX_LEN \<le> length out then (out, True)
        else slug_loop us (out @ [char_of u]) False
      else if \<not> last_was_dash then
        if SLUG_MAX_LEN \<le> length out then (out, True)
        else slug_loop us (out @ ''-'') True
      else slug_loop us out last_was_dash)"

definition slugify :: "(string \<Rightarrow> nat list) \<Rightarrow> string \<Rightarrow> string" where
  "slugify lower name =
     (case slug_loop (lower name) [] True of
        (out, returned) \<Rightarrow>
          if returned then out
          else if out \<noteq> [] \<and> last out = CHR ''-'' then butlast out else out)"

section \<open>Qualified names\<close>

definition GLOBAL :: string where
  "GLOBAL = []"

definition QUALIFIER :: char where
  "QUALIFIER = CHR ''@''"

definition org_of :: "tenancy option \<Rightarrow> string" where
  "org_of t = (case t of None \<Rightarrow> GLOBAL | Some t \<Rightarrow> tn_org_id t)"

definition qualify :: "string \<Rightarrow> string \<Rightarrow> string" where
  "qualify name org = (if org = [] then name else name @ [QUALIFIER] @ org)"

definition strip_suffix :: "string \<Rightarrow> string \<Rightarrow> string option" where
  "strip_suffix s p = (if suffix p s then Some (take (length s - length p) s) else None)"

definition display_name :: "string \<Rightarrow> string \<Rightarrow> string" where
  "display_name i org =
     (if org = [] then i
      else
        case Option.bind (strip_suffix i org) (\<lambda>rest. strip_suffix rest [QUALIFIER]) of
          None \<Rightarrow> i
        | Some name \<Rightarrow> name)"

section \<open>The rows of one name\<close>

record 'a scoped =
  sc_global :: "'a option"
  sc_orgs :: "(string, 'a) hash_map"

definition scoped_default :: "'a scoped" where
  "scoped_default = \<lparr>sc_global = None, sc_orgs = []\<rparr>"

definition scoped_resolve :: "'a scoped \<Rightarrow> string \<Rightarrow> (string \<times> 'a) option" where
  "scoped_resolve s org =
     (case (if org \<noteq> [] then hm_get (sc_orgs s) org else None) of
        Some v \<Rightarrow> Some (org, v)
      | None \<Rightarrow>
          (case sc_global s of
             Some v \<Rightarrow> Some (GLOBAL, v)
           | None \<Rightarrow>
               if org = [] \<and> length (sc_orgs s) = 1 then Some (hd (sc_orgs s)) else None))"

definition scoped_resolve_ref :: "'a scoped \<Rightarrow> string \<Rightarrow> (string \<times> 'a) option" where
  "scoped_resolve_ref s org =
     (case (if org \<noteq> [] then hm_get (sc_orgs s) org else None) of
        Some v \<Rightarrow> Some (org, v)
      | None \<Rightarrow> map_option (\<lambda>v. (GLOBAL, v)) (sc_global s))"

definition scoped_resolve_admitted ::
  "'a scoped \<Rightarrow> string \<Rightarrow> ('a \<Rightarrow> bool) \<Rightarrow> (string \<times> 'a) option"
where
  "scoped_resolve_admitted s org admits =
     (case scoped_resolve s org of
        None \<Rightarrow> None
      | Some (owner, v) \<Rightarrow>
          if admits v then Some (owner, v)
          else if owner = GLOBAL then None
          else
            case sc_global s of
              None \<Rightarrow> None
            | Some v \<Rightarrow> if admits v then Some (GLOBAL, v) else None)"

definition scoped_owned_by :: "'a scoped \<Rightarrow> string \<Rightarrow> 'a option" where
  "scoped_owned_by s org = (if org = [] then sc_global s else hm_get (sc_orgs s) org)"

definition scoped_len :: "'a scoped \<Rightarrow> nat" where
  "scoped_len s = (if sc_global s = None then 0 else 1) + length (sc_orgs s)"

definition scoped_iter :: "'a scoped \<Rightarrow> (string \<times> 'a) list" where
  "scoped_iter s = (case sc_global s of None \<Rightarrow> [] | Some v \<Rightarrow> [(GLOBAL, v)]) @ sc_orgs s"

section \<open>The table\<close>

type_synonym 'a namespaced = "(string, 'a scoped) hash_map"

definition ns_new :: "'a namespaced" where
  "ns_new = []"

text \<open>The result is \<open>Inl\<close> the value that was refused, or \<open>Inr\<close> unit.\<close>

definition ns_insert :: "string \<Rightarrow> string \<Rightarrow> 'a \<Rightarrow> 'a namespaced \<Rightarrow> ('a + unit) \<times> 'a namespaced" where
  "ns_insert org name v t =
     (let scoped = (case hm_get t name of None \<Rightarrow> scoped_default | Some s \<Rightarrow> s)
      in if org = [] then
           (case sc_global scoped of
              Some _ \<Rightarrow> (Inl v, hm_insert name scoped t)
            | None \<Rightarrow> (Inr (), hm_insert name (scoped\<lparr>sc_global := Some v\<rparr>) t))
         else
           (case hm_get (sc_orgs scoped) org of
              Some _ \<Rightarrow> (Inl v, hm_insert name scoped t)
            | None \<Rightarrow>
                (Inr (), hm_insert name (scoped\<lparr>sc_orgs := hm_insert org v (sc_orgs scoped)\<rparr>) t)))"

definition ns_resolve :: "'a namespaced \<Rightarrow> string \<Rightarrow> string \<Rightarrow> (string \<times> 'a) option" where
  "ns_resolve t org name = Option.bind (hm_get t name) (\<lambda>s. scoped_resolve s org)"

definition ns_get :: "'a namespaced \<Rightarrow> string \<Rightarrow> string \<Rightarrow> 'a option" where
  "ns_get t org name = map_option snd (ns_resolve t org name)"

definition ns_resolve_admitted ::
  "'a namespaced \<Rightarrow> string \<Rightarrow> string \<Rightarrow> ('a \<Rightarrow> bool) \<Rightarrow> (string \<times> 'a) option"
where
  "ns_resolve_admitted t org name admits =
     Option.bind (hm_get t name) (\<lambda>s. scoped_resolve_admitted s org admits)"

definition ns_resolve_ref :: "'a namespaced \<Rightarrow> string \<Rightarrow> string \<Rightarrow> (string \<times> 'a) option" where
  "ns_resolve_ref t org name = Option.bind (hm_get t name) (\<lambda>s. scoped_resolve_ref s org)"

definition ns_get_ref :: "'a namespaced \<Rightarrow> string \<Rightarrow> string \<Rightarrow> 'a option" where
  "ns_get_ref t org name = map_option snd (ns_resolve_ref t org name)"

definition ns_owned_by :: "'a namespaced \<Rightarrow> string \<Rightarrow> string \<Rightarrow> 'a option" where
  "ns_owned_by t org name = Option.bind (hm_get t name) (\<lambda>s. scoped_owned_by s org)"

definition ns_contains_name :: "'a namespaced \<Rightarrow> string \<Rightarrow> bool" where
  "ns_contains_name t name = (case hm_get t name of None \<Rightarrow> False | Some s \<Rightarrow> scoped_len s \<noteq> 0)"

definition ns_is_shared :: "'a namespaced \<Rightarrow> string \<Rightarrow> bool" where
  "ns_is_shared t name = (case hm_get t name of None \<Rightarrow> False | Some s \<Rightarrow> 1 < scoped_len s)"

definition ns_iter :: "'a namespaced \<Rightarrow> (string \<times> string \<times> 'a) list" where
  "ns_iter t = concat (map (\<lambda>(name, s). map (\<lambda>(org, v). (org, name, v)) (scoped_iter s)) t)"

definition ns_len :: "'a namespaced \<Rightarrow> nat" where
  "ns_len t = sum_list (map (\<lambda>(_, s). scoped_len s) t)"

section \<open>Folding for a gateway without namespaces\<close>

fun shared_loop :: "string list \<Rightarrow> string list \<Rightarrow> string list \<Rightarrow> string list" where
  "shared_loop [] seen shared = shared"
| "shared_loop (n # ns) seen shared =
     (if n \<in> set seen then shared_loop ns seen (List.insert n shared)
      else shared_loop ns (n # seen) shared)"

definition shared_names :: "string list \<Rightarrow> string list" where
  "shared_names names = shared_loop names [] []"

text \<open>What the fold reads of a route, a provider and a provider group.\<close>

record legacy_row =
  lr_name :: string
  lr_slug :: "string option"
  lr_tenancy :: "tenancy option"

record legacy_config =
  lc_routes :: "legacy_row list"
  lc_providers :: "legacy_row list"
  lc_provider_groups :: "legacy_row list"
  lc_left_out :: "(string \<times> string) list"

definition row_slug :: "(string \<Rightarrow> nat list) \<Rightarrow> legacy_row \<Rightarrow> string" where
  "row_slug lower r = (case lr_slug r of Some s \<Rightarrow> s | None \<Rightarrow> slugify lower (lr_name r))"

text \<open>A problem line is modelled by what it names: the kind of row, its name and its organisation.\<close>

datatype omitted = OmittedRoute string string | OmittedProvider string string | OmittedGroup string string

definition fold_for_legacy_gateway ::
  "(string \<Rightarrow> nat list) \<Rightarrow> legacy_config \<Rightarrow> omitted list \<times> legacy_config"
where
  "fold_for_legacy_gateway lower c =
     (let routes = shared_names (map lr_name (lc_routes c));
          keep_route = (\<lambda>r. lr_tenancy r = None \<or> lr_name r \<notin> set routes);
          names = shared_names (map lr_name (lc_providers c));
          addresses = shared_names (map (row_slug lower) (lc_providers c) @
                                    map (row_slug lower) (lc_provider_groups c));
          keep_provider = (\<lambda>p. lr_tenancy p = None \<or>
             \<not> (lr_name p \<in> set names \<or> row_slug lower p \<in> set addresses));
          keep_group = (\<lambda>g. lr_tenancy g = None \<or> row_slug lower g \<notin> set addresses);
          dropped = filter (\<lambda>p. \<not> keep_provider p) (lc_providers c)
      in (map (\<lambda>r. OmittedRoute (lr_name r) (org_of (lr_tenancy r)))
            (filter (\<lambda>r. \<not> keep_route r) (lc_routes c)) @
          map (\<lambda>p. OmittedProvider (lr_name p) (org_of (lr_tenancy p))) dropped @
          map (\<lambda>g. OmittedGroup (row_slug lower g) (org_of (lr_tenancy g)))
            (filter (\<lambda>g. \<not> keep_group g) (lc_provider_groups c)),
          c\<lparr>lc_routes := filter keep_route (lc_routes c),
            lc_providers := filter keep_provider (lc_providers c),
            lc_provider_groups := filter keep_group (lc_provider_groups c),
            lc_left_out := lc_left_out c @ map (\<lambda>p. (org_of (lr_tenancy p), lr_name p)) dropped\<rparr>))"

section \<open>Slugs are valid\<close>

lemma char_count_ascii: "list_all (\<lambda>c. byte c < 128) s \<Longrightarrow> char_count s = length s"
  by (induction s) (auto simp: char_count_def)

definition slug_char :: "char \<Rightarrow> bool" where
  "slug_char c = (is_ascii_lowercase c \<or> is_ascii_digit c \<or> c = CHR ''-'')"

lemma slug_char_ascii: "slug_char c \<Longrightarrow> byte c < 128"
  by (auto simp: slug_char_def is_ascii_lowercase_def is_ascii_digit_def)

lemma is_valid_slug_iff:
  "is_valid_slug s \<longleftrightarrow> s \<noteq> [] \<and> length s \<le> SLUG_MAX_LEN \<and> list_all slug_char s \<and> hd s \<noteq> CHR ''-''"
proof (cases s)
  case (Cons c cs)
  show ?thesis
  proof (cases "list_all slug_char s")
    case True
    then have "list_all (\<lambda>c. byte c < 128) s"
      by (rule list.pred_mono_strong) (rule slug_char_ascii)
    then have "char_count s = length s" by (rule char_count_ascii)
    with True Cons show ?thesis
      by (auto simp: is_valid_slug_def slug_char_def Let_def is_ascii_lowercase_def is_ascii_digit_def
          list_all_iff)
  next
    case False
    with Cons show ?thesis
      by (auto simp: is_valid_slug_def slug_char_def Let_def list_all_iff)
  qed
qed (simp add: is_valid_slug_def char_count_def)

definition lowercase_codes :: "nat list \<Rightarrow> bool" where
  "lowercase_codes us = list_all (\<lambda>u. \<not> (65 \<le> u \<and> u \<le> 90)) us"

definition slug_prefix :: "string \<Rightarrow> bool \<Rightarrow> bool" where
  "slug_prefix out dash \<longleftrightarrow>
     list_all slug_char out \<and> length out \<le> SLUG_MAX_LEN \<and> (out = [] \<longrightarrow> dash) \<and>
     (out \<noteq> [] \<longrightarrow> hd out \<noteq> CHR ''-'' \<and> (last out = CHR ''-'' \<longleftrightarrow> dash))"

lemma code_slug_char:
  assumes "code_is_alphanumeric u" "\<not> (65 \<le> u \<and> u \<le> 90)"
  shows "slug_char (char_of u)" "char_of u \<noteq> CHR ''-''"
proof -
  have code: "byte (char_of u) = u" using assms(1) by (simp add: code_is_alphanumeric_def)
  have "u = 45" if "char_of u = CHR ''-''"
    using code unfolding that by simp
  with code show "slug_char (char_of u)" "char_of u \<noteq> CHR ''-''"
    using assms
    by (auto simp: code_is_alphanumeric_def slug_char_def is_ascii_alphanumeric_def is_ascii_lowercase_def
        is_ascii_uppercase_def is_ascii_digit_def)
qed

lemma slug_loop_prefix:
  assumes "lowercase_codes us" "slug_prefix out dash"
  shows "\<exists>d. slug_prefix (fst (slug_loop us out dash)) d \<and>
    (snd (slug_loop us out dash) \<longrightarrow> fst (slug_loop us out dash) \<noteq> [])"
  using assms
proof (induction us out dash rule: slug_loop.induct)
  case (2 u us out dash)
  have lc: "lowercase_codes us" "\<not> (65 \<le> u \<and> u \<le> 90)"
    using 2(4) by (auto simp: lowercase_codes_def)
  have full: "out \<noteq> []" if "SLUG_MAX_LEN \<le> length out"
    using that by (auto simp: SLUG_MAX_LEN_def)
  consider (alnum) "code_is_alphanumeric u" | (dash) "\<not> code_is_alphanumeric u" "\<not> dash"
    | (skip) "\<not> code_is_alphanumeric u" "dash" by blast
  then show ?case
  proof cases
    case alnum
    have "slug_prefix (out @ [char_of u]) False" if "\<not> SLUG_MAX_LEN \<le> length out"
      using code_slug_char [OF alnum lc(2)] 2(5) that by (auto simp: slug_prefix_def hd_append)
    with alnum 2 lc full show ?thesis by auto
  next
    case dash
    have "slug_prefix (out @ ''-'') True" if "\<not> SLUG_MAX_LEN \<le> length out"
      using dash 2(5) that by (auto simp: slug_prefix_def hd_append slug_char_def)
    with dash 2 lc full show ?thesis by auto
  next
    case skip
    with 2 lc show ?thesis by auto
  qed
qed auto

text \<open>
  A derived slug is a valid one. Whatever the name and the Unicode lower-casing table, as long as
  the table leaves no ASCII capital, the slug derived from a name is either empty or accepted by the
  slug check, so a derived address always parses.
\<close>

theorem slugify_valid:
  assumes "lowercase_codes (lower name)"
  shows "slugify lower name = [] \<or> is_valid_slug (slugify lower name)"
proof -
  obtain out ret where loop: "slug_loop (lower name) [] True = (out, ret)" by fastforce
  obtain d where p: "slug_prefix out d"
    using slug_loop_prefix [OF assms, of "[]" True] loop by (auto simp: slug_prefix_def)
  show ?thesis
  proof (cases "\<not> ret \<and> out \<noteq> [] \<and> last out = CHR ''-''")
    case True
    then have slug: "slugify lower name = butlast out" using loop by (simp add: slugify_def)
    obtain xs where xs: "out = xs @ ''-''"
      using True by (metis append_butlast_last_id)
    have "xs \<noteq> [] \<Longrightarrow> hd xs \<noteq> CHR ''-''" using p xs by (cases xs) (auto simp: slug_prefix_def)
    with p show ?thesis
      unfolding slug is_valid_slug_iff by (auto simp: slug_prefix_def xs)
  next
    case False
    then have "slugify lower name = out" using loop by (auto simp: slugify_def)
    with p show ?thesis by (auto simp: is_valid_slug_iff slug_prefix_def)
  qed
qed

lemma slugify_valid_witness:
  "slugify (\<lambda>s. map (\<lambda>c. byte (ascii_lower c)) s) ''My  vLLM!'' = ''my-vllm'' \<and> is_valid_slug ''my-vllm''"
proof -
  have s: "slugify (\<lambda>s. map (\<lambda>c. byte (ascii_lower c)) s) ''My  vLLM!'' = ''my-vllm''"
    by (simp add: slugify_def SLUG_MAX_LEN_def code_is_alphanumeric_def ascii_lower_def
        is_ascii_alphanumeric_def is_ascii_lowercase_def is_ascii_uppercase_def is_ascii_digit_def)
      code_simp
  have "lowercase_codes (map (\<lambda>c. byte (ascii_lower c)) ''My  vLLM!'')"
    by (simp add: lowercase_codes_def ascii_lower_def is_ascii_uppercase_def)
  then show ?thesis
    using slugify_valid [of "\<lambda>s. map (\<lambda>c. byte (ascii_lower c)) s" "''My  vLLM!''"] s by simp
qed

section \<open>Round trip of qualified names\<close>

lemma strip_suffix_append [simp]: "strip_suffix (s @ p) p = Some s"
  by (simp add: strip_suffix_def suffix_def)

lemma strip_suffix_Some: "strip_suffix s p = Some t \<longleftrightarrow> s = t @ p"
  by (auto simp: strip_suffix_def suffix_def)

text \<open>
  The display name of a runtime id is the configured name it was qualified from, for every name
  and organisation, and two rows of one organisation or of organisations whose ids hold no separator
  never share a runtime id.
\<close>

theorem qualify_roundtrip:
  "display_name (qualify name org) org = name \<and>
    (QUALIFIER \<notin> set org \<longrightarrow> QUALIFIER \<notin> set org' \<longrightarrow> org \<noteq> [] \<longrightarrow> org' \<noteq> [] \<longrightarrow>
      qualify name org = qualify name' org' \<longrightarrow> name = name' \<and> org = org')"
proof
  have "strip_suffix (name @ [QUALIFIER] @ org) org = Some (name @ [QUALIFIER])"
    using strip_suffix_append [of "name @ [QUALIFIER]" org] by simp
  then show "display_name (qualify name org) org = name"
    by (simp add: display_name_def qualify_def)
  show "QUALIFIER \<notin> set org \<longrightarrow> QUALIFIER \<notin> set org' \<longrightarrow> org \<noteq> [] \<longrightarrow> org' \<noteq> [] \<longrightarrow>
      qualify name org = qualify name' org' \<longrightarrow> name = name' \<and> org = org'"
  proof (intro impI)
    assume sep: "QUALIFIER \<notin> set org" "QUALIFIER \<notin> set org'" "org \<noteq> []" "org' \<noteq> []"
      and eq: "qualify name org = qualify name' org'"
    then have "rev (name @ QUALIFIER # org) = rev (name' @ QUALIFIER # org')"
      by (simp add: qualify_def)
    then have "rev org @ QUALIFIER # rev name = rev org' @ QUALIFIER # rev name'"
      by simp
    then have "split_once QUALIFIER (rev org @ QUALIFIER # rev name) =
        split_once QUALIFIER (rev org' @ QUALIFIER # rev name')" by simp
    with sep show "name = name' \<and> org = org'" by simp
  qed
qed

lemma qualify_roundtrip_witness:
  "display_name (qualify ''gpt'' ''o1'') ''o1'' = ''gpt'' \<and> qualify ''gpt'' ''o1'' \<noteq> qualify ''gpt'' ''o2''"
  using qualify_roundtrip [of "''gpt''" "''o1''" "''o2''" "''gpt''"] by (simp add: QUALIFIER_def)

section \<open>A table refines the rows inserted into it\<close>

definition insert_rows :: "(string \<times> string \<times> 'a) list \<Rightarrow> 'a namespaced" where
  "insert_rows rows = foldl (\<lambda>t (org, name, v). snd (ns_insert org name v t)) ns_new rows"

definition first_row :: "(string \<times> string \<times> 'a) list \<Rightarrow> string \<Rightarrow> string \<Rightarrow> 'a option" where
  "first_row rows org name = map_of (map (\<lambda>(o', n, v). ((o', n), v)) rows) (org, name)"

definition owners :: "(string \<times> string \<times> 'a) list \<Rightarrow> string \<Rightarrow> string list" where
  "owners rows name = remdups (map fst (filter (\<lambda>(o', n, _). n = name \<and> o' \<noteq> []) rows))"

definition ns_ok :: "'a namespaced \<Rightarrow> bool" where
  "ns_ok t \<longleftrightarrow> hm_wf t \<and>
     (\<forall>name s. hm_get t name = Some s \<longrightarrow> hm_wf (sc_orgs s) \<and> hm_get (sc_orgs s) [] = None)"

lemma ns_ok_new: "ns_ok ns_new"
  by (simp add: ns_ok_def ns_new_def)

lemma ns_insert_ok:
  assumes "ns_ok t"
  shows "ns_ok (snd (ns_insert org name v t))"
proof -
  have s: "hm_wf (sc_orgs s) \<and> hm_get (sc_orgs s) [] = None"
    if "s = (case hm_get t name of None \<Rightarrow> scoped_default | Some s \<Rightarrow> s)" for s
    using assms that by (auto simp: ns_ok_def scoped_default_def split: option.splits)
  show ?thesis
    using assms s [OF refl]
    by (auto simp: ns_insert_def Let_def ns_ok_def hm.wf_put split: option.splits if_splits)
qed

text \<open>The abstract table: first row wins.\<close>

lemma ns_insert_refines:
  "ns_owned_by (snd (ns_insert org name v t)) org' name' =
     (if org' = org \<and> name' = name \<and> ns_owned_by t org name = None then Some v
      else ns_owned_by t org' name')"
  by (auto simp: ns_insert_def ns_owned_by_def scoped_owned_by_def scoped_default_def Let_def
      split: option.splits)

lemma ns_insert_refuses:
  "fst (ns_insert org name v t) = (if ns_owned_by t org name = None then Inr () else Inl v)"
  by (auto simp: ns_insert_def ns_owned_by_def scoped_owned_by_def scoped_default_def Let_def
      split: option.splits)

lemma insert_rows_snoc:
  "insert_rows (rows @ [(org, name, v)]) = snd (ns_insert org name v (insert_rows rows))"
  by (simp add: insert_rows_def)

lemma insert_rows_ok: "ns_ok (insert_rows rows)"
  by (induction rows rule: rev_induct)
    (auto simp: insert_rows_snoc ns_insert_ok ns_ok_new insert_rows_def)

lemma owned_by_insert_rows: "ns_owned_by (insert_rows rows) org name = first_row rows org name"
proof (induction rows rule: rev_induct)
  case Nil
  show ?case by (simp add: insert_rows_def ns_new_def ns_owned_by_def first_row_def)
next
  case (snoc r rows)
  obtain o' n v where r: "r = (o', n, v)" by (cases r)
  show ?case
    using snoc by (auto simp: r insert_rows_snoc ns_insert_refines first_row_def map_add_def split: option.splits)
qed

lemma orgs_of_table:
  assumes "ns_ok t" "hm_get t name = Some s"
  shows "fst ` set (sc_orgs s) = {org. org \<noteq> [] \<and> ns_owned_by t org name \<noteq> None}"
proof -
  have wf: "hm_wf (sc_orgs s)" "hm_get (sc_orgs s) [] = None" using assms by (auto simp: ns_ok_def)
  have dom: "fst ` set (sc_orgs s) = {org. hm_get (sc_orgs s) org \<noteq> None}"
    using dom_map_of_conv_image_fst [of "sc_orgs s"] by (auto simp: hm_get_def dom_def)
  show ?thesis
    unfolding dom using assms(2) wf(2) by (auto simp: ns_owned_by_def scoped_owned_by_def)
qed

lemma owners_set: "set (owners rows name) = {org. org \<noteq> [] \<and> first_row rows org name \<noteq> None}"
  by (force simp: owners_def first_row_def map_of_eq_None_iff image_iff)

lemma single_owner:
  assumes "hm_get (insert_rows rows) name = Some s"
  shows "length (sc_orgs s) = 1 \<longleftrightarrow> (\<exists>o'. owners rows name = [o'])"
    and "owners rows name = [o'] \<Longrightarrow> \<exists>v. sc_orgs s = [(o', v)] \<and> first_row rows o' name = Some v"
proof -
  have ok: "ns_ok (insert_rows rows)" by (rule insert_rows_ok)
  have "fst ` set (sc_orgs s) = set (owners rows name)"
    using orgs_of_table [OF ok assms] by (simp add: owners_set owned_by_insert_rows)
  moreover have "distinct (map fst (sc_orgs s))" using ok assms by (auto simp: ns_ok_def hm_wf_def)
  moreover have "distinct (owners rows name)" by (simp add: owners_def)
  ultimately have len: "length (sc_orgs s) = length (owners rows name)"
    by (metis distinct_card length_map set_map)
  then show "length (sc_orgs s) = 1 \<longleftrightarrow> (\<exists>o'. owners rows name = [o'])"
    by (simp add: length_Suc_conv)
  assume single: "owners rows name = [o']"
  then obtain v where v: "sc_orgs s = [(o', v)]"
    using len \<open>fst ` set (sc_orgs s) = set (owners rows name)\<close>
    by (cases "sc_orgs s") (auto simp: length_Suc_conv)
  have "o' \<noteq> []" using owners_set [of rows name] single by auto
  then have "first_row rows o' name = Some v"
    using owned_by_insert_rows [of rows o' name] assms v
    by (simp add: ns_owned_by_def scoped_owned_by_def hm_get_def)
  with v show "\<exists>v. sc_orgs s = [(o', v)] \<and> first_row rows o' name = Some v" by simp
qed

text \<open>
  C6: Tenant isolation of names. Over any sequence of insertions, the first row of a namespace wins,
  and a name resolves in the caller's own organisation first, then globally; a caller with no
  organisation reaches the row of an organisation only when exactly one owns the name, and a
  configured row never does. So no organisation's lookup ever yields another organisation's row.
\<close>

theorem tenant_isolation:
  "ns_resolve (insert_rows rows) org name =
     (case (if org \<noteq> [] then first_row rows org name else None) of
        Some v \<Rightarrow> Some (org, v)
      | None \<Rightarrow>
          (case first_row rows GLOBAL name of
             Some v \<Rightarrow> Some (GLOBAL, v)
           | None \<Rightarrow>
               (case owners rows name of
                  [owner] \<Rightarrow> if org = [] then map_option (Pair owner) (first_row rows owner name) else None
                | _ \<Rightarrow> None))) \<and>
   ns_resolve_ref (insert_rows rows) org name =
     (case (if org \<noteq> [] then first_row rows org name else None) of
        Some v \<Rightarrow> Some (org, v)
      | None \<Rightarrow> map_option (Pair GLOBAL) (first_row rows GLOBAL name))"
proof (cases "hm_get (insert_rows rows) name")
  case None
  then have "first_row rows o' name = None" for o'
    using owned_by_insert_rows [of rows o' name] by (simp add: ns_owned_by_def)
  moreover from this have "owners rows name = []" using owners_set [of rows name] by simp
  ultimately show ?thesis using None by (simp add: ns_resolve_def ns_resolve_ref_def)
next
  case (Some s)
  have own: "scoped_owned_by s o' = first_row rows o' name" for o'
    using owned_by_insert_rows [of rows o' name] Some by (simp add: ns_owned_by_def)
  have glob: "sc_global s = first_row rows GLOBAL name" using own [of "[]"] by (simp add: scoped_owned_by_def GLOBAL_def)
  have orgs: "hm_get (sc_orgs s) org = first_row rows org name" if "org \<noteq> []"
    using own [of org] that by (simp add: scoped_owned_by_def)
  note single = single_owner [OF Some]
  show ?thesis
  proof
    show "ns_resolve_ref (insert_rows rows) org name =
        (case (if org \<noteq> [] then first_row rows org name else None) of
           Some v \<Rightarrow> Some (org, v)
         | None \<Rightarrow> map_option (Pair GLOBAL) (first_row rows GLOBAL name))"
      using Some glob orgs by (auto simp: ns_resolve_ref_def scoped_resolve_ref_def split: option.splits)
    show "ns_resolve (insert_rows rows) org name =
        (case (if org \<noteq> [] then first_row rows org name else None) of
           Some v \<Rightarrow> Some (org, v)
         | None \<Rightarrow>
             (case first_row rows GLOBAL name of
                Some v \<Rightarrow> Some (GLOBAL, v)
              | None \<Rightarrow>
                  (case owners rows name of
                     [owner] \<Rightarrow> if org = [] then map_option (Pair owner) (first_row rows owner name) else None
                   | _ \<Rightarrow> None)))"
    proof (cases "\<exists>o'. owners rows name = [o']")
      case True
      then obtain o' where o': "owners rows name = [o']" by blast
      from single(2) [OF o'] obtain v where "sc_orgs s = [(o', v)]" "first_row rows o' name = Some v" by blast
      with Some glob orgs o' show ?thesis
        by (auto simp: ns_resolve_def scoped_resolve_def split: option.splits)
    next
      case False
      then have "length (sc_orgs s) \<noteq> 1"
        and "owners rows name = [] \<or> (\<exists>a b l. owners rows name = a # b # l)"
        using single(1) by (blast, metis neq_Nil_conv)
      with Some glob orgs show ?thesis
        by (auto simp: ns_resolve_def scoped_resolve_def split: option.splits)
    qed
  qed
qed

section \<open>The fold leaves no ambiguous name\<close>

lemma shared_loop_set:
  "set (shared_loop names seen shared) =
     set shared \<union> {n \<in> set names. n \<in> set seen \<or> 1 < count_list names n}"
proof (induction names seen shared rule: shared_loop.induct)
  case (2 n ns seen shared)
  have "0 < count_list ns m \<longleftrightarrow> m \<in> set ns" for m by (simp add: count_list_0_iff Suc_le_eq flip: neq0_conv)
  with 2 show ?case by (auto simp: count_list_0_iff)
qed simp

lemma shared_names_set: "set (shared_names names) = {n \<in> set names. 1 < count_list names n}"
  by (simp add: shared_names_def shared_loop_set)

lemma count_list_map_filter: "count_list (map f xs) y = length (filter (\<lambda>x. f x = y) xs)"
  by (induction xs) auto

text \<open>
  A gateway without namespaces is never sent an ambiguous organisation row. After the fold every
  organisation-owned route is the only route of its name, every organisation-owned provider the only
  provider of its name and the only provider or group at its address, the global rows are all kept,
  and every dropped provider is listed as left out.
\<close>

lemma legacy_fold_unambiguous:
  assumes "fold_for_legacy_gateway lower c = (problems, c')"
  shows "(\<forall>r\<in>set (lc_routes c'). lr_tenancy r \<noteq> None \<longrightarrow>
      length (filter (\<lambda>q. lr_name q = lr_name r) (lc_routes c)) = 1)"
    and "(\<forall>p\<in>set (lc_providers c'). lr_tenancy p \<noteq> None \<longrightarrow>
      length (filter (\<lambda>q. lr_name q = lr_name p) (lc_providers c)) = 1 \<and>
      length (filter (\<lambda>q. row_slug lower q = row_slug lower p) (lc_providers c @ lc_provider_groups c)) = 1)"
    and "filter (\<lambda>r. lr_tenancy r = None) (lc_routes c') = filter (\<lambda>r. lr_tenancy r = None) (lc_routes c)"
    and "p \<in> set (lc_providers c) \<Longrightarrow> p \<in> set (lc_providers c') \<or>
      (org_of (lr_tenancy p), lr_name p) \<in> set (lc_left_out c')"
proof -
  have one: "length (filter (\<lambda>q. f q = f r) rs) = 1"
    if "r \<in> set rs" "\<not> 1 < count_list (map f rs) (f r)" for f :: "legacy_row \<Rightarrow> string" and r rs
  proof -
    have "filter (\<lambda>q. f q = f r) rs \<noteq> []" using that(1) by (auto simp: filter_empty_conv)
    moreover have "\<not> 1 < length (filter (\<lambda>q. f q = f r) rs)" using that(2) unfolding count_list_map_filter .
    ultimately show ?thesis by (cases "filter (\<lambda>q. f q = f r) rs") auto
  qed
  note defs = assms [unfolded fold_for_legacy_gateway_def Let_def prod.inject, THEN conjunct2, symmetric]
  show "\<forall>r\<in>set (lc_routes c'). lr_tenancy r \<noteq> None \<longrightarrow>
      length (filter (\<lambda>q. lr_name q = lr_name r) (lc_routes c)) = 1"
    by (auto simp: defs shared_names_set intro!: one [where f = lr_name, simplified])
  show "\<forall>p\<in>set (lc_providers c'). lr_tenancy p \<noteq> None \<longrightarrow>
      length (filter (\<lambda>q. lr_name q = lr_name p) (lc_providers c)) = 1 \<and>
      length (filter (\<lambda>q. row_slug lower q = row_slug lower p) (lc_providers c @ lc_provider_groups c)) = 1"
  proof (intro ballI impI conjI)
    fix p assume p: "p \<in> set (lc_providers c')" and "lr_tenancy p \<noteq> None"
    then have n: "\<not> 1 < count_list (map lr_name (lc_providers c)) (lr_name p)"
      and a: "\<not> 1 < count_list (map (row_slug lower) (lc_providers c @ lc_provider_groups c)) (row_slug lower p)"
      and mem: "p \<in> set (lc_providers c)"
      by (auto simp: defs shared_names_set)
    show "length (filter (\<lambda>q. lr_name q = lr_name p) (lc_providers c)) = 1" by (rule one [OF mem n])
    show "length (filter (\<lambda>q. row_slug lower q = row_slug lower p) (lc_providers c @ lc_provider_groups c)) = 1"
      by (rule one [OF _ a]) (use mem in simp)
  qed
  show "filter (\<lambda>r. lr_tenancy r = None) (lc_routes c') = filter (\<lambda>r. lr_tenancy r = None) (lc_routes c)"
    by (simp add: defs) (rule filter_cong, auto)
  show "p \<in> set (lc_providers c) \<Longrightarrow> p \<in> set (lc_providers c') \<or>
      (org_of (lr_tenancy p), lr_name p) \<in> set (lc_left_out c')"
    by (auto simp: defs)
qed

end
