(* ===== verification/Access.thy ===== *)
theory Access
  imports Namespace Balancer_Contract
begin

text \<open>
  Who may reach what: access-profile policies (\<open>rolter-core/src/access_policy.rs\<close>), virtual keys,
  routes and the snapshot they are resolved in (\<open>rolter-gateway/src/state.rs\<close>), and the gates of
  \<open>rolter-gateway/src/handlers.rs\<close>: authentication, model and route authorisation, and the recheck of
  a live session. The key digest, the header decoder and the clock are arguments.
\<close>

section \<open>Access-profile policies\<close>

record model_policy =
  mp_allowed_models :: "string list"
  mp_denied_models :: "string list"
  mp_allowed_routes :: "string list"
  mp_denied_routes :: "string list"

definition model_policy_default :: model_policy where
  "model_policy_default =
     \<lparr>mp_allowed_models = [], mp_denied_models = [], mp_allowed_routes = [], mp_denied_routes = []\<rparr>"

definition is_unrestricted :: "model_policy \<Rightarrow> bool" where
  "is_unrestricted p =
     (mp_allowed_models p = [] \<and> mp_denied_models p = [] \<and> mp_allowed_routes p = [] \<and>
      mp_denied_routes p = [])"

definition matches_pattern :: "string \<Rightarrow> string \<Rightarrow> bool" where
  "matches_pattern name pattern =
     (case strip_suffix pattern ''*'' of
        Some p \<Rightarrow> starts_with name p
      | None \<Rightarrow> name = pattern)"

definition permits :: "string \<Rightarrow> string list \<Rightarrow> string list \<Rightarrow> bool" where
  "permits name allowed denied =
     (if list_ex (matches_pattern name) denied then False
      else allowed = [] \<or> list_ex (matches_pattern name) allowed)"

definition permits_model :: "model_policy \<Rightarrow> string \<Rightarrow> bool" where
  "permits_model p model = permits model (mp_allowed_models p) (mp_denied_models p)"

definition permits_route :: "model_policy \<Rightarrow> string \<Rightarrow> bool" where
  "permits_route p route = permits route (mp_allowed_routes p) (mp_denied_routes p)"

text \<open>\<open>list.sort()\<close> and \<open>list.dedup()\<close> order the strings by their bytes.\<close>

definition bytes_le :: "string \<Rightarrow> string \<Rightarrow> bool" where
  "bytes_le a b = (a = b \<or> ord_class.lexordp (map byte a) (map byte b :: nat list))"

fun insert_sorted :: "string \<Rightarrow> string list \<Rightarrow> string list" where
  "insert_sorted x [] = [x]"
| "insert_sorted x (y # ys) = (if bytes_le x y then x # y # ys else y # insert_sorted x ys)"

fun dedup :: "'a list \<Rightarrow> 'a list" where
  "dedup [] = []"
| "dedup [x] = [x]"
| "dedup (x # y # xs) = (if x = y then dedup (y # xs) else x # dedup (y # xs))"

definition sort_dedup :: "string list \<Rightarrow> string list" where
  "sort_dedup xs = dedup (foldr insert_sorted xs [])"

definition merge_policies :: "model_policy list \<Rightarrow> model_policy" where
  "merge_policies ps =
     (let models_unrestricted = list_ex (\<lambda>p. mp_allowed_models p = []) ps;
          routes_unrestricted = list_ex (\<lambda>p. mp_allowed_routes p = []) ps;
          merged =
            foldl (\<lambda>m p. m\<lparr>mp_allowed_models := mp_allowed_models m @ mp_allowed_models p,
                           mp_denied_models := mp_denied_models m @ mp_denied_models p,
                           mp_allowed_routes := mp_allowed_routes m @ mp_allowed_routes p,
                           mp_denied_routes := mp_denied_routes m @ mp_denied_routes p\<rparr>)
              model_policy_default ps;
          merged = (if models_unrestricted then merged\<lparr>mp_allowed_models := []\<rparr> else merged);
          merged = (if routes_unrestricted then merged\<lparr>mp_allowed_routes := []\<rparr> else merged)
      in merged\<lparr>mp_allowed_models := sort_dedup (mp_allowed_models merged),
                mp_denied_models := sort_dedup (mp_denied_models merged),
                mp_allowed_routes := sort_dedup (mp_allowed_routes merged),
                mp_denied_routes := sort_dedup (mp_denied_routes merged)\<rparr>)"

section \<open>Keys\<close>

record key_meta =
  km_tenant_key :: string
  km_id :: string
  km_org_id :: string
  km_team_id :: string
  km_project_id :: string
  km_user_id :: string
  km_models :: "string list"
  km_providers :: "string list"
  km_disabled :: bool
  km_expires_at :: "nat option"
  km_cache_override :: "bool option"
  km_business_unit_id :: string
  km_customer_id :: string
  km_access_policy :: "model_policy option"

definition key_default :: key_meta where
  "key_default =
     \<lparr>km_tenant_key = [], km_id = [], km_org_id = [], km_team_id = [], km_project_id = [],
      km_user_id = [], km_models = [], km_providers = [], km_disabled = False, km_expires_at = None,
      km_cache_override = None, km_business_unit_id = [], km_customer_id = [], km_access_policy = None\<rparr>"

definition is_active :: "key_meta \<Rightarrow> nat \<Rightarrow> bool" where
  "is_active k now = (\<not> km_disabled k \<and> (case km_expires_at k of None \<Rightarrow> True | Some e \<Rightarrow> now < e))"

definition provider_allowed :: "key_meta \<Rightarrow> string \<Rightarrow> bool" where
  "provider_allowed k provider =
     (km_providers k = [] \<or>
      list_ex
        (\<lambda>name. name = provider \<or>
           (case Option.bind (strip_prefix provider name) (\<lambda>rest. strip_prefix rest [QUALIFIER]) of
              None \<Rightarrow> False
            | Some org \<Rightarrow> km_org_id k = [] \<or> org = km_org_id k))
        (km_providers k))"

definition model_allowed :: "string list \<Rightarrow> string \<Rightarrow> bool" where
  "model_allowed allowed model = (allowed = [] \<or> model \<in> set allowed)"

definition model_permitted :: "key_meta \<Rightarrow> string \<Rightarrow> bool" where
  "model_permitted k model =
     (model_allowed (km_models k) model \<and>
      (case km_access_policy k of None \<Rightarrow> True | Some p \<Rightarrow> permits_model p model))"

definition route_permitted :: "key_meta \<Rightarrow> string \<Rightarrow> bool" where
  "route_permitted k route =
     (case km_access_policy k of None \<Rightarrow> True | Some p \<Rightarrow> permits_route p route)"

definition key_org :: "key_meta option \<Rightarrow> string" where
  "key_org key = (case key of None \<Rightarrow> GLOBAL | Some k \<Rightarrow> km_org_id k)"

section \<open>Routes, groups and the snapshot\<close>

text \<open>The parts of an entry the routing and access decisions read.\<close>

record route_entry =
  re_route :: model_route
  re_namespace :: string
  re_balancer :: balancer
  re_variant_balancers :: "balancer list"
  re_project_scope :: "string option"

definition in_tenancy_of :: "route_entry \<Rightarrow> key_meta option \<Rightarrow> bool" where
  "in_tenancy_of entry key =
     (let route = re_route entry
      in if \<not> tenancy_admits (mr_tenancy route) (key_org key) then False
         else if mv_project_only (mr_visibility route) \<and>
                 (case (key, Option.bind (mr_tenancy route) tn_project_id) of
                    (Some k, Some project) \<Rightarrow> km_org_id k \<noteq> [] \<and> km_project_id k \<noteq> project
                  | _ \<Rightarrow> False) then False
         else
           case (key, re_project_scope entry) of
             (Some k, Some scope) \<Rightarrow> \<not> (km_org_id k \<noteq> [] \<and> km_project_id k \<noteq> scope)
           | _ \<Rightarrow> True)"

record provider_config =
  pv_name :: string
  pv_slug :: "string option"
  pv_keys :: provider_keys
  pv_tenancy :: "tenancy option"

definition provider_scope :: "provider_config \<Rightarrow> string option" where
  "provider_scope p = Option.bind (pv_tenancy p) tn_project_id"

record group_member =
  gm_provider :: string
  gm_model :: "string option"
  gm_weight :: nat

record provider_group =
  pg_name :: string
  pg_slug :: "string option"
  pg_strategy :: balancing_strategy
  pg_members :: "group_member list"
  pg_tenancy :: "tenancy option"

record group_entry =
  ge_config :: provider_group
  ge_balancer :: balancer

type_synonym providers = "(string, provider_config) hash_map"

fun find_map :: "('a \<Rightarrow> 'b option) \<Rightarrow> 'a list \<Rightarrow> 'b option" where
  "find_map f [] = None"
| "find_map f (x # xs) = (case f x of Some y \<Rightarrow> Some y | None \<Rightarrow> find_map f xs)"

definition group_project_scope :: "group_entry \<Rightarrow> providers \<Rightarrow> string option" where
  "group_project_scope g ps =
     (case Option.bind (pg_tenancy (ge_config g)) tn_project_id of
        Some p \<Rightarrow> Some p
      | None \<Rightarrow>
          find_map (\<lambda>member. Option.bind (hm_get ps (gm_provider member)) provider_scope)
            (pg_members (ge_config g)))"

definition group_in_tenancy_of :: "group_entry \<Rightarrow> key_meta option \<Rightarrow> providers \<Rightarrow> bool" where
  "group_in_tenancy_of g key ps =
     (if \<not> tenancy_admits (pg_tenancy (ge_config g)) (key_org key) then False
      else
        case (key, group_project_scope g ps) of
          (Some k, Some scope) \<Rightarrow> \<not> (km_org_id k \<noteq> [] \<and> km_project_id k \<noteq> scope)
        | _ \<Rightarrow> True)"

record snapshot_state =
  sn_providers :: providers
  sn_providers_by_slug :: "string namespaced"
  sn_groups_by_slug :: "group_entry namespaced"
  sn_routes :: "route_entry namespaced"
  sn_keys :: "(string, key_meta) hash_map"
  sn_pepper :: string
  sn_require_auth :: "bool option"
  sn_auth_bypass_routes :: "string list"
  sn_retry :: retry_config
  sn_cooldown :: cooldown_config

section \<open>Provider runtime ids\<close>

definition index_names :: "provider_config list \<Rightarrow> unit namespaced" where
  "index_names ps =
     foldl (\<lambda>t p. snd (ns_insert (org_of (pv_tenancy p)) (pv_name p) () t)) ns_new ps"

definition index_step ::
  "unit namespaced \<Rightarrow> providers \<times> string namespaced \<Rightarrow> provider_config \<Rightarrow> providers \<times> string namespaced"
where
  "index_step names acc p =
     (case acc of
        (providers, ids) \<Rightarrow>
          let org = org_of (pv_tenancy p)
          in if starts_with (pv_name p) [CHR 0x00] then acc
             else
               let i = (if ns_is_shared names (pv_name p) then qualify (pv_name p) org else pv_name p)
               in if hm_get providers i \<noteq> None \<or> ns_owned_by ids org (pv_name p) \<noteq> None then acc
                  else
                    (hm_insert i (p\<lparr>pv_name := i\<rparr>) providers,
                     snd (ns_insert org (pv_name p) i ids)))"

definition index_providers :: "provider_config list \<Rightarrow> providers \<times> string namespaced" where
  "index_providers ps = foldl (index_step (index_names ps)) ([], ns_new) ps"

definition provider_label :: "snapshot_state \<Rightarrow> string \<Rightarrow> string \<times> string" where
  "provider_label s i =
     (let org = (case hm_get (sn_providers s) i of None \<Rightarrow> GLOBAL | Some p \<Rightarrow> org_of (pv_tenancy p))
      in (display_name i org, org))"

definition provider_name :: "snapshot_state \<Rightarrow> string \<Rightarrow> string" where
  "provider_name s i = fst (provider_label s i)"

definition provider_id :: "snapshot_state \<Rightarrow> string \<Rightarrow> string \<Rightarrow> string option" where
  "provider_id s org name =
     (let owned = (\<lambda>i. case hm_get (sn_providers s) i of
                         None \<Rightarrow> None
                       | Some p \<Rightarrow> if org_of (pv_tenancy p) = org then Some i else None)
      in case owned name of Some i \<Rightarrow> Some i | None \<Rightarrow> owned (qualify name org))"

section \<open>Resolution\<close>

definition limits_default :: model_limits where
  "limits_default =
     \<lparr>ml_timeout_secs = None, ml_retries = None, ml_output_tokens = None, ml_rpm = None, ml_tpm = None,
      ml_concurrency = None\<rparr>"

definition visibility_default :: model_visibility where
  "visibility_default =
     \<lparr>mv_minimum_role = None, mv_allowed_team_ids = [], mv_allowed_key_ids = [],
      mv_allowed_user_ids = [], mv_project_only = False\<rparr>"

definition synthetic_route ::
  "(string \<Rightarrow> 64 word) \<Rightarrow> string \<Rightarrow> string \<Rightarrow> balancing_strategy \<Rightarrow> target list \<Rightarrow> balancer option \<Rightarrow>
    tenancy option \<Rightarrow> string option \<Rightarrow> route_entry"
where
  "synthetic_route hs model ns strategy targets bal ten scope =
     \<lparr>re_route =
        \<lparr>mr_model = model, mr_strategy = strategy, mr_targets = targets, mr_params = [],
         mr_param_policy = \<lparr>pp_mode = ModeAllow, pp_allow = [], pp_deny = []\<rparr>,
         mr_limits = limits_default, mr_visibility = visibility_default, mr_variants = [],
         mr_cache = None, mr_tenancy = ten\<rparr>,
      re_namespace = ns,
      re_balancer =
        (case bal of Some b \<Rightarrow> b | None \<Rightarrow> build hs strategy (map tg_weight targets)),
      re_variant_balancers = [], re_project_scope = scope\<rparr>"

datatype rows = Resolved | GlobalOnly

definition pinned_namespace :: "string \<Rightarrow> string \<Rightarrow> bool \<Rightarrow> string" where
  "pinned_namespace model owner shared = (if shared then qualify model owner else model)"

definition member_target :: "string \<Rightarrow> group_member \<Rightarrow> target" where
  "member_target upstream m =
     \<lparr>tg_provider = gm_provider m,
      tg_model = Some (case gm_model m of None \<Rightarrow> upstream | Some x \<Rightarrow> x),
      tg_weight = gm_weight m, tg_takes_over = []\<rparr>"

definition pinned_provider ::
  "(string \<Rightarrow> 64 word) \<Rightarrow> snapshot_state \<Rightarrow> string \<Rightarrow> string \<Rightarrow> string \<Rightarrow> string \<times> string \<Rightarrow> route_entry"
where
  "pinned_provider hs s model slug upstream row =
     (case row of
        (owner, pid) \<Rightarrow>
          synthetic_route hs model
            (pinned_namespace model owner (ns_is_shared (sn_providers_by_slug s) slug)) RoundRobin
            [\<lparr>tg_provider = pid, tg_model = Some upstream, tg_weight = 1, tg_takes_over = []\<rparr>] None
            (Option.bind (hm_get (sn_providers s) pid) pv_tenancy)
            (Option.bind (hm_get (sn_providers s) pid) provider_scope))"

definition pinned_group ::
  "(string \<Rightarrow> 64 word) \<Rightarrow> snapshot_state \<Rightarrow> string \<Rightarrow> string \<Rightarrow> string \<Rightarrow> string \<times> group_entry \<Rightarrow> route_entry option"
where
  "pinned_group hs s model slug upstream row =
     (case row of
        (owner, g) \<Rightarrow>
          let targets = map (member_target upstream) (pg_members (ge_config g))
          in if targets = [] then None
             else Some (synthetic_route hs model
               (pinned_namespace model owner (ns_is_shared (sn_groups_by_slug s) slug))
               (pg_strategy (ge_config g)) targets (Some (ge_balancer g)) (pg_tenancy (ge_config g))
               (group_project_scope g (sn_providers s))))"

definition slug_rows :: "'a namespaced \<Rightarrow> rows \<Rightarrow> string \<Rightarrow> string \<Rightarrow> (string \<times> 'a) option" where
  "slug_rows t rows org slug =
     (case rows of
        Resolved \<Rightarrow> ns_resolve t org slug
      | GlobalOnly \<Rightarrow> map_option (Pair GLOBAL) (ns_owned_by t GLOBAL slug))"

definition pinned ::
  "(string \<Rightarrow> 64 word) \<Rightarrow> snapshot_state \<Rightarrow> string \<Rightarrow> string \<Rightarrow> rows \<Rightarrow> route_entry option"
where
  "pinned hs s model org rows =
     (case split_once (CHR ''/'') model of
        None \<Rightarrow> None
      | Some (slug, upstream) \<Rightarrow>
          if upstream = [] then None
          else
            let provider = slug_rows (sn_providers_by_slug s) rows org slug;
                group = slug_rows (sn_groups_by_slug s) rows org slug;
                group_first =
                  (case (provider, group) of
                     (Some (p_owner, _), Some (g_owner, _)) \<Rightarrow>
                       p_owner \<noteq> org \<and> g_owner = org \<and> org \<noteq> []
                   | _ \<Rightarrow> False)
            in case (provider, group_first) of
                 (Some row, False) \<Rightarrow> Some (pinned_provider hs s model slug upstream row)
               | _ \<Rightarrow> Option.bind group (pinned_group hs s model slug upstream))"

definition named_route_for :: "snapshot_state \<Rightarrow> string \<Rightarrow> key_meta option \<Rightarrow> route_entry option" where
  "named_route_for s model key =
     map_option snd
       (ns_resolve_admitted (sn_routes s) (key_org key) model (\<lambda>entry. in_tenancy_of entry key))"

definition resolve_pinned_in ::
  "(string \<Rightarrow> 64 word) \<Rightarrow> snapshot_state \<Rightarrow> string \<Rightarrow> string \<Rightarrow> route_entry option"
where
  "resolve_pinned_in hs s model org = pinned hs s model org Resolved"

definition opt_filter :: "('a \<Rightarrow> bool) \<Rightarrow> 'a option \<Rightarrow> 'a option" where
  "opt_filter P x = (case x of None \<Rightarrow> None | Some v \<Rightarrow> if P v then Some v else None)"

datatype resolved_route = RNamed route_entry | RPinned route_entry

fun resolved_entry :: "resolved_route \<Rightarrow> route_entry" where
  "resolved_entry (RNamed e) = e"
| "resolved_entry (RPinned e) = e"

definition resolve_for ::
  "(string \<Rightarrow> 64 word) \<Rightarrow> snapshot_state \<Rightarrow> string \<Rightarrow> key_meta option \<Rightarrow> resolved_route option"
where
  "resolve_for hs s model key =
     (case named_route_for s model key of
        Some entry \<Rightarrow> Some (RNamed entry)
      | None \<Rightarrow>
          let org = key_org key
          in case opt_filter (\<lambda>entry. in_tenancy_of entry key) (resolve_pinned_in hs s model org) of
               Some entry \<Rightarrow> Some (RPinned entry)
             | None \<Rightarrow>
                 if org = GLOBAL then None
                 else
                   map_option RPinned
                     (opt_filter (\<lambda>entry. in_tenancy_of entry key) (pinned hs s model org GlobalOnly)))"

section \<open>Gates\<close>

datatype access_denial =
    ModelNotAllowed | NotVisible | RoutePolicy | NoProvider | ProviderNotAllowed | RouteRemoved

definition key_allows_route :: "key_meta \<Rightarrow> route_entry \<Rightarrow> bool" where
  "key_allows_route k entry =
     (route_permitted k (mr_model (re_route entry)) \<and>
      list_ex (\<lambda>t. provider_allowed k (tg_provider t)) (every_target (re_route entry)))"

definition model_visible_to :: "key_meta option \<Rightarrow> route_entry \<Rightarrow> bool" where
  "model_visible_to key entry =
     (if \<not> in_tenancy_of entry key then False
      else
        let v = mr_visibility (re_route entry)
        in if mv_allowed_team_ids v = [] \<and> mv_allowed_key_ids v = [] \<and> mv_allowed_user_ids v = [] then True
           else
             case key of
               None \<Rightarrow> False
             | Some k \<Rightarrow> km_team_id k \<in> set (mv_allowed_team_ids v) \<or> km_id k \<in> set (mv_allowed_key_ids v))"

definition authorize_model :: "key_meta option \<Rightarrow> string \<Rightarrow> access_denial + unit" where
  "authorize_model key model =
     (case key of
        Some k \<Rightarrow> if \<not> model_permitted k model then Inl ModelNotAllowed else Inr ()
      | None \<Rightarrow> Inr ())"

definition authorize_route :: "key_meta option \<Rightarrow> route_entry \<Rightarrow> access_denial + unit" where
  "authorize_route key entry =
     (if \<not> model_visible_to key entry then Inl NotVisible
      else
        case key of
          None \<Rightarrow> Inr ()
        | Some k \<Rightarrow>
            if \<not> route_permitted k (mr_model (re_route entry)) then Inl RoutePolicy
            else if \<not> key_allows_route k entry then Inl NoProvider
            else Inr ())"

definition extract_key ::
  "(string \<Rightarrow> string option) \<Rightarrow> (string, string) hash_map \<Rightarrow> string option"
where
  "extract_key to_str headers =
     (case Option.bind (Option.bind (hm_get headers ''authorization'') to_str)
             (\<lambda>s. strip_prefix s ''Bearer '') of
        Some token \<Rightarrow> Some token
      | None \<Rightarrow> Option.bind (hm_get headers ''x-api-key'') to_str)"

datatype auth_error = MissingKey | InvalidKey

definition authenticate ::
  "(string \<Rightarrow> string \<Rightarrow> string) \<Rightarrow> (string \<Rightarrow> string option) \<Rightarrow> bool \<Rightarrow> snapshot_state \<Rightarrow>
    (string, string) hash_map \<Rightarrow> string \<Rightarrow> nat \<Rightarrow> auth_error + key_meta option"
where
  "authenticate hash_key to_str managed_auth s headers path now =
     (if path \<in> set (sn_auth_bypass_routes s) then Inr None
      else if sn_keys s = [] then
        let required = (case sn_require_auth s of None \<Rightarrow> managed_auth | Some r \<Rightarrow> r)
        in if required then Inl MissingKey else Inr None
      else
        case extract_key to_str headers of
          None \<Rightarrow> Inl MissingKey
        | Some key \<Rightarrow>
            (case hm_get (sn_keys s) (hash_key (sn_pepper s) key) of
               Some vk \<Rightarrow> if is_active vk now then Inr (Some vk) else Inl InvalidKey
             | None \<Rightarrow> Inl InvalidKey))"

datatype access_revoked =
    RevokedKey | RevokedDenied access_denial | RevokedNoRoute string | RevokedProvider

definition recheck_session_access ::
  "snapshot_state \<Rightarrow> string \<Rightarrow> string \<Rightarrow> string \<Rightarrow> nat \<Rightarrow> access_revoked + key_meta"
where
  "recheck_session_access s digest model provider now =
     (case opt_filter (\<lambda>k. is_active k now) (hm_get (sn_keys s) digest) of
        None \<Rightarrow> Inl RevokedKey
      | Some key \<Rightarrow>
          (case authorize_model (Some key) model of
             Inl d \<Rightarrow> Inl (RevokedDenied d)
           | Inr _ \<Rightarrow>
               (case named_route_for s model (Some key) of
                  None \<Rightarrow> Inl (RevokedNoRoute model)
                | Some entry \<Rightarrow>
                    (case authorize_route (Some key) entry of
                       Inl d \<Rightarrow> Inl (RevokedDenied d)
                     | Inr _ \<Rightarrow>
                         if \<not> provider_allowed key provider then Inl RevokedProvider else Inr key))))"

record scope_ids =
  si_org :: string
  si_team :: string
  si_project :: string
  si_key :: string
  si_business_unit :: string
  si_customer :: string
  si_user :: string

definition request_scope :: "key_meta option \<Rightarrow> scope_ids" where
  "request_scope vk =
     (case vk of
        None \<Rightarrow>
          \<lparr>si_org = [], si_team = [], si_project = [], si_key = [], si_business_unit = [],
           si_customer = [], si_user = []\<rparr>
      | Some v \<Rightarrow>
          \<lparr>si_org = km_org_id v, si_team = km_team_id v, si_project = km_project_id v, si_key = km_id v,
           si_business_unit = km_business_unit_id v, si_customer = km_customer_id v,
           si_user = km_user_id v\<rparr>)"

end
