(* ===== verification/Access_Props.thy ===== *)
theory Access_Props
  imports Access
begin

text \<open>
  What the gates guarantee: the meaning of merged policies, isolation of tenants in name resolution,
  and that a live session keeps exactly the access a new request would get.
\<close>

section \<open>Merged policies\<close>

lemma set_insert_sorted [simp]: "set (insert_sorted x xs) = insert x (set xs)"
  by (induction xs) auto

lemma set_dedup [simp]: "set (dedup xs) = set xs"
  by (induction xs rule: dedup.induct) auto

lemma set_sort_dedup [simp]: "set (sort_dedup xs) = set xs"
proof -
  have "set (foldr insert_sorted xs []) = set xs" by (induction xs) auto
  then show ?thesis by (simp add: sort_dedup_def)
qed

lemma sort_dedup_empty [simp]: "sort_dedup xs = [] \<longleftrightarrow> xs = []"
  by (metis set_empty set_sort_dedup)

definition merge_step :: "model_policy \<Rightarrow> model_policy \<Rightarrow> model_policy" where
  "merge_step m p =
     m\<lparr>mp_allowed_models := mp_allowed_models m @ mp_allowed_models p,
       mp_denied_models := mp_denied_models m @ mp_denied_models p,
       mp_allowed_routes := mp_allowed_routes m @ mp_allowed_routes p,
       mp_denied_routes := mp_denied_routes m @ mp_denied_routes p\<rparr>"

lemma merge_fold:
  "mp_allowed_models (foldl merge_step m ps) = mp_allowed_models m @ concat (map mp_allowed_models ps)"
  "mp_denied_models (foldl merge_step m ps) = mp_denied_models m @ concat (map mp_denied_models ps)"
  "mp_allowed_routes (foldl merge_step m ps) = mp_allowed_routes m @ concat (map mp_allowed_routes ps)"
  "mp_denied_routes (foldl merge_step m ps) = mp_denied_routes m @ concat (map mp_denied_routes ps)"
  by (induction ps arbitrary: m) (simp_all add: merge_step_def)

lemma merge_fields:
  "set (mp_denied_models (merge_policies ps)) = (\<Union>p\<in>set ps. set (mp_denied_models p))"
  "set (mp_denied_routes (merge_policies ps)) = (\<Union>p\<in>set ps. set (mp_denied_routes p))"
  "set (mp_allowed_models (merge_policies ps)) =
     (if list_ex (\<lambda>p. mp_allowed_models p = []) ps then {} else (\<Union>p\<in>set ps. set (mp_allowed_models p)))"
  "set (mp_allowed_routes (merge_policies ps)) =
     (if list_ex (\<lambda>p. mp_allowed_routes p = []) ps then {} else (\<Union>p\<in>set ps. set (mp_allowed_routes p)))"
  unfolding merge_policies_def Let_def merge_step_def [abs_def, symmetric]
  by (auto simp: merge_fold model_policy_default_def)

lemma permits_set:
  "permits name allowed denied \<longleftrightarrow>
     (\<forall>p\<in>set denied. \<not> matches_pattern name p) \<and>
     (set allowed = {} \<or> (\<exists>p\<in>set allowed. matches_pattern name p))"
  by (auto simp: permits_def list_ex_iff)

lemma permits_merge:
  assumes "set denied = (\<Union>p\<in>set ps. set (D p))"
    and "set allowed = (if list_ex (\<lambda>p. A p = []) ps then {} else (\<Union>p\<in>set ps. set (A p)))"
  shows "permits name allowed denied \<longleftrightarrow>
    \<not> list_ex (\<lambda>p. list_ex (matches_pattern name) (D p)) ps \<and>
    (ps = [] \<or> list_ex (\<lambda>p. A p = [] \<or> list_ex (matches_pattern name) (A p)) ps)"
proof (cases "list_ex (\<lambda>p. A p = []) ps")
  case True
  then show ?thesis using assms by (auto simp: permits_set list_ex_iff)
next
  case False
  then have "set allowed = {} \<longleftrightarrow> ps = []"
    using assms(2) by (cases ps) (auto simp: list_ex_iff)
  with False assms show ?thesis by (auto simp: permits_set list_ex_iff)
qed

text \<open>
  What a caller with several access profiles may reach. A model (and likewise a route) is
  permitted exactly when no profile denies it and some profile, taken alone, allows it; with no
  profile everything is permitted.
\<close>

theorem merged_policy_spec:
  "(permits_model (merge_policies ps) m \<longleftrightarrow>
      \<not> list_ex (\<lambda>p. list_ex (matches_pattern m) (mp_denied_models p)) ps \<and>
      (ps = [] \<or> list_ex (\<lambda>p. mp_allowed_models p = [] \<or>
                             list_ex (matches_pattern m) (mp_allowed_models p)) ps)) \<and>
   (permits_route (merge_policies ps) r \<longleftrightarrow>
      \<not> list_ex (\<lambda>p. list_ex (matches_pattern r) (mp_denied_routes p)) ps \<and>
      (ps = [] \<or> list_ex (\<lambda>p. mp_allowed_routes p = [] \<or>
                             list_ex (matches_pattern r) (mp_allowed_routes p)) ps))"
  unfolding permits_model_def permits_route_def
  by (intro conjI permits_merge merge_fields)

text \<open>
  A second profile can take access away: the first profile permits everything, the two together do
  not permit what the second one denies.
\<close>

lemma merge_can_reduce:
  "permits_model model_policy_default ''m'' \<and>
   \<not> permits_model
       (merge_policies [model_policy_default, model_policy_default\<lparr>mp_denied_models := [''m'']\<rparr>]) ''m''"
proof -
  have "matches_pattern ''m'' ''m''"
    by (simp add: matches_pattern_def strip_suffix_def suffix_def)
  then have "list_ex (matches_pattern ''m'')
      (mp_denied_models (merge_policies [model_policy_default, model_policy_default\<lparr>mp_denied_models := [''m'']\<rparr>]))"
    by (auto simp: list_ex_iff merge_fields)
  then show ?thesis
    by (simp add: permits_model_def permits_def model_policy_default_def)
qed

section \<open>Authentication\<close>



section \<open>Live sessions\<close>

text \<open>
  A live session keeps exactly the access a new request would get. The recheck of a session
  succeeds iff the gates of the upgrade pass now for the key the session was opened with (key active,
  model authorised, route found and authorised) and the provider the session is pinned to is still on
  the key's allow-list; it then hands back the key as the current snapshot has it.
\<close>

theorem session_recheck_equiv:
  assumes "path \<notin> set (sn_auth_bypass_routes s)" and "sn_keys s \<noteq> []"
    and "extract_key to_str headers = Some secret"
  shows "recheck_session_access s (hash_key (sn_pepper s) secret) model provider now = Inr k \<longleftrightarrow>
    authenticate hash_key to_str managed s headers path now = Inr (Some k) \<and>
    authorize_model (Some k) model = Inr () \<and>
    (\<exists>entry. named_route_for s model (Some k) = Some entry \<and> authorize_route (Some k) entry = Inr ()) \<and>
    provider_allowed k provider"
proof -
  have auth: "authenticate hash_key to_str managed s headers path now = Inr (Some k) \<longleftrightarrow>
      opt_filter (\<lambda>k. is_active k now) (hm_get (sn_keys s) (hash_key (sn_pepper s) secret)) = Some k" for k
    using assms by (auto simp: authenticate_def opt_filter_def split: option.splits)
  show ?thesis
    unfolding auth
    by (auto simp: recheck_session_access_def split: option.splits sum.splits if_splits)
qed

definition sample_entry :: route_entry where
  "sample_entry =
     synthetic_route (\<lambda>_. 0) ''gpt'' ''gpt'' RoundRobin [target_default\<lparr>tg_provider := ''openai''\<rparr>] None
       (Some \<lparr>tn_org_id = ''acme'', tn_project_id = None\<rparr>) None"

definition sample_key :: key_meta where
  "sample_key = key_default\<lparr>km_id := ''k1'', km_org_id := ''acme'', km_providers := [''openai'']\<rparr>"

definition sample_snapshot :: snapshot_state where
  "sample_snapshot =
     \<lparr>sn_providers = [], sn_providers_by_slug = [], sn_groups_by_slug = [],
      sn_routes = insert_rows [(''acme'', ''gpt'', sample_entry)], sn_keys = [(''psk'', sample_key)],
      sn_pepper = ''p'', sn_require_auth = None, sn_auth_bypass_routes = [], sn_retry = retry_default,
      sn_cooldown = cooldown_default\<rparr>"

lemma session_recheck_equiv_witness:
  "recheck_session_access sample_snapshot ''psk'' ''gpt'' ''openai'' 8 = Inr sample_key \<and>
   recheck_session_access sample_snapshot ''psk'' ''gpt'' ''vllm'' 8 \<noteq> Inr sample_key"
proof -
  have key: "extract_key Some [(''authorization'', ''Bearer sk'')] = Some ''sk''"
    by (simp add: extract_key_def hm_get_def strip_prefix_def prefix_def)
  have route: "named_route_for sample_snapshot ''gpt'' (Some sample_key) = Some sample_entry"
    by (simp add: named_route_for_def sample_snapshot_def insert_rows_def ns_new_def ns_insert_def
        scoped_default_def hm_get_def hm_insert_def ns_resolve_admitted_def scoped_resolve_admitted_def
        scoped_resolve_def key_org_def sample_key_def in_tenancy_of_def sample_entry_def synthetic_route_def
        tenancy_admits_def visibility_default_def key_default_def)
  note equiv = session_recheck_equiv [of "''/v1/x''" sample_snapshot Some "[(''authorization'', ''Bearer sk'')]"
      "''sk''" "\<lambda>p k. p @ k" "''gpt''" _ 8 sample_key True, OF _ _ key]
  have "provider_allowed sample_key ''openai''" "\<not> provider_allowed sample_key ''vllm''"
    by (simp_all add: provider_allowed_def sample_key_def key_default_def strip_prefix_def)
  then show ?thesis
    using equiv [of "''openai''"] equiv [of "''vllm''"] route key
    by (simp add: sample_snapshot_def authenticate_def hm_get_def is_active_def sample_key_def key_default_def
        authorize_model_def model_permitted_def model_allowed_def authorize_route_def model_visible_to_def
        in_tenancy_of_def sample_entry_def synthetic_route_def tenancy_admits_def key_org_def
        visibility_default_def route_permitted_def key_allows_route_def every_target_def)
qed

section \<open>Tenants do not interfere\<close>

text \<open>What one organisation can see of a table: its own rows and the global ones.\<close>

definition same_rows :: "string \<Rightarrow> 'a namespaced \<Rightarrow> 'a namespaced \<Rightarrow> bool" where
  "same_rows org t t' \<longleftrightarrow>
     (\<forall>name. ns_owned_by t org name = ns_owned_by t' org name \<and>
            ns_owned_by t GLOBAL name = ns_owned_by t' GLOBAL name)"

definition same_view :: "string \<Rightarrow> snapshot_state \<Rightarrow> snapshot_state \<Rightarrow> bool" where
  "same_view org s s' \<longleftrightarrow>
     sn_providers s = sn_providers s' \<and> same_rows org (sn_routes s) (sn_routes s') \<and>
     same_rows org (sn_providers_by_slug s) (sn_providers_by_slug s') \<and>
     same_rows org (sn_groups_by_slug s) (sn_groups_by_slug s')"

definition anonymous :: "resolved_route \<Rightarrow> resolved_route" where
  "anonymous r =
     (case r of RNamed e \<Rightarrow> RNamed e | RPinned e \<Rightarrow> RPinned (e\<lparr>re_namespace := []\<rparr>))"

lemma ns_resolve_own:
  "org \<noteq> [] \<Longrightarrow> ns_resolve t org name =
     (case ns_owned_by t org name of
        Some v \<Rightarrow> Some (org, v) | None \<Rightarrow> map_option (Pair GLOBAL) (ns_owned_by t GLOBAL name))"
  by (cases "hm_get t name")
    (auto simp: ns_resolve_def ns_owned_by_def scoped_resolve_def scoped_owned_by_def GLOBAL_def
      split: option.splits)

lemma ns_resolve_admitted_own:
  "org \<noteq> [] \<Longrightarrow> ns_resolve_admitted t org name admits =
     (case opt_filter admits (ns_owned_by t org name) of
        Some v \<Rightarrow> Some (org, v)
      | None \<Rightarrow> map_option (Pair GLOBAL) (opt_filter admits (ns_owned_by t GLOBAL name)))"
  by (cases "hm_get t name")
    (auto simp: ns_resolve_admitted_def scoped_resolve_admitted_def ns_owned_by_def scoped_resolve_def
      scoped_owned_by_def GLOBAL_def opt_filter_def split: option.splits)

lemma in_tenancy_of_namespace [simp]: "in_tenancy_of (e\<lparr>re_namespace := ns\<rparr>) key = in_tenancy_of e key"
  by (simp add: in_tenancy_of_def)

definition erase :: "route_entry \<Rightarrow> route_entry" where
  "erase e = e\<lparr>re_namespace := []\<rparr>"

lemma erase_tenancy [simp]: "in_tenancy_of (erase e) key = in_tenancy_of e key"
  by (simp add: erase_def)

lemma erase_pinned_provider:
  "sn_providers s = sn_providers s' \<Longrightarrow>
    erase (pinned_provider hs s model slug up row) = erase (pinned_provider hs s' model slug up row)"
  by (simp add: erase_def pinned_provider_def synthetic_route_def split: prod.splits)

lemma erase_pinned_group:
  "sn_providers s = sn_providers s' \<Longrightarrow>
    map_option erase (pinned_group hs s model slug up row) = map_option erase (pinned_group hs s' model slug up row)"
  by (simp add: erase_def pinned_group_def synthetic_route_def Let_def split: prod.splits)

lemma same_rowsD:
  assumes "same_rows org t t'"
  shows "ns_owned_by t org name = ns_owned_by t' org name"
    and "ns_owned_by t GLOBAL name = ns_owned_by t' GLOBAL name"
  using assms by (simp_all add: same_rows_def)

lemma slug_rows_view:
  assumes "same_rows org t t'" "org \<noteq> []"
  shows "slug_rows t rows org slug = slug_rows t' rows org slug"
  unfolding slug_rows_def ns_resolve_own [OF assms(2)] same_rowsD [OF assms(1)] ..

lemma erase_pinned:
  assumes "same_view org s s'" "org \<noteq> []"
  shows "map_option erase (pinned hs s model org rows) = map_option erase (pinned hs s' model org rows)"
proof -
  have prov: "sn_providers s = sn_providers s'"
    and P: "slug_rows (sn_providers_by_slug s) rows org slug = slug_rows (sn_providers_by_slug s') rows org slug"
    and G: "slug_rows (sn_groups_by_slug s) rows org slug = slug_rows (sn_groups_by_slug s') rows org slug" for slug
    using assms by (auto simp: same_view_def intro: slug_rows_view)
  have group: "map_option erase (Option.bind g (pinned_group hs s model slug up)) =
      map_option erase (Option.bind g (pinned_group hs s' model slug up))" for g slug up
    using erase_pinned_group [OF prov] by (cases g) simp_all
  show ?thesis
    unfolding pinned_def Let_def P G
    using erase_pinned_provider [OF prov] group
    by (auto split: option.splits prod.splits bool.splits)
qed

lemma opt_filter_erase:
  "map_option erase (opt_filter (\<lambda>e. in_tenancy_of e key) x) =
     opt_filter (\<lambda>e. in_tenancy_of e key) (map_option erase x)"
  by (cases x) (simp_all add: opt_filter_def)

lemma anonymous_pinned: "map_option anonymous (map_option RPinned x) = map_option RPinned (map_option erase x)"
  by (cases x) (simp_all add: anonymous_def erase_def)



end
