(* ===== verification/Routing.thy ===== *)
theory Routing
  imports Access Cooldowns Breaker Health Load
begin

text \<open>
  Choosing the target of an attempt, from \<open>rolter-gateway/src/handlers.rs\<close>: the classic pool
  (\<open>TargetPool::pick\<close>) and the variant chain (\<open>variant_candidates\<close>, \<open>next_candidate\<close>). The registries
  and the balancers are threaded through; the clock is read once per pick. The cooldown registry's
  snapshot is taken whether or not the strategy asks for it, which no read can tell
  (\<open>Cooldowns.reads_unobservable\<close>).
\<close>

section \<open>What blocks a target\<close>

record registries =
  rg_cooldowns :: cooldowns
  rg_health :: health
  rg_breaker :: breaker

record blocked =
  bl_parked :: target_mask
  bl_unhealthy :: target_mask
  bl_open :: target_mask

definition blocked_read ::
  "registries \<Rightarrow> string \<Rightarrow> bool \<Rightarrow> nat \<Rightarrow> string list \<Rightarrow> instant \<Rightarrow> blocked \<times> registries"
where
  "blocked_read r model cd_enabled n providers now =
     (let (parked, cds) =
            (if cd_enabled then parked_mask (rg_cooldowns r) model n now
             else (mask_new, rg_cooldowns r))
      in (\<lparr>bl_parked = parked, bl_unhealthy = unhealthy_mask (rg_health r) providers,
           bl_open = open_mask (rg_breaker r) model n now\<rparr>,
          r\<lparr>rg_cooldowns := cds\<rparr>))"

definition blocked_contains :: "blocked \<Rightarrow> nat \<Rightarrow> bool" where
  "blocked_contains b idx =
     (mask_contains (bl_parked b) idx \<or> mask_contains (bl_unhealthy b) idx \<or>
      mask_contains (bl_open b) idx)"

section \<open>The classic pool\<close>

definition admits :: "route_entry \<Rightarrow> nat \<Rightarrow> key_meta option \<Rightarrow> failure option \<Rightarrow> bool" where
  "admits entry i key failure =
     (let t = mr_targets (re_route entry) ! i
      in (case key of None \<Rightarrow> True | Some k \<Rightarrow> provider_allowed k (tg_provider t)) \<and>
         may_dial (tg_takes_over t) failure)"

definition first_untried_allowed ::
  "route_entry \<Rightarrow> nat list \<Rightarrow> key_meta option \<Rightarrow> failure option \<Rightarrow> nat option"
where
  "first_untried_allowed entry tried key failure =
     find (\<lambda>i. i \<notin> set tried \<and> admits entry i key failure) [0..<length (mr_targets (re_route entry))]"

definition has_untried_target ::
  "route_entry \<Rightarrow> nat list \<Rightarrow> key_meta option \<Rightarrow> failure option \<Rightarrow> bool"
where
  "has_untried_target entry tried key failure = (first_untried_allowed entry tried key failure \<noteq> None)"

record target_pool =
  tp_entry :: route_entry
  tp_ctx :: route_context
  tp_loads :: "nat list"
  tp_namespace :: string
  tp_cd_enabled :: bool
  tp_key_meta :: "key_meta option"

definition pool_targets :: "target_pool \<Rightarrow> target list" where
  "pool_targets p = mr_targets (re_route (tp_entry p))"

definition breaker_admits :: "target_pool \<Rightarrow> bool \<Rightarrow> registries \<Rightarrow> nat \<Rightarrow> instant \<Rightarrow> bool \<times> registries" where
  "breaker_admits p take_probe r i now =
     (if take_probe then
        let (ok, b) = allows (rg_breaker r) (tp_namespace p) i now in (ok, r\<lparr>rg_breaker := b\<rparr>)
      else (\<not> refuses (rg_breaker r) (tp_namespace p) i now, r))"

definition skip_target ::
  "target_pool \<Rightarrow> failure option \<Rightarrow> bool \<Rightarrow> registries \<Rightarrow> nat \<Rightarrow> instant \<Rightarrow> bool \<times> registries"
where
  "skip_target p failure take_probe r i now =
     (if \<not> admits (tp_entry p) i (tp_key_meta p) failure then (True, r)
      else
        let (parked, r) =
              (if tp_cd_enabled p then
                 let (parked, c) = is_parked (rg_cooldowns r) (tp_namespace p) i now
                 in (parked, r\<lparr>rg_cooldowns := c\<rparr>)
               else (False, r))
        in if parked then (True, r)
           else if \<not> is_healthy (rg_health r) (tg_provider (pool_targets p ! i)) then (True, r)
           else let (ok, r) = breaker_admits p take_probe r i now in (\<not> ok, r))"

fun find_admitted ::
  "target_pool \<Rightarrow> bool \<Rightarrow> (nat \<Rightarrow> bool) \<Rightarrow> nat list \<Rightarrow> registries \<Rightarrow> instant \<Rightarrow> nat option \<times> registries"
where
  "find_admitted p take_probe usable [] r now = (None, r)"
| "find_admitted p take_probe usable (i # is) r now =
     (if usable i then
        let (ok, r) = breaker_admits p take_probe r i now
        in if ok then (Some i, r) else find_admitted p take_probe usable is r now
      else find_admitted p take_probe usable is r now)"

definition pick_with ::
  "env \<Rightarrow> target_pool \<Rightarrow> registries \<Rightarrow> nat list \<Rightarrow> failure option \<Rightarrow> bool \<Rightarrow> instant \<Rightarrow>
    nat option \<times> target_pool \<times> registries"
where
  "pick_with e p r tried failure take_probe now =
     (let entry = tp_entry p;
          n = length (pool_targets p);
          (snap, r) = blocked_read r (tp_namespace p) (tp_cd_enabled p) n
                        (map tg_provider (pool_targets p)) now;
          usable = (\<lambda>i. i < n \<and> i \<notin> set tried \<and> admits entry i (tp_key_meta p) failure \<and>
                       \<not> blocked_contains snap i);
          (choice, bal) = balancer_pick_eligible e (re_balancer entry) (tp_ctx p) (tp_loads p) usable;
          p' = p\<lparr>tp_entry := entry\<lparr>re_balancer := bal\<rparr>\<rparr>;
          (lead, r) =
            (case opt_filter (\<lambda>i. i < n) choice of
               None \<Rightarrow> (None, r)
             | Some i \<Rightarrow>
                 if i \<in> set tried then (None, r)
                 else
                   let (skip, r) = skip_target p failure take_probe r i now
                   in (if skip then None else Some i, r))
      in case lead of
           Some i \<Rightarrow> (Some i, p', r)
         | None \<Rightarrow>
             let (found, r) = find_admitted p take_probe usable [0..<n] r now
             in (case found of
                   Some i \<Rightarrow> Some i
                 | None \<Rightarrow> first_untried_allowed entry tried (tp_key_meta p) failure, p', r))"

definition pick ::
  "env \<Rightarrow> target_pool \<Rightarrow> registries \<Rightarrow> nat list \<Rightarrow> failure option \<Rightarrow> instant \<Rightarrow>
    nat option \<times> target_pool \<times> registries"
where
  "pick e p r tried failure now = pick_with e p r tried failure True now"

definition pick_read_only ::
  "env \<Rightarrow> target_pool \<Rightarrow> registries \<Rightarrow> nat list \<Rightarrow> failure option \<Rightarrow> instant \<Rightarrow>
    nat option \<times> target_pool \<times> registries"
where
  "pick_read_only e p r tried failure now = pick_with e p r tried failure False now"

section \<open>The variant chain\<close>

definition variant_key :: "string \<Rightarrow> string \<Rightarrow> string" where
  "variant_key model variant = model @ ''::'' @ variant"

definition key_pool_key :: "string \<Rightarrow> string" where
  "key_pool_key provider = ''key::'' @ provider"

definition cache_scope :: "route_entry \<Rightarrow> string \<Rightarrow> string" where
  "cache_scope entry key_id =
     (if cache_per_key (re_route entry) then key_id else org_of (mr_tenancy (re_route entry)))"

definition variant_target_order ::
  "env \<Rightarrow> route_entry \<Rightarrow> route_context \<Rightarrow> nat \<Rightarrow> nat \<Rightarrow> nat list \<Rightarrow> (nat \<Rightarrow> bool) \<Rightarrow> nat list \<times> route_entry"
where
  "variant_target_order e entry ctx vi n loads eligible =
     (let (choice, entry') =
            (case vec_get (re_variant_balancers entry) vi of
               None \<Rightarrow> (None, entry)
             | Some b \<Rightarrow>
                 let (choice, b') = balancer_pick_eligible e b ctx loads eligible
                 in (choice, entry\<lparr>re_variant_balancers := (re_variant_balancers entry)[vi := b']\<rparr>));
          lead = opt_filter (\<lambda>i. i < n) choice
      in ((case lead of None \<Rightarrow> [] | Some i \<Rightarrow> [i]) @ filter (\<lambda>i. Some i \<noteq> lead) [0..<n], entry'))"

definition with_queue_depth :: "(string \<Rightarrow> nat) \<Rightarrow> target list \<Rightarrow> nat list \<Rightarrow> nat list" where
  "with_queue_depth queue_depth targets loads =
     map (\<lambda>i. if i < length targets
              then saturating_add u64_max (loads ! i) (queue_depth (tg_provider (targets ! i)))
              else loads ! i) [0..<length loads]"

definition key_uses :: "key_meta option \<Rightarrow> target \<Rightarrow> bool" where
  "key_uses key t = (case key of None \<Rightarrow> True | Some k \<Rightarrow> provider_allowed k (tg_provider t))"

definition variant_eligible :: "variant \<Rightarrow> key_meta option \<Rightarrow> blocked \<Rightarrow> nat \<Rightarrow> bool" where
  "variant_eligible v key b ti =
     (case vec_get (vr_targets v) ti of
        None \<Rightarrow> False
      | Some t \<Rightarrow> key_uses key t \<and> \<not> blocked_contains b ti \<and> \<not> is_restricted t)"

fun candidates_loop ::
  "env \<Rightarrow> load_tracker \<Rightarrow> (string \<Rightarrow> nat) \<Rightarrow> string list \<Rightarrow> route_context \<Rightarrow> key_meta option \<Rightarrow> bool \<Rightarrow>
    instant \<Rightarrow> nat list \<Rightarrow> route_entry \<Rightarrow> registries \<Rightarrow> (nat \<times> nat) list \<times> route_entry \<times> registries"
where
  "candidates_loop e loads depth keys ctx key cd now [] entry r = ([], entry, r)"
| "candidates_loop e loads depth keys ctx key cd now (vi # vis) entry r =
     (case (vec_get (mr_variants (re_route entry)) vi, vec_get keys vi) of
        (Some v, Some ns) \<Rightarrow>
          let n = length (vr_targets v);
              ld = with_queue_depth depth (vr_targets v) (load_snapshot loads ns n);
              (b, r) = blocked_read r ns cd n (map tg_provider (vr_targets v)) now;
              (order, entry) = variant_target_order e entry ctx vi n ld (variant_eligible v key b);
              (rest, entry, r) = candidates_loop e loads depth keys ctx key cd now vis entry r
          in (map (Pair vi) (filter (\<lambda>ti. key_uses key (vr_targets v ! ti)) order) @ rest, entry, r)
      | _ \<Rightarrow> candidates_loop e loads depth keys ctx key cd now vis entry r)"

definition variant_candidates ::
  "env \<Rightarrow> load_tracker \<Rightarrow> (string \<Rightarrow> nat) \<Rightarrow> string list \<Rightarrow> route_context \<Rightarrow> nat \<Rightarrow> key_meta option \<Rightarrow> bool \<Rightarrow>
    instant \<Rightarrow> route_entry \<Rightarrow> registries \<Rightarrow> (nat \<times> nat) list \<times> route_entry \<times> registries"
where
  "variant_candidates e loads depth keys ctx primary key cd now entry r =
     candidates_loop e loads depth keys ctx key cd now (fallback_order (re_route entry) primary) entry r"

definition candidate_admits :: "model_route \<Rightarrow> nat \<times> nat \<Rightarrow> failure option \<Rightarrow> bool" where
  "candidate_admits route c failure =
     (case c of (vi, ti) \<Rightarrow>
        may_dial (tg_takes_over (vr_targets (mr_variants route ! vi) ! ti)) failure)"

definition has_untried_candidate ::
  "model_route \<Rightarrow> (nat \<times> nat) list \<Rightarrow> nat list \<Rightarrow> failure option \<Rightarrow> bool"
where
  "has_untried_candidate route candidates tried failure =
     list_ex (\<lambda>ci. ci \<notin> set tried \<and> candidate_admits route (candidates ! ci) failure)
       [0..<length candidates]"

definition candidate_open ::
  "model_route \<Rightarrow> (nat \<times> nat) list \<Rightarrow> nat list \<Rightarrow> failure option \<Rightarrow> nat \<Rightarrow> bool"
where
  "candidate_open route candidates tried failure ci =
     (ci \<notin> set tried \<and> candidate_admits route (candidates ! ci) failure)"

text \<open>The cell that holds the registries' answer for the variant read last.\<close>

type_synonym read_cell = "(nat \<times> blocked) option"

definition read_variant ::
  "model_route \<Rightarrow> string list \<Rightarrow> bool \<Rightarrow> instant \<Rightarrow> nat \<Rightarrow> read_cell \<Rightarrow> registries \<Rightarrow> blocked \<times> read_cell \<times> registries"
where
  "read_variant route keys cd now vi cell r =
     (case cell of
        Some (held, b) \<Rightarrow>
          if held = vi then (b, cell, r)
          else
            let (b, r) = blocked_read r (keys ! vi) cd (length (vr_targets (mr_variants route ! vi)))
                           (map tg_provider (vr_targets (mr_variants route ! vi))) now
            in (b, Some (vi, b), r)
      | None \<Rightarrow>
          let (b, r) = blocked_read r (keys ! vi) cd (length (vr_targets (mr_variants route ! vi)))
                         (map tg_provider (vr_targets (mr_variants route ! vi))) now
          in (b, Some (vi, b), r))"

fun fresh_loop ::
  "model_route \<Rightarrow> (nat \<times> nat) list \<Rightarrow> string list \<Rightarrow> nat list \<Rightarrow> failure option \<Rightarrow> bool \<Rightarrow> instant \<Rightarrow>
    nat list \<Rightarrow> read_cell \<Rightarrow> registries \<Rightarrow> nat option \<times> registries"
where
  "fresh_loop route cs keys tried failure cd now [] cell r = (None, r)"
| "fresh_loop route cs keys tried failure cd now (ci # rest) cell r =
     (if \<not> candidate_open route cs tried failure ci then
        fresh_loop route cs keys tried failure cd now rest cell r
      else
        let (vi, ti) = cs ! ci;
            (b, cell, r) = read_variant route keys cd now vi cell r
        in if blocked_contains b ti then fresh_loop route cs keys tried failure cd now rest cell r
           else
             let (ok, br) = allows (rg_breaker r) (keys ! vi) ti now;
                 r = r\<lparr>rg_breaker := br\<rparr>
             in if ok then (Some ci, r)
                else fresh_loop route cs keys tried failure cd now rest cell r)"

definition next_candidate ::
  "model_route \<Rightarrow> (nat \<times> nat) list \<Rightarrow> string list \<Rightarrow> nat list \<Rightarrow> failure option \<Rightarrow> bool \<Rightarrow> instant \<Rightarrow>
    registries \<Rightarrow> nat option \<times> registries"
where
  "next_candidate route cs keys tried failure cd now r =
     (case fresh_loop route cs keys tried failure cd now [0..<length cs] None r of
        (Some ci, r) \<Rightarrow> (Some ci, r)
      | (None, r) \<Rightarrow> (find (candidate_open route cs tried failure) [0..<length cs], r))"

end
