(* ===== verification/Routing_Props.thy ===== *)
theory Routing_Props
  imports Routing
begin

text \<open>
  What a pick guarantees: it names a target of the pool the request has not tried and may use, prefers
  one the registries let through, and finds nothing only when nothing is left.
\<close>

section \<open>Availability\<close>

text \<open>A target the registries let through at an instant.\<close>

definition let_through ::
  "registries \<Rightarrow> string \<Rightarrow> bool \<Rightarrow> instant \<Rightarrow> string list \<Rightarrow> nat \<Rightarrow> bool"
where
  "let_through r ns cd now providers i \<longleftrightarrow>
     \<not> (cd \<and> fst (is_parked (rg_cooldowns r) ns i now)) \<and>
     is_healthy (rg_health r) (providers ! i) \<and> \<not> refuses (rg_breaker r) ns i now"

lemma blocked_read_contains:
  assumes "i < n" "n = length providers"
  shows "blocked_contains (fst (blocked_read r ns cd n providers now)) i \<longleftrightarrow>
    \<not> let_through r ns cd now providers i"
proof -
  have "mask_contains (unhealthy_mask (rg_health r) providers) i \<longleftrightarrow> \<not> is_healthy (rg_health r) (providers ! i)"
    using health_mask.mask_agrees [of i n "rg_health r" providers] assms by simp
  moreover have "mask_contains (open_mask (rg_breaker r) ns n now) i \<longleftrightarrow> refuses (rg_breaker r) ns i now"
    by (rule breaker_mask.mask_agrees) (rule assms(1))
  moreover have "cd \<Longrightarrow> mask_contains (fst (parked_mask (rg_cooldowns r) ns n now)) i \<longleftrightarrow>
      fst (is_parked (rg_cooldowns r) ns i now)"
    by (rule cooldown_mask.mask_agrees) (rule assms(1))
  ultimately show ?thesis
    by (auto simp: blocked_read_def blocked_contains_def let_through_def case_prod_beta)
qed

lemma blocked_read_registries [simp]:
  "rg_health (snd (blocked_read r ns cd n providers now)) = rg_health r"
  "rg_breaker (snd (blocked_read r ns cd n providers now)) = rg_breaker r"
  by (simp_all add: blocked_read_def case_prod_beta)

lemma parked_mask_unobservable:
  "fst (is_parked (snd (parked_mask c ns n now)) ns' i now) = fst (is_parked c ns' i now)"
  by (auto simp: is_parked_iff parked_at_def parked_until_parked_mask split: option.splits)

lemma let_through_blocked_read [simp]:
  "let_through (snd (blocked_read r ns cd n providers' now)) ns' cd' now providers i =
     let_through r ns' cd' now providers i"
  by (simp add: let_through_def)
    (simp add: blocked_read_def case_prod_beta parked_mask_unobservable)

section \<open>The classic pool\<close>

definition offered :: "target_pool \<Rightarrow> nat list \<Rightarrow> failure option \<Rightarrow> nat \<Rightarrow> bool" where
  "offered p tried failure i \<longleftrightarrow>
     i < length (pool_targets p) \<and> i \<notin> set tried \<and> admits (tp_entry p) i (tp_key_meta p) failure"

definition available :: "target_pool \<Rightarrow> registries \<Rightarrow> instant \<Rightarrow> nat \<Rightarrow> bool" where
  "available p r now i \<longleftrightarrow>
     let_through r (tp_namespace p) (tp_cd_enabled p) now (map tg_provider (pool_targets p)) i"

lemma breaker_admits_iff:
  "fst (breaker_admits p take_probe r i now) \<longleftrightarrow> \<not> refuses (rg_breaker r) (tp_namespace p) i now"
  by (simp add: breaker_admits_def refuses_not_allows case_prod_beta)

lemma allows_refused: "\<not> fst (allows b model idx now) \<Longrightarrow> snd (allows b model idx now) = b"
  by (auto simp: allows_def Let_def split: option.splits phase.splits if_splits)

lemma breaker_admits_refused:
  "\<not> fst (breaker_admits p take_probe r i now) \<Longrightarrow> snd (breaker_admits p take_probe r i now) = r"
  using allows_refused [of "rg_breaker r" "tp_namespace p" i now]
  by (auto simp: breaker_admits_def case_prod_beta split: if_splits)

lemma find_admitted_spec:
  "find_admitted p take_probe usable is r now =
     (case find (\<lambda>i. usable i \<and> \<not> refuses (rg_breaker r) (tp_namespace p) i now) is of
        None \<Rightarrow> (None, r)
      | Some i \<Rightarrow> (Some i, snd (breaker_admits p take_probe r i now)))"
proof (induction "is")
  case (Cons i "is")
  show ?case
  proof (cases "usable i \<and> fst (breaker_admits p take_probe r i now)")
    case True
    then show ?thesis by (simp add: case_prod_beta) (simp add: breaker_admits_iff)
  next
    case False
    then have skip: "\<not> (usable i \<and> \<not> refuses (rg_breaker r) (tp_namespace p) i now)"
      by (simp add: breaker_admits_iff)
    have "find_admitted p take_probe usable (i # is) r now = find_admitted p take_probe usable is r now"
      using False breaker_admits_refused by (auto simp: case_prod_beta)
    with skip Cons show ?thesis by (auto simp del: find_admitted.simps)
  qed
qed simp

lemma skip_target_spec:
  assumes "i < length (pool_targets p)" "admits (tp_entry p) i (tp_key_meta p) failure"
  shows "fst (skip_target p failure take_probe r i now) \<longleftrightarrow> \<not> available p r now i"
proof -
  have "rg_breaker (r\<lparr>rg_cooldowns := c\<rparr>) = rg_breaker r" "rg_health (r\<lparr>rg_cooldowns := c\<rparr>) = rg_health r" for c
    by simp_all
  then show ?thesis
    using assms
    by (auto simp: skip_target_def available_def let_through_def case_prod_beta breaker_admits_iff Let_def)
qed

lemma skip_target_registries:
  assumes "fst (skip_target p failure take_probe r i now)"
  shows "rg_breaker (snd (skip_target p failure take_probe r i now)) = rg_breaker r"
  using assms breaker_admits_refused
  by (auto simp: skip_target_def case_prod_beta Let_def split: if_splits)

text \<open>The pick over the targets that are offered and available.\<close>

lemma pick_with_unfold:
  fixes e p r tried failure take_probe now
  defines "usable \<equiv> (\<lambda>i. offered p tried failure i \<and> available p r now i)"
  shows "fst (pick_with e p r tried failure take_probe now) =
    (case fst (balancer_pick_eligible e (re_balancer (tp_entry p)) (tp_ctx p) (tp_loads p) usable) of
       Some i \<Rightarrow> if usable i then Some i
         else (case find usable [0..<length (pool_targets p)] of Some j \<Rightarrow> Some j
               | None \<Rightarrow> first_untried_allowed (tp_entry p) tried (tp_key_meta p) failure)
     | None \<Rightarrow> (case find usable [0..<length (pool_targets p)] of Some j \<Rightarrow> Some j
               | None \<Rightarrow> first_untried_allowed (tp_entry p) tried (tp_key_meta p) failure))"
proof -
  define n where "n = length (pool_targets p)"
  define rd where "rd = blocked_read r (tp_namespace p) (tp_cd_enabled p) n (map tg_provider (pool_targets p)) now"
  define r1 where "r1 = snd rd"
  define choice where "choice = fst (balancer_pick_eligible e (re_balancer (tp_entry p)) (tp_ctx p) (tp_loads p) usable)"
  have us: "(\<lambda>i. i < n \<and> i \<notin> set tried \<and> admits (tp_entry p) i (tp_key_meta p) failure \<and>
      \<not> blocked_contains (fst rd) i) = usable"
    using blocked_read_contains [of _ n "map tg_provider (pool_targets p)" r "tp_namespace p" "tp_cd_enabled p" now]
    by (auto simp: fun_eq_iff usable_def offered_def available_def rd_def n_def)
  have av: "available p r1 now i = available p r now i" for i
    by (simp add: available_def r1_def rd_def)
  have br: "rg_breaker r1 = rg_breaker r" by (simp add: r1_def rd_def)
  have find: "fst (find_admitted p take_probe usable [0..<n] r' now) = find usable [0..<n]"
    if "rg_breaker r' = rg_breaker r" for r'
  proof -
    have eq: "(\<lambda>i. usable i \<and> \<not> refuses (rg_breaker r') (tp_namespace p) i now) = usable"
      using that by (auto simp: fun_eq_iff usable_def available_def let_through_def)
    show ?thesis unfolding find_admitted_spec eq by (cases "find usable [0..<n]") simp_all
  qed
  define lp where "lp =
    (case opt_filter (\<lambda>i. i < n) choice of
       None \<Rightarrow> (None, r1)
     | Some i \<Rightarrow>
         if i \<in> set tried then (None, r1)
         else (if fst (skip_target p failure take_probe r1 i now) then None else Some i,
               snd (skip_target p failure take_probe r1 i now)))"
  have step: "fst (pick_with e p r tried failure take_probe now) =
      (case fst lp of
         Some i \<Rightarrow> Some i
       | None \<Rightarrow>
           (case fst (find_admitted p take_probe usable [0..<n] (snd lp) now) of
              Some i \<Rightarrow> Some i
            | None \<Rightarrow> first_untried_allowed (tp_entry p) tried (tp_key_meta p) failure))"
    unfolding pick_with_def Let_def case_prod_beta n_def [symmetric] rd_def [symmetric] us
      r1_def [symmetric] choice_def [symmetric] lp_def [symmetric]
    by (simp split: option.splits)
  have skipped: "fst (skip_target p failure take_probe r1 i now) \<longleftrightarrow> \<not> usable i"
    if "i < n" "i \<notin> set tried" for i
  proof (cases "admits (tp_entry p) i (tp_key_meta p) failure")
    case True
    then show ?thesis
      using that skip_target_spec [of i p failure take_probe r1 now] av by (simp add: usable_def offered_def n_def)
  next
    case False
    then show ?thesis by (simp add: usable_def offered_def skip_target_def)
  qed
  have lead: "fst lp = (case choice of Some i \<Rightarrow> if usable i then Some i else None | None \<Rightarrow> None)"
    using skipped by (auto simp: lp_def opt_filter_def usable_def offered_def n_def split: option.splits)
  have "fst lp = None \<Longrightarrow> rg_breaker (snd lp) = rg_breaker r"
    using skip_target_registries [of p failure take_probe r1 _ now] br
    by (auto simp: lp_def split: option.splits if_splits)
  then have "fst lp = None \<Longrightarrow> fst (find_admitted p take_probe usable [0..<n] (snd lp) now) = find usable [0..<n]"
    by (rule find)
  then show ?thesis
    unfolding step n_def [symmetric] choice_def [symmetric]
    using lead by (auto split: option.splits if_splits)
qed

lemma first_untried_allowed_spec:
  "first_untried_allowed (tp_entry p) tried (tp_key_meta p) failure =
     find (offered p tried failure) [0..<length (pool_targets p)]"
  by (auto simp: first_untried_allowed_def offered_def pool_targets_def intro!: find_cong)

lemma pick_result:
  "(case fst (pick_with e p r tried failure take_probe now) of
      None \<Rightarrow> \<not> has_untried_target (tp_entry p) tried (tp_key_meta p) failure
    | Some i \<Rightarrow>
        has_untried_target (tp_entry p) tried (tp_key_meta p) failure \<and> offered p tried failure i \<and>
        ((\<exists>j. offered p tried failure j \<and> available p r now j) \<longrightarrow> available p r now i))"
proof -
  define usable where "usable = (\<lambda>i. offered p tried failure i \<and> available p r now i)"
  have off: "offered p tried failure i \<Longrightarrow> i < length (pool_targets p)" for i by (simp add: offered_def)
  have left: "has_untried_target (tp_entry p) tried (tp_key_meta p) failure \<longleftrightarrow> (\<exists>j. offered p tried failure j)"
    using off by (auto simp: has_untried_target_def first_untried_allowed_spec find_None_iff simp del: not_None_eq)
  have none: "find usable [0..<length (pool_targets p)] = None \<longleftrightarrow> \<not> (\<exists>j. usable j)"
    using off by (auto simp: find_None_iff usable_def)
  have none': "find (offered p tried failure) [0..<length (pool_targets p)] = None \<longleftrightarrow> \<not> (\<exists>j. offered p tried failure j)"
    using off by (auto simp: find_None_iff)
  have some: "find P xs = Some i \<Longrightarrow> P i" for P and xs :: "nat list" and i by (auto simp: find_Some_iff)
  define res where "res = fst (pick_with e p r tried failure take_probe now)"
  define last where "last = find (offered p tried failure) [0..<length (pool_targets p)]"
  have walk: "(\<exists>i. (case find usable [0..<length (pool_targets p)] of Some j \<Rightarrow> Some j | None \<Rightarrow> last) = Some i \<and> usable i) \<or>
      (case find usable [0..<length (pool_targets p)] of Some j \<Rightarrow> Some j | None \<Rightarrow> last) = last \<and> \<not> (\<exists>j. usable j)"
    using none some [of usable] by (cases "find usable [0..<length (pool_targets p)]") auto
  have "(\<exists>i. res = Some i \<and> usable i) \<or> res = last \<and> \<not> (\<exists>j. usable j)"
    unfolding res_def pick_with_unfold usable_def [symmetric] first_untried_allowed_spec last_def [symmetric]
    using walk
    by (cases "fst (balancer_pick_eligible e (re_balancer (tp_entry p)) (tp_ctx p) (tp_loads p) usable)")
      (simp, metis (lifting) usable_def option.simps(5))
  then show ?thesis
    unfolding res_def [symmetric] left
  proof
    assume "\<exists>i. res = Some i \<and> usable i"
    then obtain i where "res = Some i" "offered p tried failure i" "available p r now i"
      by (auto simp: usable_def)
    then show "case res of None \<Rightarrow> \<not> (\<exists>j. offered p tried failure j)
      | Some i \<Rightarrow> (\<exists>j. offered p tried failure j) \<and> offered p tried failure i \<and>
          ((\<exists>j. offered p tried failure j \<and> available p r now j) \<longrightarrow> available p r now i)"
      by auto
  next
    assume "res = last \<and> \<not> (\<exists>j. usable j)"
    then show "case res of None \<Rightarrow> \<not> (\<exists>j. offered p tried failure j)
      | Some i \<Rightarrow> (\<exists>j. offered p tried failure j) \<and> offered p tried failure i \<and>
          ((\<exists>j. offered p tried failure j \<and> available p r now j) \<longrightarrow> available p r now i)"
      using none' some [of "offered p tried failure"] unfolding last_def usable_def
      by (auto split: option.splits)
  qed
qed

text \<open>
  C11: What a pick returns. The picked target is one of the pool the request has not tried, its key may
  use and the last failure lets it follow; whenever one of those is unparked, healthy and let through
  by its breaker, the pick is such a target; and the pick finds nothing only when no target is left,
  which is exactly what \<open>has_untried_target\<close> says before the loop backs off.
\<close>

theorem pick_spec:
  "(case fst (pick_with e p r tried failure take_probe now) of
      None \<Rightarrow> \<not> has_untried_target (tp_entry p) tried (tp_key_meta p) failure
    | Some i \<Rightarrow>
        has_untried_target (tp_entry p) tried (tp_key_meta p) failure \<and> offered p tried failure i \<and>
        ((\<exists>j. offered p tried failure j \<and> available p r now j) \<longrightarrow> available p r now i))"
  by (rule pick_result)

definition sample_pool :: target_pool where
  "sample_pool =
     \<lparr>tp_entry =
        synthetic_route (\<lambda>_. 0) ''gpt'' ''gpt'' RoundRobin
          [target_default\<lparr>tg_provider := ''a''\<rparr>, target_default\<lparr>tg_provider := ''b''\<rparr>] None None None,
      tp_ctx = context_new, tp_loads = [0, 0], tp_namespace = ''gpt'', tp_cd_enabled = True,
      tp_key_meta = None\<rparr>"

definition sample_registries :: registries where
  "sample_registries = \<lparr>rg_cooldowns = Some [(''gpt'', [Some 9])], rg_health = None, rg_breaker = None\<rparr>"

lemma pick_spec_witness:
  "fst (pick_with sample_env sample_pool sample_registries [] None True 5) = Some 1"
proof -
  have dial: "may_dial [] None" by (simp add: may_dial_def)
  have targets: "pool_targets sample_pool =
      [target_default\<lparr>tg_provider := ''a''\<rparr>, target_default\<lparr>tg_provider := ''b''\<rparr>]"
    by (simp add: pool_targets_def sample_pool_def synthetic_route_def)
  have off: "offered sample_pool [] None i \<longleftrightarrow> i < 2" for i
    using targets dial
    by (auto simp: offered_def admits_def sample_pool_def synthetic_route_def target_default_def less_2_cases_iff)
  have av: "available sample_pool sample_registries 5 i \<longleftrightarrow> i \<noteq> 0" for i
    by (simp add: available_def let_through_def sample_pool_def sample_registries_def is_parked_def hm_get_def
        slot_at_def vec_get_def is_healthy_def refuses_def slot_settle_def)
  have left: "has_untried_target (tp_entry sample_pool) [] (tp_key_meta sample_pool) None"
    using off [of 0] targets by (auto simp: has_untried_target_def first_untried_allowed_spec find_None_iff simp del: not_None_eq)
  have one: "offered sample_pool [] None 1 \<and> available sample_pool sample_registries 5 1"
    by (simp add: off av)
  show ?thesis
    using left one pick_spec [where e = sample_env and p = sample_pool and r = sample_registries and tried = "[]"
        and failure = None and take_probe = True and now = 5]
    by (simp add: off av less_2_cases_iff split: option.splits) blast
qed

section \<open>The variant chain\<close>

definition variant_providers :: "model_route \<Rightarrow> nat \<Rightarrow> string list" where
  "variant_providers route vi = map tg_provider (vr_targets (mr_variants route ! vi))"

definition candidates_ok :: "model_route \<Rightarrow> (nat \<times> nat) list \<Rightarrow> bool" where
  "candidates_ok route cs \<longleftrightarrow>
     list_all (\<lambda>(vi, ti). vi < length (mr_variants route) \<and> ti < length (vr_targets (mr_variants route ! vi))) cs"

definition candidate_available ::
  "model_route \<Rightarrow> (nat \<times> nat) list \<Rightarrow> string list \<Rightarrow> bool \<Rightarrow> instant \<Rightarrow> registries \<Rightarrow> nat \<Rightarrow> bool"
where
  "candidate_available route cs keys cd now r ci =
     (case cs ! ci of (vi, ti) \<Rightarrow> let_through r (keys ! vi) cd now (variant_providers route vi) ti)"

text \<open>The registries a walk has read stay indistinguishable from those it started with.\<close>

definition same_answers :: "instant \<Rightarrow> registries \<Rightarrow> registries \<Rightarrow> bool" where
  "same_answers now r r' \<longleftrightarrow>
     rg_breaker r' = rg_breaker r \<and> (\<forall>ns cd ps i. let_through r' ns cd now ps i = let_through r ns cd now ps i)"

definition cell_ok :: "model_route \<Rightarrow> string list \<Rightarrow> bool \<Rightarrow> instant \<Rightarrow> registries \<Rightarrow> read_cell \<Rightarrow> bool" where
  "cell_ok route keys cd now r cell \<longleftrightarrow>
     (\<forall>vi b ti. cell = Some (vi, b) \<longrightarrow> ti < length (variant_providers route vi) \<longrightarrow>
        (blocked_contains b ti \<longleftrightarrow> \<not> let_through r (keys ! vi) cd now (variant_providers route vi) ti))"

lemma read_variant_spec:
  assumes "read_variant route keys cd now vi cell r' = (b, cell', r'')"
    and "same_answers now r r'" "cell_ok route keys cd now r cell"
  shows "cell_ok route keys cd now r cell' \<and> same_answers now r r'' \<and>
    (ti < length (variant_providers route vi) \<longrightarrow>
      (blocked_contains b ti \<longleftrightarrow> \<not> let_through r (keys ! vi) cd now (variant_providers route vi) ti))"
proof (cases "\<exists>b'. cell = Some (vi, b')")
  case True
  then have "cell' = cell" "r'' = r'" "cell = Some (vi, b)" using assms(1) by (auto simp: read_variant_def)
  with assms show ?thesis by (auto simp: cell_ok_def)
next
  case False
  define rd where "rd = blocked_read r' (keys ! vi) cd (length (variant_providers route vi)) (variant_providers route vi) now"
  have "read_variant route keys cd now vi cell r' = (fst rd, Some (vi, fst rd), snd rd)"
    using False
    by (auto simp: read_variant_def rd_def variant_providers_def case_prod_beta Let_def split: option.splits)
  with assms(1) have eq: "b = fst rd" "cell' = Some (vi, fst rd)" "r'' = snd rd" by auto
  have "blocked_contains b ti \<longleftrightarrow> \<not> let_through r (keys ! vi) cd now (variant_providers route vi) ti"
    if "ti < length (variant_providers route vi)" for ti
    using blocked_read_contains [OF that refl, of r' "keys ! vi" cd now] assms(2)
    by (simp add: eq rd_def same_answers_def)
  moreover have "same_answers now r r''" using assms(2) by (simp add: eq rd_def same_answers_def)
  ultimately show ?thesis by (auto simp: cell_ok_def eq)
qed

lemma fresh_loop_spec:
  assumes "candidates_ok route cs" "list_all (\<lambda>ci. ci < length cs) cis'"
    and "same_answers now r r'" "cell_ok route keys cd now r cell"
  shows "fst (fresh_loop route cs keys tried failure cd now cis' cell r') =
    find (\<lambda>ci. candidate_open route cs tried failure ci \<and> candidate_available route cs keys cd now r ci) cis'"
  using assms(2-)
proof (induction cis' arbitrary: cell r')
  case (Cons ci rest)
  obtain vi ti where c: "cs ! ci = (vi, ti)" by fastforce
  obtain b cell' r'' where rv: "read_variant route keys cd now vi cell r' = (b, cell', r'')"
    by (cases "read_variant route keys cd now vi cell r'")
  have ti: "ti < length (variant_providers route vi)"
    using assms(1) Cons.prems(1) c nth_mem [of ci cs]
    by (auto simp: candidates_ok_def variant_providers_def list_all_iff split: prod.splits)
  have avail: "candidate_available route cs keys cd now r ci \<longleftrightarrow> \<not> blocked_contains b ti"
    using read_variant_spec [OF rv Cons.prems(2,3), of ti] ti by (simp add: candidate_available_def c)
  note next_ok = read_variant_spec [OF rv Cons.prems(2,3), THEN conjunct1]
    read_variant_spec [OF rv Cons.prems(2,3), THEN conjunct2, THEN conjunct1]
  have allow: "\<not> blocked_contains b ti \<Longrightarrow> fst (allows (rg_breaker r'') (keys ! vi) ti now)"
    using avail next_ok(2) by (simp add: candidate_available_def c let_through_def same_answers_def refuses_not_allows)
  show ?case
  proof (cases "candidate_open route cs tried failure ci")
    case False
    then show ?thesis using Cons by simp
  next
    case True
    then show ?thesis
      using Cons.IH [of r'' cell'] Cons.prems(1) next_ok allow avail
      by (auto simp: c rv Let_def case_prod_beta)
  qed
qed simp

lemma next_candidate_result:
  assumes "candidates_ok route cs"
  shows "case fst (next_candidate route cs keys tried failure cd now r) of
      None \<Rightarrow> \<not> has_untried_candidate route cs tried failure
    | Some ci \<Rightarrow>
        ci < length cs \<and> candidate_open route cs tried failure ci \<and>
        has_untried_candidate route cs tried failure \<and>
        ((\<exists>cj<length cs. candidate_open route cs tried failure cj \<and> candidate_available route cs keys cd now r cj) \<longrightarrow>
           candidate_available route cs keys cd now r ci)"
proof -
  define P where "P = (\<lambda>ci. candidate_open route cs tried failure ci \<and> candidate_available route cs keys cd now r ci)"
  define fl where "fl = fresh_loop route cs keys tried failure cd now [0..<length cs] None r"
  have fl: "fst fl = find P [0..<length cs]"
    unfolding fl_def P_def
    by (rule fresh_loop_spec) (use assms in \<open>auto simp: same_answers_def cell_ok_def list_all_iff\<close>)
  have res: "fst (next_candidate route cs keys tried failure cd now r) =
      (case find P [0..<length cs] of
         Some ci \<Rightarrow> Some ci
       | None \<Rightarrow> find (candidate_open route cs tried failure) [0..<length cs])"
    unfolding fl [symmetric] next_candidate_def fl_def [symmetric] by (cases fl) (auto split: option.splits)
  have left: "has_untried_candidate route cs tried failure \<longleftrightarrow>
      (\<exists>cj<length cs. candidate_open route cs tried failure cj)"
    by (auto simp: has_untried_candidate_def candidate_open_def list_ex_iff)
  show ?thesis
  proof (cases "find P [0..<length cs]")
    case (Some ci)
    then have "P ci" "ci < length cs" by (auto simp: find_Some_iff)
    with Some show ?thesis unfolding res left by (auto simp: P_def)
  next
    case None
    then have no: "\<not> (\<exists>cj<length cs. P cj)" by (auto simp: find_None_iff)
    show ?thesis
      unfolding res left None option.case using no
      by (auto simp: find_None_iff find_Some_iff P_def split: option.splits)
  qed
qed

text \<open>
  C40: What the variant chain dials next. Over any list of candidates of the route, the next candidate
  is an untried one the last failure lets follow; it is unparked, healthy and let through by its
  breaker whenever some untried candidate is; and there is none exactly when
  \<open>has_untried_candidate\<close> says so. In particular the one-slot cache of the registries' answers is
  unobservable.
\<close>

theorem next_candidate_spec:
  assumes "candidates_ok route cs"
  shows "case fst (next_candidate route cs keys tried failure cd now r) of
      None \<Rightarrow> \<not> has_untried_candidate route cs tried failure
    | Some ci \<Rightarrow>
        ci < length cs \<and> candidate_open route cs tried failure ci \<and>
        has_untried_candidate route cs tried failure \<and>
        ((\<exists>cj<length cs. candidate_open route cs tried failure cj \<and> candidate_available route cs keys cd now r cj) \<longrightarrow>
           candidate_available route cs keys cd now r ci)"
  using assms by (rule next_candidate_result)

lemma variant_target_order_spec:
  "distinct (fst (variant_target_order e entry ctx vi n loads eligible)) \<and>
   set (fst (variant_target_order e entry ctx vi n loads eligible)) = {..<n} \<and>
   re_route (snd (variant_target_order e entry ctx vi n loads eligible)) = re_route entry"
  by (auto simp: variant_target_order_def Let_def case_prod_beta opt_filter_def split: option.splits)

definition usable_in_variant :: "model_route \<Rightarrow> key_meta option \<Rightarrow> nat \<Rightarrow> nat set" where
  "usable_in_variant route key vi =
     {ti. ti < length (vr_targets (mr_variants route ! vi)) \<and>
          key_uses key (vr_targets (mr_variants route ! vi) ! ti)}"

text \<open>The candidates come variant by variant in the fallback order, each variant's usable targets once.\<close>

lemma candidates_loop_spec:
  assumes "length keys = length (mr_variants (re_route entry))" "list_all (\<lambda>vi. vi < length keys) vis"
  shows "\<exists>ords. length ords = length vis \<and>
    fst (candidates_loop e loads depth keys ctx key cd now vis entry r) =
      concat (map2 (\<lambda>vi ord. map (Pair vi) ord) vis ords) \<and>
    list_all2 (\<lambda>vi ord. distinct ord \<and> set ord = usable_in_variant (re_route entry) key vi) vis ords"
  using assms
proof (induction vis arbitrary: entry r)
  case Nil
  show ?case by (rule exI [of _ "[]"]) simp
next
  case (Cons vi vis)
  define v ns where "v = mr_variants (re_route entry) ! vi" and "ns = keys ! vi"
  define n where "n = length (vr_targets v)"
  define rd where "rd = blocked_read r ns cd n (map tg_provider (vr_targets v)) now"
  define ov where "ov = variant_target_order e entry ctx vi n
    (with_queue_depth depth (vr_targets v) (load_snapshot loads ns n)) (variant_eligible v key (fst rd))"
  define ord where "ord = filter (\<lambda>ti. key_uses key (vr_targets v ! ti)) (fst ov)"
  have get: "vec_get (mr_variants (re_route entry)) vi = Some v" "vec_get keys vi = Some ns"
    using Cons.prems by (simp_all add: vec_get_def v_def ns_def)
  have ov: "distinct (fst ov)" "set (fst ov) = {..<n}" "re_route (snd ov) = re_route entry"
    using variant_target_order_spec by (simp_all add: ov_def)
  have step: "fst (candidates_loop e loads depth keys ctx key cd now (vi # vis) entry r) =
      map (Pair vi) ord @ fst (candidates_loop e loads depth keys ctx key cd now vis (snd ov) (snd rd))"
    using get by (simp add: Let_def case_prod_beta rd_def ov_def ord_def n_def)
  have "distinct ord \<and> set ord = usable_in_variant (re_route entry) key vi"
    using ov by (auto simp: ord_def usable_in_variant_def v_def n_def)
  moreover obtain ords where "length ords = length vis"
    "fst (candidates_loop e loads depth keys ctx key cd now vis (snd ov) (snd rd)) =
      concat (map2 (\<lambda>vi ord. map (Pair vi) ord) vis ords)"
    "list_all2 (\<lambda>vi ord. distinct ord \<and> set ord = usable_in_variant (re_route entry) key vi) vis ords"
    using Cons.IH [of "snd ov" "snd rd"] Cons.prems ov(3) by auto
  ultimately show ?case
    unfolding step by (intro exI [of _ "ord # ords"]) simp
qed

lemma candidates_loop_set:
  assumes "length keys = length (mr_variants (re_route entry))" "list_all (\<lambda>vi. vi < length keys) vis"
  shows "set (fst (candidates_loop e loads depth keys ctx key cd now vis entry r)) =
    (\<Union>vi\<in>set vis. Pair vi ` usable_in_variant (re_route entry) key vi)"
proof -
  obtain ords where o: "length ords = length vis"
    "fst (candidates_loop e loads depth keys ctx key cd now vis entry r) =
      concat (map2 (\<lambda>vi ord. map (Pair vi) ord) vis ords)"
    "list_all2 (\<lambda>vi ord. distinct ord \<and> set ord = usable_in_variant (re_route entry) key vi) vis ords"
    using candidates_loop_spec [OF assms] by blast
  have gen: "list_all2 P vis ords \<Longrightarrow> (\<And>vi ord. P vi ord \<Longrightarrow> set ord = f vi) \<Longrightarrow>
      set (concat (map2 (\<lambda>vi ord. map (Pair vi) ord) vis ords)) = (\<Union>vi\<in>set vis. Pair vi ` f vi)"
    for P and f :: "nat \<Rightarrow> nat set"
    by (induction rule: list_all2_induct) auto
  show ?thesis unfolding o(2) by (rule gen [OF o(3)]) simp
qed

lemma variant_candidates_ok:
  assumes "length keys = length (mr_variants (re_route entry))" "primary < length keys"
  shows "candidates_ok (re_route entry)
    (fst (variant_candidates e loads depth keys ctx primary key cd now entry r))"
proof -
  have "list_all (\<lambda>vi. vi < length keys) (fallback_order (re_route entry) primary)"
    using assms by (auto simp: fallback_order_def list_all_iff Let_def)
  from candidates_loop_set [OF assms(1) this] show ?thesis
    using assms
    by (auto simp: candidates_ok_def list_all_iff variant_candidates_def usable_in_variant_def
        fallback_order_def Let_def)
qed

definition sample_variants :: model_route where
  "sample_variants =
     example_route\<lparr>mr_variants :=
       [\<lparr>vr_name = ''a'', vr_weight = 1, vr_targets = [target_default\<lparr>tg_provider := ''x''\<rparr>], vr_params = []\<rparr>,
        \<lparr>vr_name = ''b'', vr_weight = 3, vr_targets = [target_default\<lparr>tg_provider := ''y''\<rparr>], vr_params = []\<rparr>]\<rparr>"

lemma next_candidate_spec_witness:
  "fst (next_candidate sample_variants [(0, 0), (1, 0)] [''gpt'', ''gpt::b''] [] None True 5 sample_registries) =
     Some 1"
proof -
  have ok: "candidates_ok sample_variants [(0, 0), (1, 0)]"
    by (simp add: candidates_ok_def sample_variants_def)
  have op: "candidate_open sample_variants [(0, 0), (1, 0)] [] None i" if "i < 2" for i
    using that by (auto simp: candidate_open_def candidate_admits_def sample_variants_def may_dial_def
        target_default_def less_2_cases_iff)
  have av: "candidate_available sample_variants [(0, 0), (1, 0)] [''gpt'', ''gpt::b''] True 5 sample_registries i \<longleftrightarrow>
      i = 1" if "i < 2" for i
    using that by (auto simp: candidate_available_def let_through_def sample_registries_def is_parked_def hm_get_def
        slot_at_def vec_get_def is_healthy_def refuses_def less_2_cases_iff)
  have left: "has_untried_candidate sample_variants [(0, 0), (1, 0)] [] None"
    using op [of 0] by (simp add: has_untried_candidate_def candidate_open_def)
  show ?thesis
    using next_candidate_spec [OF ok, where keys = "[''gpt'', ''gpt::b'']" and tried = "[]" and failure = None
        and cd = True and now = 5 and r = sample_registries] left op [of 1] av
    by (auto split: option.splits)
qed

end
