(* ===== verification/Forwarding.thy ===== *)
theory Forwarding
  imports Routing
begin

text \<open>
  The forward loop of \<open>rolter-gateway/src/handlers.rs\<close> (\<open>forward_classic\<close>, \<open>forward_variants\<close> and the
  \<open>ForwardLoop\<close> they share): dial a target, settle the answer, retry on another one. What the world
  answers is an argument, attempt by attempt: the instants the clock shows, the jitter, and the
  response or transport error of the dialled target. Metrics, spans and the text of an upstream's
  reason are left out; the delays waited and the failed attempts recorded are kept.
\<close>

section \<open>Answers\<close>

text \<open>
  A response: the chunks of its body that arrive within the peek's time budget, and the others.
  Header values are those \<open>to_str\<close> decodes.
\<close>

record response =
  rp_status :: nat
  rp_retry_after :: "string option"
  rp_content_type :: "string option"
  rp_early :: "string list"
  rp_late :: "string list"

definition PEEK_MAX_BYTES :: nat where
  "PEEK_MAX_BYTES = 16 * 1024"

definition may_be_refusal :: "nat \<Rightarrow> bool" where
  "may_be_refusal status = (status \<in> {400, 403, 422, 451})"

fun peek_prefix :: "string list \<Rightarrow> string \<Rightarrow> string \<times> string list" where
  "peek_prefix [] pre = (pre, [])"
| "peek_prefix (c # cs) pre =
     (if length pre < PEEK_MAX_BYTES then peek_prefix cs (pre @ c) else (pre, c # cs))"

definition peek_refusal :: "(string \<Rightarrow> json option) \<Rightarrow> response \<Rightarrow> failure option \<times> response" where
  "peek_refusal parse r =
     (case peek_prefix (rp_early r) [] of
        (pre, rest) \<Rightarrow>
          (failure_refusal parse (rp_status r) pre, r\<lparr>rp_early := pre # rest\<rparr>))"

definition body_bytes :: "response \<Rightarrow> string" where
  "body_bytes r = concat (rp_early r) @ concat (rp_late r)"

fun digits_value :: "string \<Rightarrow> nat \<Rightarrow> nat option" where
  "digits_value [] acc = Some acc"
| "digits_value (c # cs) acc =
     (if is_ascii_digit c then
        (let v = acc * 10 + (byte c - 48) in if v \<le> u64_max then digits_value cs v else None)
      else None)"

text \<open>\<open>str::parse::<u64>\<close>: an optional plus sign, then at least one digit, no overflow.\<close>

definition parse_u64 :: "string \<Rightarrow> nat option" where
  "parse_u64 s =
     (let ds = (if s \<noteq> [] \<and> hd s = CHR ''+'' then tl s else s)
      in if ds = [] then None else digits_value ds 0)"

definition retry_after_secs :: "response \<Rightarrow> nat option" where
  "retry_after_secs r = Option.bind (rp_retry_after r) (\<lambda>s. parse_u64 (trim s))"

definition retry_delay_ms :: "retry_config \<Rightarrow> response \<Rightarrow> nat \<Rightarrow> rat \<Rightarrow> nat" where
  "retry_delay_ms cfg r attempt draw =
     (case (if rp_status r = 429 then retry_after_secs r else None) of
        Some secs \<Rightarrow> min (saturating_mul u64_max secs 1000) 30000
      | None \<Rightarrow> backoff_ms cfg attempt draw)"

definition is_retryable_status :: "nat \<Rightarrow> bool" where
  "is_retryable_status status = (status = 408 \<or> status = 429 \<or> 500 \<le> status)"

definition is_upstream_auth_failure :: "nat \<Rightarrow> bool" where
  "is_upstream_auth_failure status = (status = 401 \<or> status = 403)"

definition queue_admission_message :: "string \<Rightarrow> string option" where
  "queue_admission_message message =
     (let bare = (case strip_prefix message ''upstream error: '' of None \<Rightarrow> message | Some b \<Rightarrow> b)
      in if starts_with bare ''provider queue'' then Some bare else None)"

definition is_queue_admission_error :: "string \<Rightarrow> bool" where
  "is_queue_admission_error message = (queue_admission_message message \<noteq> None)"

section \<open>The state of a run\<close>

record status_failure =
  sf_status :: nat
  sf_retry_after :: "nat option"

datatype next_step = Retry | Stop

record picked_key =
  pi_multi_key :: bool
  pi_pool :: string
  pi_picked :: "(nat \<times> string) option"

record attempt_env =
  ae_pick :: instant
  ae_begin :: instant
  ae_settle :: instant
  ae_later :: instant
  ae_drop :: instant
  ae_key_draw :: rat
  ae_backoff_draw :: rat
  ae_answer :: "target \<Rightarrow> string option \<Rightarrow> string + response"

record forward =
  fw_env :: env
  fw_getenv :: "string \<Rightarrow> string option"
  fw_parse :: "string \<Rightarrow> json option"
  fw_snap :: snapshot_state
  fw_model :: string
  fw_ctx :: route_context
  fw_key_meta :: "key_meta option"
  fw_queue_depth :: "string \<Rightarrow> nat"
  fw_attempt :: "nat \<Rightarrow> attempt_env"

record forward_run =
  fr_max_retries :: nat
  fr_cd_enabled :: bool
  fr_tried :: "nat list"
  fr_last_failure :: "failure option"
  fr_outcome :: "(response \<times> nat \<times> bool) option"
  fr_last_provider :: string
  fr_last_target :: string
  fr_last_attempt_recorded :: bool
  fr_last_error :: "string option"
  fr_last_status :: "status_failure option"
  fr_inflight_guard :: "load_guard option"
  fr_variant :: string
  fr_first_variant :: string
  fr_sampled_variant :: string
  fr_attempts :: nat
  fr_fallback_reason :: string
  fr_waited :: "nat list"
  fr_superseded :: "(string \<times> string \<times> nat) list"

record world =
  wd_registries :: registries
  wd_entry :: route_entry
  wd_loads :: load_tracker

datatype forward_pool = ClassicPool | VariantPool "(nat \<times> nat) list"

record dial =
  di_attempt :: nat
  di_namespace :: string
  di_index :: nat
  di_key :: picked_key

definition run_new :: "forward \<Rightarrow> route_entry \<Rightarrow> forward_run" where
  "run_new f entry =
     \<lparr>fr_max_retries = max_retries (mr_limits (re_route entry)) (rt_max_retries (sn_retry (fw_snap f))),
      fr_cd_enabled = cooldown_enabled (sn_cooldown (fw_snap f)), fr_tried = [], fr_last_failure = None,
      fr_outcome = None, fr_last_provider = [], fr_last_target = fw_model f,
      fr_last_attempt_recorded = False, fr_last_error = None, fr_last_status = None,
      fr_inflight_guard = None, fr_variant = [], fr_first_variant = [], fr_sampled_variant = [],
      fr_attempts = 0, fr_fallback_reason = [], fr_waited = [], fr_superseded = []\<rparr>"

definition has_untried ::
  "forward \<Rightarrow> forward_pool \<Rightarrow> route_entry \<Rightarrow> nat list \<Rightarrow> failure option \<Rightarrow> bool"
where
  "has_untried f pool entry tried failure =
     (case pool of
        ClassicPool \<Rightarrow> has_untried_target entry tried (fw_key_meta f) failure
      | VariantPool candidates \<Rightarrow> has_untried_candidate (re_route entry) candidates tried failure)"

definition begin_attempt :: "forward_run \<Rightarrow> forward_run" where
  "begin_attempt run =
     (let run = run\<lparr>fr_last_attempt_recorded := False\<rparr>;
          run = (if fr_attempts run = 0 then run\<lparr>fr_first_variant := fr_variant run\<rparr> else run)
      in run\<lparr>fr_attempts := min 255 (fr_attempts run + 1)\<rparr>)"

definition record_superseded :: "forward_run \<Rightarrow> nat \<Rightarrow> forward_run" where
  "record_superseded run status =
     run\<lparr>fr_superseded := fr_superseded run @ [(fr_last_provider run, fr_last_target run, status)],
         fr_last_attempt_recorded := True\<rparr>"

definition back_off :: "forward_run \<Rightarrow> nat \<Rightarrow> bool \<Rightarrow> forward_run" where
  "back_off run delay_ms can_retry =
     (if can_retry then run\<lparr>fr_waited := fr_waited run @ [delay_ms]\<rparr> else run)"

section \<open>Settling an attempt\<close>

definition park_at :: "registries \<Rightarrow> string \<Rightarrow> nat \<Rightarrow> nat \<Rightarrow> instant \<Rightarrow> registries" where
  "park_at r ns idx secs now = r\<lparr>rg_cooldowns := park (rg_cooldowns r) ns idx secs now\<rparr>"

definition release_at :: "registries \<Rightarrow> string \<Rightarrow> nat \<Rightarrow> instant \<Rightarrow> registries" where
  "release_at r ns idx now = r\<lparr>rg_breaker := release (rg_breaker r) ns idx now\<rparr>"

definition fail_at :: "registries \<Rightarrow> string \<Rightarrow> nat \<Rightarrow> instant \<Rightarrow> instant \<Rightarrow> registries" where
  "fail_at r ns idx now later = r\<lparr>rg_breaker := snd (on_failure (rg_breaker r) ns idx now later)\<rparr>"

definition succeed_at :: "registries \<Rightarrow> string \<Rightarrow> nat \<Rightarrow> registries" where
  "succeed_at r ns idx = r\<lparr>rg_breaker := snd (on_success (rg_breaker r) ns idx)\<rparr>"

text \<open>Both failure branches park the target, if cooldowns are on, and feed its breaker.\<close>

definition punish :: "forward \<Rightarrow> bool \<Rightarrow> dial \<Rightarrow> nat option \<Rightarrow> attempt_env \<Rightarrow> registries \<Rightarrow> registries" where
  "punish f cd d retry_after ae r =
     (let r = (if cd then park_at r (di_namespace d) (di_index d)
                            (duration_secs (sn_cooldown (fw_snap f)) retry_after) (ae_settle ae)
               else r)
      in fail_at r (di_namespace d) (di_index d) (ae_settle ae) (ae_later ae))"

definition supersede_status ::
  "forward \<Rightarrow> forward_pool \<Rightarrow> route_entry \<Rightarrow> dial \<Rightarrow> response \<Rightarrow> attempt_env \<Rightarrow> forward_run \<Rightarrow> next_step \<times> forward_run"
where
  "supersede_status f pool entry d resp ae run =
     (let run = record_superseded run (rp_status resp);
          retrying = has_untried f pool entry (fr_tried run) (fr_last_failure run);
          delay = retry_delay_ms (sn_retry (fw_snap f)) resp (di_attempt d + 1) (ae_backoff_draw ae);
          run = run\<lparr>fr_last_status := Some \<lparr>sf_status = rp_status resp, sf_retry_after = retry_after_secs resp\<rparr>,
                    fr_last_error := None\<rparr>
      in (Retry, back_off run delay retrying))"

definition is_sse :: "response \<Rightarrow> bool" where
  "is_sse r = (case rp_content_type r of None \<Rightarrow> False | Some ct \<Rightarrow> str_contains ct ''event-stream'')"

definition deliver :: "response \<Rightarrow> load_guard \<Rightarrow> forward_run \<Rightarrow> next_step \<times> forward_run" where
  "deliver resp guard run =
     (Stop, run\<lparr>fr_inflight_guard := Some (if rp_status resp < 400 then mark_ok guard else guard),
                fr_outcome := Some (resp, rp_status resp, is_sse resp)\<rparr>)"

definition settle_answer ::
  "forward \<Rightarrow> forward_pool \<Rightarrow> route_entry \<Rightarrow> dial \<Rightarrow> response \<Rightarrow> load_guard \<Rightarrow> attempt_env \<Rightarrow> forward_run \<Rightarrow>
    registries \<Rightarrow> (next_step \<times> forward_run) \<times> registries"
where
  "settle_answer f pool entry d resp guard ae run r =
     (let status = rp_status resp;
          can_retry = di_attempt d < fr_max_retries run;
          ns = di_namespace d;
          idx = di_index d;
          key_failure = pi_multi_key (di_key d) \<and> (status = 429 \<or> status = 401)
      in if key_failure then
           let r = (case pi_picked (di_key d) of
                      None \<Rightarrow> r
                    | Some (ki, _) \<Rightarrow>
                        park_at r (pi_pool (di_key d)) ki
                          (max (duration_secs (sn_cooldown (fw_snap f)) (retry_after_secs resp)) 1)
                          (ae_settle ae));
               run = run\<lparr>fr_tried := butlast (fr_tried run)\<rparr>;
               r = release_at r ns idx (ae_settle ae);
               run = run\<lparr>fr_last_failure := from_status status\<rparr>
           in if can_retry \<or> status = 401 then (supersede_status f pool entry d resp ae run, r)
              else (deliver resp guard run, r)
         else if is_upstream_auth_failure status then
           (supersede_status f pool entry d resp ae (run\<lparr>fr_last_failure := None\<rparr>),
            punish f (fr_cd_enabled run) d (retry_after_secs resp) ae r)
         else if is_retryable_status status then
           let run = run\<lparr>fr_last_failure := from_status status\<rparr>;
               r = punish f (fr_cd_enabled run) d (retry_after_secs resp) ae r
           in if can_retry then (supersede_status f pool entry d resp ae run, r)
              else (deliver resp guard run, r)
         else (deliver resp guard run, succeed_at r ns idx))"

definition settle_response ::
  "forward \<Rightarrow> forward_pool \<Rightarrow> route_entry \<Rightarrow> dial \<Rightarrow> response \<Rightarrow> load_guard \<Rightarrow> attempt_env \<Rightarrow> forward_run \<Rightarrow>
    registries \<Rightarrow> (next_step \<times> forward_run) \<times> registries"
where
  "settle_response f pool entry d resp guard ae run r =
     (let status = rp_status resp;
          can_retry = di_attempt d < fr_max_retries run
      in if can_retry \<and> may_be_refusal status \<and> takes_over_refusals (re_route entry) then
           (case peek_refusal (fw_parse f) resp of
              (Some failure, resp') \<Rightarrow>
                if has_untried f pool entry (fr_tried run) (Some failure) then
                  let run = record_superseded run status;
                      run = run\<lparr>fr_last_status := Some \<lparr>sf_status = status, sf_retry_after = None\<rparr>,
                                fr_last_error := None, fr_last_failure := Some failure\<rparr>
                  in ((Retry, run), release_at r (di_namespace d) (di_index d) (ae_settle ae))
                else settle_answer f pool entry d resp' guard ae run r
            | (None, resp') \<Rightarrow> settle_answer f pool entry d resp' guard ae run r)
         else settle_answer f pool entry d resp guard ae run r)"

definition settle_error ::
  "forward \<Rightarrow> forward_pool \<Rightarrow> route_entry \<Rightarrow> dial \<Rightarrow> string \<Rightarrow> attempt_env \<Rightarrow> forward_run \<Rightarrow> registries \<Rightarrow>
    (next_step \<times> forward_run) \<times> registries"
where
  "settle_error f pool entry d message ae run r =
     (let run = run\<lparr>fr_last_failure := Some (from_transport_error message)\<rparr>
      in if is_queue_admission_error message then
           ((Stop, run\<lparr>fr_last_error := Some message\<rparr>),
            release_at r (di_namespace d) (di_index d) (ae_settle ae))
         else
           let run = run\<lparr>fr_last_error := Some message\<rparr>;
               r = punish f (fr_cd_enabled run) d None ae r
           in if fr_max_retries run \<le> di_attempt d then ((Stop, run), r)
              else
                let run = record_superseded run 0;
                    retrying = has_untried f pool entry (fr_tried run) (fr_last_failure run)
                in ((Retry, back_off run
                       (backoff_ms (sn_retry (fw_snap f)) (di_attempt d + 1) (ae_backoff_draw ae)) retrying), r))"

section \<open>One attempt\<close>

definition parked_keys :: "registries \<Rightarrow> provider_keys \<Rightarrow> string \<Rightarrow> instant \<Rightarrow> target_mask \<times> registries" where
  "parked_keys r provider key_ns now =
     (if 1 < length (pk_api_keys provider) then
        let (m, c) = parked_mask (rg_cooldowns r) key_ns (length (pk_api_keys provider)) now
        in (m, r\<lparr>rg_cooldowns := c\<rparr>)
      else (mask_new, r))"

definition pick_key ::
  "forward \<Rightarrow> registries \<Rightarrow> provider_keys \<Rightarrow> string \<Rightarrow> attempt_env \<Rightarrow> (picked_key \<times> registries) may_panic"
where
  "pick_key f r provider pid ae =
     (let pool = key_pool_key pid;
          (parked, r) = parked_keys r provider pool (ae_begin ae)
      in map_option
           (\<lambda>picked. (\<lparr>pi_multi_key = (1 < length (pk_api_keys provider)), pi_pool = pool, pi_picked = picked\<rparr>, r))
           (pick_api_key_indexed (fw_getenv f) provider (ae_key_draw ae) (mask_contains parked)))"

text \<open>
  Dial the chosen target and settle what comes back. A guard that is not handed on with the answer is
  dropped when the attempt ends.
\<close>

definition dial_target ::
  "forward \<Rightarrow> forward_pool \<Rightarrow> nat \<Rightarrow> string \<Rightarrow> nat \<Rightarrow> target \<Rightarrow> provider_config \<Rightarrow> load_guard \<Rightarrow> forward_run \<Rightarrow> world \<Rightarrow>
    (next_step \<times> forward_run \<times> world) may_panic"
where
  "dial_target f pool attempt ns idx t provider guard run w =
     (let ae = fw_attempt f attempt
      in case pick_key f (wd_registries w) (pv_keys provider) (tg_provider t) ae of
           None \<Rightarrow> None
         | Some (picked, r) \<Rightarrow>
             let run = begin_attempt run;
                 d = \<lparr>di_attempt = attempt, di_namespace = ns, di_index = idx, di_key = picked\<rparr>;
                 ((step, run), r) =
                   (case ae_answer ae t (map_option snd (pi_picked picked)) of
                      Inr resp \<Rightarrow> settle_response f pool (wd_entry w) d resp guard ae run r
                    | Inl message \<Rightarrow> settle_error f pool (wd_entry w) d message ae run r);
                 loads = (if fr_outcome run = None then guard_drop guard (wd_loads w) (ae_drop ae)
                          else wd_loads w)
             in Some (step, run, w\<lparr>wd_registries := r, wd_loads := loads\<rparr>))"

definition fallback_reason :: "forward_run \<Rightarrow> string" where
  "fallback_reason run = (case fr_last_failure run of None \<Rightarrow> [] | Some x \<Rightarrow> failure_token x)"

definition provider_missing :: "forward_run \<Rightarrow> forward_run" where
  "provider_missing run = run\<lparr>fr_last_error := Some ''configured target provider not found''\<rparr>"

definition attribute :: "forward \<Rightarrow> target \<Rightarrow> string \<Rightarrow> forward_run \<Rightarrow> forward_run" where
  "attribute f t variant run =
     run\<lparr>fr_variant := variant, fr_last_provider := tg_provider t,
         fr_last_target := (case tg_model t of None \<Rightarrow> fw_model f | Some m \<Rightarrow> m)\<rparr>"

definition classic_attempt ::
  "forward \<Rightarrow> nat list \<Rightarrow> nat \<Rightarrow> forward_run \<Rightarrow> world \<Rightarrow> (next_step \<times> forward_run \<times> world) may_panic"
where
  "classic_attempt f loads attempt run w =
     (let ae = fw_attempt f attempt;
          ns = re_namespace (wd_entry w);
          p = \<lparr>tp_entry = wd_entry w, tp_ctx = fw_ctx f, tp_loads = loads, tp_namespace = ns,
               tp_cd_enabled = cooldown_enabled (sn_cooldown (fw_snap f)), tp_key_meta = fw_key_meta f\<rparr>;
          (choice, p, r) = pick (fw_env f) p (wd_registries w) (fr_tried run) (fr_last_failure run) (ae_pick ae);
          w = w\<lparr>wd_registries := r, wd_entry := tp_entry p\<rparr>
      in case choice of
           None \<Rightarrow> Some (Stop, run, w)
         | Some idx \<Rightarrow>
             let entry = (wd_entry w)\<lparr>re_balancer := balancer_observe (re_balancer (wd_entry w)) idx (fw_ctx f)\<rparr>;
                 run = run\<lparr>fr_tried := fr_tried run @ [idx], fr_fallback_reason := fallback_reason run\<rparr>;
                 (guard, lt) = begin_load (wd_loads w) ns idx (ae_begin ae);
                 guard = set_prompt_tokens guard (prompt_tokens (fw_ctx f));
                 w = w\<lparr>wd_entry := entry, wd_loads := lt\<rparr>;
                 t = mr_targets (re_route entry) ! idx
             in case hm_get (sn_providers (fw_snap f)) (tg_provider t) of
                  None \<Rightarrow>
                    Some (Stop, provider_missing run,
                      w\<lparr>wd_registries := release_at (wd_registries w) ns idx (ae_settle ae),
                        wd_loads := guard_drop guard lt (ae_drop ae)\<rparr>)
                | Some provider \<Rightarrow>
                    dial_target f ClassicPool attempt ns idx t provider guard
                      (run\<lparr>fr_last_provider := tg_provider t,
                           fr_last_target := (case tg_model t of None \<Rightarrow> fw_model f | Some m \<Rightarrow> m)\<rparr>) w)"

text \<open>The attempts of a run, until one stops it or the budget is spent.\<close>

fun attempt_loop ::
  "(nat \<Rightarrow> forward_run \<Rightarrow> world \<Rightarrow> (next_step \<times> forward_run \<times> world) may_panic) \<Rightarrow> nat list \<Rightarrow>
    forward_run \<Rightarrow> world \<Rightarrow> (forward_run \<times> world) may_panic"
where
  "attempt_loop att [] run w = Some (run, w)"
| "attempt_loop att (a # rest) run w =
     (case att a run w of
        None \<Rightarrow> None
      | Some (Stop, run, w) \<Rightarrow> Some (run, w)
      | Some (Retry, run, w) \<Rightarrow> attempt_loop att rest run w)"

definition forward_classic :: "forward \<Rightarrow> world \<Rightarrow> (forward_run \<times> world) may_panic" where
  "forward_classic f w =
     (let entry = wd_entry w;
          targets = mr_targets (re_route entry);
          loads = with_queue_depth (fw_queue_depth f) targets
                    (load_snapshot (wd_loads w) (re_namespace entry) (length targets));
          run = run_new f entry
      in attempt_loop (classic_attempt f loads) [0..<fr_max_retries run + 1] run w)"

section \<open>The variant chain\<close>

definition variant_attempt ::
  "forward \<Rightarrow> (nat \<times> nat) list \<Rightarrow> string list \<Rightarrow> nat \<Rightarrow> forward_run \<Rightarrow> world \<Rightarrow>
    (next_step \<times> forward_run \<times> world) may_panic"
where
  "variant_attempt f candidates keys attempt run w =
     (let ae = fw_attempt f attempt;
          route = re_route (wd_entry w);
          (choice, r) = next_candidate route candidates keys (fr_tried run) (fr_last_failure run)
                          (cooldown_enabled (sn_cooldown (fw_snap f))) (ae_pick ae) (wd_registries w);
          w = w\<lparr>wd_registries := r\<rparr>
      in case choice of
           None \<Rightarrow> Some (Stop, run, w)
         | Some ci \<Rightarrow>
             let run = run\<lparr>fr_tried := fr_tried run @ [ci], fr_fallback_reason := fallback_reason run\<rparr>;
                 (vi, ti) = candidates ! ci;
                 v = mr_variants route ! vi;
                 t = vr_targets v ! ti;
                 ns = keys ! vi;
                 bs = re_variant_balancers (wd_entry w);
                 entry = (case vec_get bs vi of
                            None \<Rightarrow> wd_entry w
                          | Some b \<Rightarrow>
                              (wd_entry w)\<lparr>re_variant_balancers := bs[vi := balancer_observe b ti (fw_ctx f)]\<rparr>);
                 w = w\<lparr>wd_entry := entry\<rparr>
             in case hm_get (sn_providers (fw_snap f)) (tg_provider t) of
                  None \<Rightarrow>
                    Some (Stop, provider_missing run,
                      w\<lparr>wd_registries := release_at (wd_registries w) ns ti (ae_settle ae)\<rparr>)
                | Some provider \<Rightarrow>
                    let (guard, lt) = begin_load (wd_loads w) ns ti (ae_begin ae);
                        guard = set_prompt_tokens guard (prompt_tokens (fw_ctx f))
                    in dial_target f (VariantPool candidates) attempt ns ti t provider guard
                         (attribute f t (vr_name v) run) (w\<lparr>wd_loads := lt\<rparr>))"

definition forward_variants :: "forward \<Rightarrow> rat \<Rightarrow> instant \<Rightarrow> world \<Rightarrow> (forward_run \<times> world) may_panic" where
  "forward_variants f draw now w =
     (let entry = wd_entry w;
          route = re_route entry;
          primary = (case sample_variant route draw of None \<Rightarrow> 0 | Some i \<Rightarrow> i);
          keys = map (\<lambda>v. variant_key (re_namespace entry) (vr_name v)) (mr_variants route);
          (candidates, entry, r) =
            variant_candidates (fw_env f) (wd_loads w) (fw_queue_depth f) keys (fw_ctx f) primary (fw_key_meta f)
              (cooldown_enabled (sn_cooldown (fw_snap f))) now entry (wd_registries w);
          run = run_new f entry;
          run = (case vec_get (mr_variants route) primary of
                   None \<Rightarrow> run | Some v \<Rightarrow> run\<lparr>fr_sampled_variant := vr_name v\<rparr>)
      in attempt_loop (variant_attempt f candidates keys) [0..<fr_max_retries run + 1] run
           (w\<lparr>wd_entry := entry, wd_registries := r\<rparr>))"

text \<open>The variant chain when the route has variants, else the classic pool.\<close>

definition forward_request :: "forward \<Rightarrow> rat \<Rightarrow> instant \<Rightarrow> world \<Rightarrow> (forward_run \<times> world) may_panic" where
  "forward_request f draw now w =
     (if has_variants (re_route (wd_entry w)) then forward_variants f draw now w else forward_classic f w)"

end
