(* ===== verification/Forwarding_Props.thy ===== *)
theory Forwarding_Props
  imports Forwarding Routing_Props
begin

text \<open>
  What a forward run guarantees, for the classic pool and the variant chain: no breaker probe is left
  behind, only targets the key may use are dialled, credential refusals of an upstream never reach the
  caller, and every in-flight count is given back.
\<close>

section \<open>Probes are reported back\<close>

definition probing :: "breaker \<Rightarrow> string \<Rightarrow> nat \<Rightarrow> bool" where
  "probing b model idx =
     (case entry_of b model idx of
        None \<Rightarrow> False | Some e \<Rightarrow> (case be_phase e of HalfOpen _ \<Rightarrow> True | _ \<Rightarrow> False))"

definition no_new_probes :: "breaker \<Rightarrow> breaker \<Rightarrow> bool" where
  "no_new_probes b b' \<longleftrightarrow> (\<forall>model idx. probing b' model idx \<longrightarrow> probing b model idx)"

lemma no_new_probes_refl [simp]: "no_new_probes b b"
  by (simp add: no_new_probes_def)

lemma no_new_probes_trans: "no_new_probes b b' \<Longrightarrow> no_new_probes b' b'' \<Longrightarrow> no_new_probes b b''"
  by (simp add: no_new_probes_def)

text \<open>An operation on one target: nothing else changes, and an inert registry not at all.\<close>

definition touches :: "string \<Rightarrow> nat \<Rightarrow> breaker \<Rightarrow> breaker \<Rightarrow> bool" where
  "touches ns i b b' \<longleftrightarrow>
     (active b = None \<longrightarrow> b' = b) \<and> (active b' = None \<longleftrightarrow> active b = None) \<and>
     (\<forall>model j. model \<noteq> ns \<or> j \<noteq> i \<longrightarrow> entry_of b' model j = entry_of b model j)"

lemma touches_refl [simp]: "touches ns i b b"
  by (simp add: touches_def)

lemma sets_entry_touches: "br_enabled s \<Longrightarrow> sets_entry s ns i e b' \<Longrightarrow> touches ns i (Some s) b'"
  by (auto simp: touches_def sets_entry_def dest: tuning_eqD)

lemma active_cases: obtains "active b = None" | s where "b = Some s" "br_enabled s"
  by (metis active_None active_Some not_Some_eq)

lemma allows_touches: "touches ns i b (snd (allows b ns i now))"
proof (cases b rule: active_cases)
  case 1
  then show ?thesis by (simp add: allows_def)
next
  case (2 s)
  then show ?thesis using allows_refines(2) [of s ns i now] by (auto intro: sets_entry_touches)
qed

definition reports :: "string \<Rightarrow> nat \<Rightarrow> breaker \<Rightarrow> breaker \<Rightarrow> bool" where
  "reports ns i b b' \<longleftrightarrow>
     b' = snd (on_success b ns i) \<or> (\<exists>now. b' = release b ns i now) \<or>
     (\<exists>now later. b' = snd (on_failure b ns i now later))"

lemma record_failure_phase: "be_phase (snd (record_failure e thr t now)) \<noteq> HalfOpen d"
  by (auto simp: record_failure_def Let_def split: phase.splits)

lemma spec_release_phase: "spec_release e now = Some x \<Longrightarrow> be_phase x \<noteq> HalfOpen d"
  by (auto simp: spec_release_def split: option.splits phase.splits)

lemma reports_settles:
  assumes "reports ns i b b'"
  shows "touches ns i b b' \<and> (active b \<noteq> None \<longrightarrow> \<not> probing b' ns i)"
proof (cases b rule: active_cases)
  case 1
  then have "b' = b" using assms by (auto simp: reports_def on_success_def release_def on_failure_def)
  with 1 show ?thesis by simp
next
  case (2 s)
  obtain e where e: "sets_entry s ns i e b'" "\<And>x d. e = Some x \<Longrightarrow> be_phase x \<noteq> HalfOpen d"
  proof -
    consider "b' = snd (on_success b ns i)" | now where "b' = release b ns i now"
      | now later where "b' = snd (on_failure b ns i now later)"
      using assms by (auto simp: reports_def)
    then show thesis
    proof cases
      case 1
      have "snd (spec_success x) = None" for x by (auto simp: spec_success_def split: option.splits)
      with 1 2 on_success_refines(2) [of s ns i] show thesis by (auto intro: that [of None])
    next
      case (2 now)
      with \<open>b = Some s\<close> \<open>br_enabled s\<close> release_refines [of s ns i now] show thesis
        by (auto intro: that [OF _ spec_release_phase])
    next
      case (3 now later)
      have "snd (spec_failure thr t x l) = Some y \<Longrightarrow> be_phase y \<noteq> HalfOpen d" for thr t x l y d
        using record_failure_phase by (auto simp: spec_failure_def)
      with 3 2 on_failure_refines(2) [of s ns i now later] show thesis by (auto intro: that)
    qed
  qed
  have "entry_of b' ns i = e" using e(1) by (auto simp: sets_entry_def)
  with e(2) have "\<not> probing b' ns i" by (auto simp: probing_def split: option.splits phase.splits)
  with sets_entry_touches [OF 2(2) e(1)] 2 show ?thesis by simp
qed

lemma settled_no_new_probes:
  assumes "b1 = b \<or> b1 = snd (allows b ns i now)" "reports ns i b1 b'"
  shows "no_new_probes b b'"
proof -
  have t: "touches ns i b b1" using assms(1) allows_touches by auto
  note r = reports_settles [OF assms(2)]
  show ?thesis
  proof (cases "active b = None")
    case True
    then have "b' = b" using t r by (auto simp: touches_def)
    then show ?thesis by simp
  next
    case False
    then have here: "\<not> probing b' ns i" using t r by (auto simp: touches_def)
    have there: "probing b' model j = probing b model j" if "model \<noteq> ns \<or> j \<noteq> i" for model j
      using t r that by (auto simp: touches_def probing_def)
    show ?thesis
      unfolding no_new_probes_def
    proof (intro allI impI)
      fix model j assume "probing b' model j"
      then show "probing b model j" using here there by (cases "model = ns \<and> j = i") auto
    qed
  qed
qed

section \<open>What a pick does to the breaker\<close>

definition took :: "string \<Rightarrow> nat option \<Rightarrow> instant \<Rightarrow> breaker \<Rightarrow> breaker \<Rightarrow> bool" where
  "took ns choice now b b' \<longleftrightarrow> b' = b \<or> (\<exists>i. choice = Some i \<and> b' = snd (allows b ns i now))"

lemma breaker_admits_took:
  "rg_breaker (snd (breaker_admits p tp r i now)) = rg_breaker r \<or>
   rg_breaker (snd (breaker_admits p tp r i now)) = snd (allows (rg_breaker r) (tp_namespace p) i now)"
  by (simp add: breaker_admits_def case_prod_beta)

lemma skip_target_took:
  "rg_breaker (snd (skip_target p failure tp r i now)) = rg_breaker r \<or>
   rg_breaker (snd (skip_target p failure tp r i now)) = snd (allows (rg_breaker r) (tp_namespace p) i now)"
proof -
  have "rg_breaker (snd (breaker_admits p tp (r\<lparr>rg_cooldowns := c\<rparr>) i now)) = rg_breaker r \<or>
      rg_breaker (snd (breaker_admits p tp (r\<lparr>rg_cooldowns := c\<rparr>) i now)) =
        snd (allows (rg_breaker r) (tp_namespace p) i now)" for c
    using breaker_admits_took [of p tp "r\<lparr>rg_cooldowns := c\<rparr>" i now] by simp
  then show ?thesis
    using breaker_admits_took [of p tp r i now]
    by (auto simp: skip_target_def case_prod_beta Let_def)
qed

lemma pick_with_took:
  "took (tp_namespace p) (fst (pick_with e p r tried failure tp now)) now (rg_breaker r)
     (rg_breaker (snd (snd (pick_with e p r tried failure tp now))))"
proof -
  define n where "n = length (pool_targets p)"
  define rd where "rd = blocked_read r (tp_namespace p) (tp_cd_enabled p) n (map tg_provider (pool_targets p)) now"
  define usable where "usable = (\<lambda>i. i < n \<and> i \<notin> set tried \<and> admits (tp_entry p) i (tp_key_meta p) failure \<and>
      \<not> blocked_contains (fst rd) i)"
  define choice where "choice = fst (balancer_pick_eligible e (re_balancer (tp_entry p)) (tp_ctx p) (tp_loads p) usable)"
  define r1 where "r1 = snd rd"
  have br: "rg_breaker r1 = rg_breaker r" by (simp add: r1_def rd_def)
  define lp where "lp =
    (case opt_filter (\<lambda>i. i < n) choice of
       None \<Rightarrow> (None, r1)
     | Some i \<Rightarrow>
         if i \<in> set tried then (None, r1)
         else (if fst (skip_target p failure tp r1 i now) then None else Some i,
               snd (skip_target p failure tp r1 i now)))"
  have lp: "took (tp_namespace p) (fst lp) now (rg_breaker r) (rg_breaker (snd lp))"
    using skip_target_took [of p failure tp r1 _ now] skip_target_registries [of p failure tp r1 _ now] br
    by (auto simp: lp_def took_def split: option.splits)
  define fd where "fd = find_admitted p tp usable [0..<n] (snd lp) now"
  have step: "pick_with e p r tried failure tp now =
      (case fst lp of
         Some i \<Rightarrow> (Some i, p\<lparr>tp_entry := (tp_entry p)\<lparr>re_balancer := snd (balancer_pick_eligible e
             (re_balancer (tp_entry p)) (tp_ctx p) (tp_loads p) usable)\<rparr>\<rparr>, snd lp)
       | None \<Rightarrow> (case fst fd of Some i \<Rightarrow> Some i
             | None \<Rightarrow> first_untried_allowed (tp_entry p) tried (tp_key_meta p) failure,
           p\<lparr>tp_entry := (tp_entry p)\<lparr>re_balancer := snd (balancer_pick_eligible e
             (re_balancer (tp_entry p)) (tp_ctx p) (tp_loads p) usable)\<rparr>\<rparr>, snd fd))"
    unfolding pick_with_def Let_def case_prod_beta n_def [symmetric] rd_def [symmetric] usable_def [symmetric]
      r1_def [symmetric] choice_def [symmetric] lp_def [symmetric] fd_def [symmetric] ..
  show ?thesis
  proof (cases "fst lp")
    case (Some i)
    then show ?thesis using lp by (simp add: step)
  next
    case None
    then have eq: "rg_breaker (snd lp) = rg_breaker r" using lp by (auto simp: took_def)
    have "took (tp_namespace p) (fst fd) now (rg_breaker r) (rg_breaker (snd fd))"
      using breaker_admits_took [of p tp "snd lp" _ now] eq
      by (auto simp: fd_def find_admitted_spec took_def split: option.splits)
    with None show ?thesis by (auto simp: step took_def split: option.splits)
  qed
qed

lemma read_variant_breaker [simp]:
  "rg_breaker (snd (snd (read_variant route keys cd now vi cell r))) = rg_breaker r"
  by (auto simp: read_variant_def case_prod_beta Let_def split: option.splits)

definition took_candidate ::
  "(nat \<times> nat) list \<Rightarrow> string list \<Rightarrow> nat option \<Rightarrow> instant \<Rightarrow> breaker \<Rightarrow> breaker \<Rightarrow> bool"
where
  "took_candidate cs keys choice now b b' \<longleftrightarrow>
     b' = b \<or> (\<exists>ci. choice = Some ci \<and> b' = snd (allows b (keys ! fst (cs ! ci)) (snd (cs ! ci)) now))"

lemma fresh_loop_took:
  "took_candidate cs keys (fst (fresh_loop route cs keys tried failure cd now is cell r)) now (rg_breaker r)
     (rg_breaker (snd (fresh_loop route cs keys tried failure cd now is cell r)))"
proof (induction "is" arbitrary: cell r)
  case (Cons ci rest)
  obtain vi ti where c: "cs ! ci = (vi, ti)" by fastforce
  obtain b cell' r'' where rv: "read_variant route keys cd now vi cell r = (b, cell', r'')"
    by (cases "read_variant route keys cd now vi cell r")
  have br: "rg_breaker r'' = rg_breaker r" using read_variant_breaker [of route keys cd now vi cell r] rv by simp
  have keep: "snd (allows (rg_breaker r) (keys ! vi) ti now) = rg_breaker r"
    if "\<not> fst (allows (rg_breaker r) (keys ! vi) ti now)" using allows_refused [OF that] .
  show ?case
    using Cons.IH [of cell r] Cons.IH [of cell' r''] Cons.IH [of cell' "r''\<lparr>rg_breaker := rg_breaker r\<rparr>"] br keep
    by (auto simp: c rv Let_def case_prod_beta took_candidate_def)
qed (simp add: took_candidate_def)

lemma next_candidate_took:
  "took_candidate cs keys (fst (next_candidate route cs keys tried failure cd now r)) now (rg_breaker r)
     (rg_breaker (snd (next_candidate route cs keys tried failure cd now r)))"
proof -
  define fl where "fl = fresh_loop route cs keys tried failure cd now [0..<length cs] None r"
  have "took_candidate cs keys (fst fl) now (rg_breaker r) (rg_breaker (snd fl))"
    unfolding fl_def by (rule fresh_loop_took)
  then show ?thesis
    unfolding next_candidate_def fl_def [symmetric]
    by (cases fl) (auto simp: took_candidate_def split: option.splits)
qed

section \<open>Settling reports exactly once\<close>

lemma park_at_breaker [simp]: "rg_breaker (park_at r ns idx secs now) = rg_breaker r"
  by (simp add: park_at_def)

lemma release_at_reports: "reports ns i (rg_breaker r) (rg_breaker (release_at r ns i now))"
  by (auto simp: release_at_def reports_def)

lemma succeed_at_reports: "reports ns i (rg_breaker r) (rg_breaker (succeed_at r ns i))"
  by (auto simp: succeed_at_def reports_def)

lemma punish_reports: "reports (di_namespace d) (di_index d) (rg_breaker r) (rg_breaker (punish f cd d ra ae r))"
  by (auto simp: punish_def fail_at_def Let_def reports_def)

lemma settle_answer_reports:
  "reports (di_namespace d) (di_index d) (rg_breaker r)
     (rg_breaker (snd (settle_answer f pool entry d resp guard ae run r)))"
proof -
  have key: "reports (di_namespace d) (di_index d) (rg_breaker r)
      (rg_breaker (release_at (case pi_picked (di_key d) of None \<Rightarrow> r
         | Some (ki, x) \<Rightarrow> park_at r pl ki (secs) t) (di_namespace d) (di_index d) now))" for pl secs t now
    using release_at_reports [of "di_namespace d" "di_index d" _ now]
    by (auto split: option.splits prod.splits) (metis park_at_breaker)
  show ?thesis
    using key punish_reports succeed_at_reports
    by (simp add: settle_answer_def Let_def)
qed

lemma settle_response_reports:
  "reports (di_namespace d) (di_index d) (rg_breaker r)
     (rg_breaker (snd (settle_response f pool entry d resp guard ae run r)))"
  using settle_answer_reports release_at_reports
  by (auto simp: settle_response_def Let_def split: prod.splits option.splits)

lemma settle_error_reports:
  "reports (di_namespace d) (di_index d) (rg_breaker r)
     (rg_breaker (snd (settle_error f pool entry d message ae run r)))"
  using punish_reports release_at_reports
  by (auto simp: settle_error_def Let_def)

section \<open>No probe is left behind\<close>

lemma parked_keys_breaker [simp]: "rg_breaker (snd (parked_keys r pk ns now)) = rg_breaker r"
  by (simp add: parked_keys_def case_prod_beta)

lemma pick_key_breaker: "pick_key f r pk pid ae = Some (picked, r') \<Longrightarrow> rg_breaker r' = rg_breaker r"
  by (auto simp: pick_key_def Let_def case_prod_beta)

lemma dial_target_reports:
  assumes "dial_target f pool attempt ns idx t provider guard run w = Some (step, run', w')"
  shows "reports ns idx (rg_breaker (wd_registries w)) (rg_breaker (wd_registries w'))"
proof -
  define ae where "ae = fw_attempt f attempt"
  obtain picked r where pk: "pick_key f (wd_registries w) (pv_keys provider) (tg_provider t) ae = Some (picked, r)"
    using assms by (auto simp: dial_target_def ae_def Let_def split: option.splits)
  define d where "d = \<lparr>di_attempt = attempt, di_namespace = ns, di_index = idx, di_key = picked\<rparr>"
  have ns: "di_namespace d = ns" "di_index d = idx" by (simp_all add: d_def)
  have br: "rg_breaker r = rg_breaker (wd_registries w)" by (rule pick_key_breaker [OF pk])
  show ?thesis
  proof (cases "ae_answer ae t (map_option snd (pi_picked picked))")
    case (Inl message)
    then have "wd_registries w' = snd (settle_error f pool (wd_entry w) d message ae (begin_attempt run) r)"
      using assms pk
      by (auto simp: dial_target_def ae_def [symmetric] d_def [symmetric] Let_def case_prod_beta)
    then show ?thesis using settle_error_reports [of d r f pool "wd_entry w" message ae "begin_attempt run"] ns br by simp
  next
    case (Inr resp)
    then have "wd_registries w' = snd (settle_response f pool (wd_entry w) d resp guard ae (begin_attempt run) r)"
      using assms pk
      by (auto simp: dial_target_def ae_def [symmetric] d_def [symmetric] Let_def case_prod_beta)
    then show ?thesis
      using settle_response_reports [of d r f pool "wd_entry w" resp guard ae "begin_attempt run"] ns br by simp
  qed
qed

text \<open>The parts of an attempt on the classic pool.\<close>

definition classic_pool :: "forward \<Rightarrow> nat list \<Rightarrow> world \<Rightarrow> target_pool" where
  "classic_pool f loads w =
     \<lparr>tp_entry = wd_entry w, tp_ctx = fw_ctx f, tp_loads = loads, tp_namespace = re_namespace (wd_entry w),
      tp_cd_enabled = cooldown_enabled (sn_cooldown (fw_snap f)), tp_key_meta = fw_key_meta f\<rparr>"

definition classic_pick :: "forward \<Rightarrow> nat list \<Rightarrow> nat \<Rightarrow> forward_run \<Rightarrow> world \<Rightarrow> nat option \<times> target_pool \<times> registries" where
  "classic_pick f loads attempt run w =
     pick (fw_env f) (classic_pool f loads w) (wd_registries w) (fr_tried run) (fr_last_failure run)
       (ae_pick (fw_attempt f attempt))"

definition chosen_run :: "forward_run \<Rightarrow> nat \<Rightarrow> forward_run" where
  "chosen_run run i = run\<lparr>fr_tried := fr_tried run @ [i], fr_fallback_reason := fallback_reason run\<rparr>"

definition observed_world :: "forward \<Rightarrow> nat list \<Rightarrow> nat \<Rightarrow> forward_run \<Rightarrow> world \<Rightarrow> nat \<Rightarrow> world" where
  "observed_world f loads attempt run w idx =
     w\<lparr>wd_registries := snd (snd (classic_pick f loads attempt run w)),
       wd_entry :=
         (let e = tp_entry (fst (snd (classic_pick f loads attempt run w)))
          in e\<lparr>re_balancer := balancer_observe (re_balancer e) idx (fw_ctx f)\<rparr>),
       wd_loads := snd (begin_load (wd_loads w) (re_namespace (wd_entry w)) idx (ae_begin (fw_attempt f attempt)))\<rparr>"

definition opened_guard :: "forward \<Rightarrow> nat \<Rightarrow> load_tracker \<Rightarrow> string \<Rightarrow> nat \<Rightarrow> load_guard" where
  "opened_guard f attempt lt ns idx =
     set_prompt_tokens (fst (begin_load lt ns idx (ae_begin (fw_attempt f attempt)))) (prompt_tokens (fw_ctx f))"

lemma pick_route: "re_route (tp_entry (fst (snd (pick e p r tried failure now)))) = re_route (tp_entry p)"
  by (auto simp: pick_def pick_with_def Let_def case_prod_beta split: option.splits)

lemma classic_attempt_unfold:
  "classic_attempt f loads attempt run w =
     (case fst (classic_pick f loads attempt run w) of
        None \<Rightarrow>
          Some (Stop, run, w\<lparr>wd_registries := snd (snd (classic_pick f loads attempt run w)),
                             wd_entry := tp_entry (fst (snd (classic_pick f loads attempt run w)))\<rparr>)
      | Some idx \<Rightarrow>
          let w1 = observed_world f loads attempt run w idx;
              ns = re_namespace (wd_entry w);
              guard = opened_guard f attempt (wd_loads w) ns idx;
              t = mr_targets (re_route (wd_entry w)) ! idx
          in case hm_get (sn_providers (fw_snap f)) (tg_provider t) of
               None \<Rightarrow>
                 Some (Stop, provider_missing (chosen_run run idx),
                   w1\<lparr>wd_registries := release_at (wd_registries w1) ns idx (ae_settle (fw_attempt f attempt)),
                      wd_loads := guard_drop guard (wd_loads w1) (ae_drop (fw_attempt f attempt))\<rparr>)
             | Some provider \<Rightarrow>
                 dial_target f ClassicPool attempt ns idx t provider guard
                   ((chosen_run run idx)\<lparr>fr_last_provider := tg_provider t,
                      fr_last_target := (case tg_model t of None \<Rightarrow> fw_model f | Some m \<Rightarrow> m)\<rparr>) w1)"
proof -
  have route: "re_route (tp_entry (fst (snd (classic_pick f loads attempt run w)))) = re_route (wd_entry w)"
    by (simp add: classic_pick_def pick_route classic_pool_def)
  show ?thesis
    unfolding classic_attempt_def Let_def case_prod_beta classic_pool_def [symmetric] classic_pick_def [symmetric]
    by (simp add: observed_world_def opened_guard_def chosen_run_def route Let_def cong: option.case_cong)
qed

lemma classic_attempt_probes:
  assumes "classic_attempt f loads attempt run w = Some (step, run', w')"
  shows "no_new_probes (rg_breaker (wd_registries w)) (rg_breaker (wd_registries w'))"
proof -
  define cp where "cp = classic_pick f loads attempt run w"
  have took: "took (re_namespace (wd_entry w)) (fst cp) (ae_pick (fw_attempt f attempt))
      (rg_breaker (wd_registries w)) (rg_breaker (snd (snd cp)))"
    using pick_with_took [of "classic_pool f loads w" "fw_env f" "wd_registries w" "fr_tried run"
        "fr_last_failure run" True "ae_pick (fw_attempt f attempt)"]
    by (simp add: cp_def classic_pick_def pick_def classic_pool_def)
  show ?thesis
  proof (cases "fst cp")
    case None
    then have "rg_breaker (snd (snd cp)) = rg_breaker (wd_registries w)" using took by (auto simp: took_def)
    moreover have "wd_registries w' = snd (snd cp)"
      using assms None unfolding classic_attempt_unfold cp_def [symmetric] by auto
    ultimately show ?thesis by simp
  next
    case (Some idx)
    have wr: "wd_registries (observed_world f loads attempt run w idx) = snd (snd cp)"
      by (simp add: observed_world_def cp_def)
    have "reports (re_namespace (wd_entry w)) idx (rg_breaker (snd (snd cp))) (rg_breaker (wd_registries w'))"
      using assms Some release_at_reports [of "re_namespace (wd_entry w)" idx "snd (snd cp)"]
      unfolding classic_attempt_unfold cp_def [symmetric] Let_def
      by (auto simp: wr split: option.splits dest: dial_target_reports)
    with took Some show ?thesis
      by (intro settled_no_new_probes [of "rg_breaker (snd (snd cp))"]) (auto simp: took_def)
  qed
qed

lemma attempt_loop_result:
  assumes "attempt_loop att attempts run w = Some (run', w')" and "I run w"
    and step: "\<And>a run w s run' w'. a \<in> set attempts \<Longrightarrow> I run w \<Longrightarrow> att a run w = Some (s, run', w') \<Longrightarrow>
      (case s of Retry \<Rightarrow> I run' w' | Stop \<Rightarrow> Q run' w')"
    and out: "\<And>run w. I run w \<Longrightarrow> Q run w"
  shows "Q run' w'"
  using assms(1,2) step
proof (induction attempts arbitrary: run w)
  case Nil
  then show ?case by (simp add: out)
next
  case (Cons a rest)
  then obtain s run1 w1 where a: "att a run w = Some (s, run1, w1)" by (auto split: option.splits)
  have s: "case s of Retry \<Rightarrow> I run1 w1 | Stop \<Rightarrow> Q run1 w1"
    by (rule Cons.prems(3) [OF _ Cons.prems(2) a]) simp
  show ?case
  proof (cases s)
    case Retry
    with Cons.prems(1) a s show ?thesis
      by (intro Cons.IH [of run1 w1]) (auto intro: Cons.prems(3))
  next
    case Stop
    with Cons.prems(1) a s show ?thesis by simp
  qed
qed

text \<open>The parts of an attempt on the variant chain.\<close>

definition variant_pick ::
  "forward \<Rightarrow> (nat \<times> nat) list \<Rightarrow> string list \<Rightarrow> nat \<Rightarrow> forward_run \<Rightarrow> world \<Rightarrow> nat option \<times> registries"
where
  "variant_pick f cs keys attempt run w =
     next_candidate (re_route (wd_entry w)) cs keys (fr_tried run) (fr_last_failure run)
       (cooldown_enabled (sn_cooldown (fw_snap f))) (ae_pick (fw_attempt f attempt)) (wd_registries w)"

definition variant_observed :: "forward \<Rightarrow> registries \<Rightarrow> world \<Rightarrow> nat \<Rightarrow> nat \<Rightarrow> world" where
  "variant_observed f r w vi ti =
     w\<lparr>wd_registries := r,
       wd_entry :=
         (case vec_get (re_variant_balancers (wd_entry w)) vi of
            None \<Rightarrow> wd_entry w
          | Some b \<Rightarrow>
              (wd_entry w)\<lparr>re_variant_balancers :=
                (re_variant_balancers (wd_entry w))[vi := balancer_observe b ti (fw_ctx f)]\<rparr>)\<rparr>"

lemma variant_attempt_unfold:
  "variant_attempt f cs keys attempt run w =
     (case fst (variant_pick f cs keys attempt run w) of
        None \<Rightarrow> Some (Stop, run, w\<lparr>wd_registries := snd (variant_pick f cs keys attempt run w)\<rparr>)
      | Some ci \<Rightarrow>
          let vi = fst (cs ! ci); ti = snd (cs ! ci);
              v = mr_variants (re_route (wd_entry w)) ! vi;
              t = vr_targets v ! ti;
              w1 = variant_observed f (snd (variant_pick f cs keys attempt run w)) w vi ti
          in case hm_get (sn_providers (fw_snap f)) (tg_provider t) of
               None \<Rightarrow>
                 Some (Stop, provider_missing (chosen_run run ci),
                   w1\<lparr>wd_registries := release_at (wd_registries w1) (keys ! vi) ti (ae_settle (fw_attempt f attempt))\<rparr>)
             | Some provider \<Rightarrow>
                 dial_target f (VariantPool cs) attempt (keys ! vi) ti t provider
                   (opened_guard f attempt (wd_loads w) (keys ! vi) ti)
                   (attribute f t (vr_name v) (chosen_run run ci))
                   (w1\<lparr>wd_loads := snd (begin_load (wd_loads w) (keys ! vi) ti (ae_begin (fw_attempt f attempt)))\<rparr>))"
  unfolding variant_attempt_def Let_def case_prod_beta variant_pick_def [symmetric]
  by (simp add: variant_observed_def opened_guard_def chosen_run_def cong: option.case_cong)

lemma variant_attempt_probes:
  assumes "variant_attempt f cs keys attempt run w = Some (step, run', w')"
  shows "no_new_probes (rg_breaker (wd_registries w)) (rg_breaker (wd_registries w'))"
proof -
  define vp where "vp = variant_pick f cs keys attempt run w"
  have took: "took_candidate cs keys (fst vp) (ae_pick (fw_attempt f attempt))
      (rg_breaker (wd_registries w)) (rg_breaker (snd vp))"
    unfolding vp_def variant_pick_def by (rule next_candidate_took)
  show ?thesis
  proof (cases "fst vp")
    case None
    then have "rg_breaker (snd vp) = rg_breaker (wd_registries w)" using took by (auto simp: took_candidate_def)
    moreover have "wd_registries w' = snd vp"
      using assms None unfolding variant_attempt_unfold vp_def [symmetric] by auto
    ultimately show ?thesis by simp
  next
    case (Some ci)
    have wr: "wd_registries (variant_observed f (snd vp) w vi ti) = snd vp" for vi ti
      by (simp add: variant_observed_def)
    have "reports (keys ! fst (cs ! ci)) (snd (cs ! ci)) (rg_breaker (snd vp)) (rg_breaker (wd_registries w'))"
      using assms Some release_at_reports [of "keys ! fst (cs ! ci)" "snd (cs ! ci)" "snd vp"]
      unfolding variant_attempt_unfold vp_def [symmetric] Let_def
      by (auto simp: wr split: option.splits dest: dial_target_reports)
    with took Some show ?thesis
      by (intro settled_no_new_probes [of "rg_breaker (snd vp)"]) (auto simp: took_candidate_def)
  qed
qed

lemma blocked_read_breaker [simp]: "rg_breaker (snd (blocked_read r ns cd n ps now)) = rg_breaker r"
  by simp

lemma candidates_loop_registries:
  "rg_breaker (snd (snd (candidates_loop e loads depth keys ctx key cd now vis entry r))) = rg_breaker r"
  by (induction vis arbitrary: entry r) (simp_all add: Let_def case_prod_beta split: option.splits)

lemma attempt_loop_probes:
  assumes "attempt_loop att attempts run w = Some (run', w')"
    and "\<And>a run w s run' w'. att a run w = Some (s, run', w') \<Longrightarrow>
      no_new_probes (rg_breaker (wd_registries w)) (rg_breaker (wd_registries w'))"
  shows "no_new_probes (rg_breaker (wd_registries w)) (rg_breaker (wd_registries w'))"
  by (rule attempt_loop_result [OF assms(1), where I = "\<lambda>_ v. no_new_probes (rg_breaker (wd_registries w)) (rg_breaker (wd_registries v))"])
    (auto split: next_step.splits dest: assms(2) intro: no_new_probes_trans)

lemma forward_request_probes:
  assumes "forward_request f draw now w = Some (run, w')"
  shows "no_new_probes (rg_breaker (wd_registries w)) (rg_breaker (wd_registries w'))"
proof -
  have "forward_classic f w = Some (run, w') \<or> forward_variants f draw now w = Some (run, w')"
    using assms by (auto simp: forward_request_def split: if_splits)
  then show ?thesis
  proof
    assume "forward_classic f w = Some (run, w')"
    then show ?thesis
      unfolding forward_classic_def Let_def by (rule attempt_loop_probes) (rule classic_attempt_probes)
  next
    assume v: "forward_variants f draw now w = Some (run, w')"
    define vc where "vc = variant_candidates (fw_env f) (wd_loads w) (fw_queue_depth f)
      (map (\<lambda>v. variant_key (re_namespace (wd_entry w)) (vr_name v)) (mr_variants (re_route (wd_entry w)))) (fw_ctx f)
      (case sample_variant (re_route (wd_entry w)) draw of None \<Rightarrow> 0 | Some i \<Rightarrow> i) (fw_key_meta f)
      (cooldown_enabled (sn_cooldown (fw_snap f))) now (wd_entry w) (wd_registries w)"
    have "rg_breaker (snd (snd vc)) = rg_breaker (wd_registries w)"
      unfolding vc_def variant_candidates_def by (rule candidates_loop_registries)
    with v show ?thesis
      unfolding forward_variants_def Let_def case_prod_beta vc_def [symmetric]
      by (auto dest!: attempt_loop_probes intro: variant_attempt_probes)
  qed
qed

end
