(* ===== verification/Forward_Results.thy ===== *)
theory Forward_Results
  imports Forwarding_Props
begin

text \<open>
  What a forward run hands back: the answer it delivers, the reason it ends without one, the attempts
  it spends and the in-flight count it leaves behind.
\<close>

section \<open>What settling an attempt leaves\<close>

text \<open>The answer of a target on an attempt, with the bytes a peek consumed put back.\<close>

definition relayed :: "forward \<Rightarrow> nat \<Rightarrow> target \<Rightarrow> response \<Rightarrow> bool" where
  "relayed f a t resp \<longleftrightarrow>
     (\<exists>key answer. ae_answer (fw_attempt f a) t key = Inr answer \<and> rp_status resp = rp_status answer \<and>
        rp_content_type resp = rp_content_type answer \<and> body_bytes resp = body_bytes answer)"

text \<open>Why a run that has no answer ended.\<close>

definition explained :: "forward_run \<Rightarrow> bool" where
  "explained run \<longleftrightarrow> fr_last_error run \<noteq> None \<or> fr_last_status run \<noteq> None"

definition delivered :: "forward \<Rightarrow> nat \<Rightarrow> target \<Rightarrow> nat \<Rightarrow> forward_run \<Rightarrow> bool" where
  "delivered f a t retries run \<longleftrightarrow>
     (\<exists>resp. fr_outcome run = Some (resp, rp_status resp, is_sse resp) \<and> relayed f a t resp \<and>
        \<not> is_upstream_auth_failure (rp_status resp) \<and>
        (is_retryable_status (rp_status resp) \<longrightarrow> retries \<le> a))"

text \<open>The fields a settled attempt keeps, and the load guard it holds on to when it delivers.\<close>

definition carries :: "forward_run \<Rightarrow> forward_run \<Rightarrow> bool" where
  "carries run run' \<longleftrightarrow>
     fr_max_retries run' = fr_max_retries run \<and> fr_attempts run' = fr_attempts run \<and>
     (fr_tried run' = fr_tried run \<or> fr_tried run' = butlast (fr_tried run))"

definition settled ::
  "forward \<Rightarrow> nat \<Rightarrow> target \<Rightarrow> load_guard \<Rightarrow> forward_run \<Rightarrow> next_step \<Rightarrow> forward_run \<Rightarrow> bool"
where
  "settled f a t guard run step run' \<longleftrightarrow>
     carries run run' \<and>
     (if fr_outcome run' = None then
        explained run' \<and> fr_inflight_guard run' = fr_inflight_guard run \<and>
        length (fr_superseded run') = length (fr_superseded run) + (if step = Retry then 1 else 0)
      else
        step = Stop \<and> fr_superseded run' = fr_superseded run \<and> delivered f a t (fr_max_retries run) run' \<and>
        (\<exists>g. fr_inflight_guard run' = Some g \<and> lg_inner g = lg_inner guard))"

lemma peek_prefix_bytes: "peek_prefix cs pre = (pre', rest) \<Longrightarrow> pre' @ concat rest = pre @ concat cs"
  by (induction cs pre rule: peek_prefix.induct) (auto split: if_splits)

lemma peek_refusal_answer:
  "body_bytes (snd (peek_refusal parse r)) = body_bytes r \<and>
   rp_status (snd (peek_refusal parse r)) = rp_status r \<and>
   rp_content_type (snd (peek_refusal parse r)) = rp_content_type r"
proof -
  obtain pre rest where p: "peek_prefix (rp_early r) [] = (pre, rest)" by fastforce
  show ?thesis using peek_prefix_bytes [OF p] by (simp add: peek_refusal_def p body_bytes_def)
qed

lemma supersede_status_settled:
  assumes "fr_outcome run = None"
  shows "fst (supersede_status f pool entry d resp ae run) = Retry \<and>
    (\<forall>run'. run' = snd (supersede_status f pool entry d resp ae run) \<longrightarrow>
       fr_outcome run' = None \<and> carries run run' \<and> explained run' \<and> fr_tried run' = fr_tried run \<and>
       fr_inflight_guard run' = fr_inflight_guard run \<and>
       length (fr_superseded run') = Suc (length (fr_superseded run)))"
  using assms
  by (simp add: supersede_status_def Let_def back_off_def record_superseded_def carries_def explained_def)

lemma deliver_settled:
  assumes "fr_outcome run = None" "relayed f a t resp" "\<not> is_upstream_auth_failure (rp_status resp)"
    and "is_retryable_status (rp_status resp) \<Longrightarrow> fr_max_retries run \<le> a"
  shows "settled f a t guard run (fst (deliver resp guard run)) (snd (deliver resp guard run))"
  using assms by (simp add: settled_def deliver_def carries_def delivered_def mark_ok_def)

lemma settled_Retry:
  assumes "fr_outcome run' = None" "carries run run'" "explained run'" "fr_inflight_guard run' = fr_inflight_guard run"
    "length (fr_superseded run') = Suc (length (fr_superseded run))"
  shows "settled f a t guard run Retry run'"
  using assms by (simp add: settled_def)

lemma settle_answer_settled:
  assumes "fr_outcome run = None" "relayed f (di_attempt d) t resp"
  shows "settled f (di_attempt d) t guard run (fst (fst (settle_answer f pool entry d resp guard ae run r)))
    (snd (fst (settle_answer f pool entry d resp guard ae run r)))"
proof -
  define a where "a = di_attempt d"
  have sup: "settled f a t guard run (fst (supersede_status f pool entry d resp ae run1))
      (snd (supersede_status f pool entry d resp ae run1))"
    if "fr_outcome run1 = None" "carries run run1" "fr_inflight_guard run1 = fr_inflight_guard run"
      "fr_superseded run1 = fr_superseded run" for run1
    using supersede_status_settled [OF that(1), of f pool entry d resp ae] that
    by (simp add: settled_def carries_def)
  have del: "settled f a t guard run (fst (deliver resp guard run1)) (snd (deliver resp guard run1))"
    if "fr_outcome run1 = None" "carries run run1" "fr_superseded run1 = fr_superseded run"
      "\<not> is_upstream_auth_failure (rp_status resp)"
      "is_retryable_status (rp_status resp) \<Longrightarrow> fr_max_retries run \<le> a" for run1
  proof -
    have "settled f a t guard run1 (fst (deliver resp guard run1)) (snd (deliver resp guard run1))"
      by (rule deliver_settled) (use that assms in \<open>auto simp: a_def carries_def\<close>)
    with that show ?thesis by (auto simp: settled_def carries_def deliver_def delivered_def)
  qed
  show ?thesis
    unfolding settle_answer_def Let_def a_def [symmetric]
    using assms(1)
    by (auto intro!: sup del simp: carries_def is_upstream_auth_failure_def is_retryable_status_def)
qed

lemma settle_response_settled:
  assumes "fr_outcome run = None" "ae_answer (fw_attempt f (di_attempt d)) t key = Inr resp"
  shows "settled f (di_attempt d) t guard run (fst (fst (settle_response f pool entry d resp guard ae run r)))
    (snd (fst (settle_response f pool entry d resp guard ae run r)))"
proof -
  have whole: "relayed f (di_attempt d) t resp" using assms(2) by (auto simp: relayed_def)
  obtain failure resp' where p: "peek_refusal (fw_parse f) resp = (failure, resp')" by fastforce
  have peeked: "relayed f (di_attempt d) t resp'"
    using peek_refusal_answer [of "fw_parse f" resp] assms(2) by (auto simp: relayed_def p)
  have refused: "settled f (di_attempt d) t guard run Retry
      ((record_superseded run st)\<lparr>fr_last_status := Some sf, fr_last_error := None, fr_last_failure := Some x\<rparr>)"
    for st sf x
    using assms(1) by (intro settled_Retry) (simp_all add: record_superseded_def carries_def explained_def)
  show ?thesis
    using settle_answer_settled [OF assms(1) whole] settle_answer_settled [OF assms(1) peeked] refused
    by (auto simp: settle_response_def Let_def p split: option.splits)
qed

lemma settle_error_settled:
  assumes "fr_outcome run = None"
  shows "settled f (di_attempt d) t guard run (fst (fst (settle_error f pool entry d message ae run r)))
    (snd (fst (settle_error f pool entry d message ae run r)))"
  using assms
  by (auto simp: settle_error_def Let_def settled_def carries_def explained_def record_superseded_def back_off_def)

lemma dial_target_settled:
  assumes "dial_target f pool attempt ns idx t provider guard run w = Some (step, run', w')"
    and "fr_outcome run = None"
  shows "settled f attempt t guard (begin_attempt run) step run' \<and> wd_entry w' = wd_entry w \<and>
    wd_loads w' = (if fr_outcome run' = None then guard_drop guard (wd_loads w) (ae_drop (fw_attempt f attempt))
                   else wd_loads w)"
proof -
  define ae where "ae = fw_attempt f attempt"
  obtain picked r where pk: "pick_key f (wd_registries w) (pv_keys provider) (tg_provider t) ae = Some (picked, r)"
    using assms by (auto simp: dial_target_def ae_def Let_def split: option.splits)
  define d where "d = \<lparr>di_attempt = attempt, di_namespace = ns, di_index = idx, di_key = picked\<rparr>"
  have fresh: "fr_outcome (begin_attempt run) = None" using assms(2) by (simp add: begin_attempt_def Let_def)
  define res where "res =
    (case ae_answer ae t (map_option snd (pi_picked picked)) of
       Inr resp \<Rightarrow> settle_response f pool (wd_entry w) d resp guard ae (begin_attempt run) r
     | Inl message \<Rightarrow> settle_error f pool (wd_entry w) d message ae (begin_attempt run) r)"
  have "dial_target f pool attempt ns idx t provider guard run w =
      Some (fst (fst res), snd (fst res),
        w\<lparr>wd_registries := snd res,
          wd_loads := (if fr_outcome (snd (fst res)) = None then guard_drop guard (wd_loads w) (ae_drop ae)
                       else wd_loads w)\<rparr>)"
    unfolding dial_target_def Let_def ae_def [symmetric] pk option.case case_prod_beta fst_conv snd_conv
      res_def d_def ..
  then have parts: "step = fst (fst res)" "run' = snd (fst res)" "wd_entry w' = wd_entry w"
    "wd_loads w' = (if fr_outcome run' = None then guard_drop guard (wd_loads w) (ae_drop ae) else wd_loads w)"
    using assms(1) by auto
  have "settled f (di_attempt d) t guard (begin_attempt run) (fst (fst res)) (snd (fst res))"
    using settle_error_settled [OF fresh, of f d t] settle_response_settled [OF fresh, of f d t]
    by (auto simp: res_def ae_def d_def split: sum.splits)
  with parts show ?thesis by (simp add: ae_def d_def)
qed

section \<open>Attempts in sequence\<close>

text \<open>
  The state between attempts: \<open>n\<close> of them are behind, each superseded, none delivered, and the
  tracker counts the guards of others only.
\<close>

definition counted :: "bool \<Rightarrow> load_guard multiset \<Rightarrow> load_tracker \<Rightarrow> bool" where
  "counted c G lt \<longleftrightarrow> (c \<longrightarrow> load_reachable lt G)"

definition pending ::
  "forward \<Rightarrow> nat \<Rightarrow> route_entry \<Rightarrow> bool \<Rightarrow> load_guard multiset \<Rightarrow> nat \<Rightarrow> forward_run \<Rightarrow> world \<Rightarrow> bool"
where
  "pending f retries entry c G n run w \<longleftrightarrow>
     fr_outcome run = None \<and> fr_inflight_guard run = None \<and> fr_max_retries run = retries \<and>
     length (fr_superseded run) = n \<and> fr_attempts run = min 255 n \<and> (n = 0 \<or> explained run) \<and>
     distinct (fr_tried run) \<and>
     re_route (wd_entry w) = re_route entry \<and> re_namespace (wd_entry w) = re_namespace entry \<and>
     counted c G (wd_loads w)"

text \<open>
  The state a run ends in: it delivers the answer of a target of \<open>T\<close> and holds its guard, or it has
  none and says why, unless there was no target to dial.
\<close>

definition guard_held :: "forward_run \<Rightarrow> load_guard multiset" where
  "guard_held run = (case fr_inflight_guard run of None \<Rightarrow> {#} | Some g \<Rightarrow> {#g#})"

definition concluded ::
  "forward \<Rightarrow> nat \<Rightarrow> target set \<Rightarrow> bool \<Rightarrow> load_guard multiset \<Rightarrow> forward_run \<Rightarrow> world \<Rightarrow> bool"
where
  "concluded f retries T c G run w \<longleftrightarrow>
     (if fr_outcome run = None then fr_inflight_guard run = None \<and> (fr_attempts run = 0 \<or> explained run)
      else \<exists>a\<le>retries. \<exists>t\<in>T. delivered f a t retries run) \<and>
     fr_attempts run \<le> min 255 (retries + 1) \<and> length (fr_superseded run) \<le> retries + 1 \<and>
     distinct (fr_tried run) \<and> counted c (G + guard_held run) (wd_loads w)"

lemma pending_concluded: "n \<le> retries + 1 \<Longrightarrow> pending f retries entry c G n run w \<Longrightarrow> concluded f retries T c G run w"
  by (auto simp: pending_def concluded_def guard_held_def)

lemma attempt_loop_upt:
  assumes "attempt_loop att [n..<m] run w = Some (run', w')" "n \<le> m" "I n run w"
    and step: "\<And>a run w s run' w'. a < m \<Longrightarrow> I a run w \<Longrightarrow> att a run w = Some (s, run', w') \<Longrightarrow>
      (case s of Retry \<Rightarrow> I (Suc a) run' w' | Stop \<Rightarrow> Q run' w')"
    and out: "\<And>run w. I m run w \<Longrightarrow> Q run w"
  shows "Q run' w'"
  using assms(1-3)
proof (induction "m - n" arbitrary: n run w)
  case 0
  then show ?case using out by simp
next
  case (Suc k)
  then have nm: "n < m" by simp
  then obtain s run1 w1 where a: "att n run w = Some (s, run1, w1)"
    using Suc.prems(1) by (auto simp: upt_rec [of n] split: option.splits)
  have s: "case s of Retry \<Rightarrow> I (Suc n) run1 w1 | Stop \<Rightarrow> Q run1 w1"
    by (rule step [OF nm Suc.prems(3) a])
  show ?case
    using Suc.hyps(1) [of "Suc n" run1 w1] Suc.hyps(2) Suc.prems nm a s
    by (cases s) (auto simp: upt_rec [of n])
qed

text \<open>A guard opened on a choice and settled by the dial keeps the counts exact.\<close>

lemma counted_begin:
  assumes "counted c G lt"
  shows "counted c (add_mset (opened_guard f attempt lt ns idx) G)
    (snd (begin_load lt ns idx (ae_begin (fw_attempt f attempt))))"
  unfolding counted_def
proof
  assume c
  with assms have "load_reachable lt G" by (simp add: counted_def)
  then show "load_reachable (snd (begin_load lt ns idx (ae_begin (fw_attempt f attempt))))
      (add_mset (opened_guard f attempt lt ns idx) G)"
    by (intro load_update [OF load_begin]) (auto simp: opened_guard_def set_prompt_tokens_def prod_eq_iff)
qed

lemma counted_update: "counted c (add_mset g G) lt \<Longrightarrow> lg_inner g' = lg_inner g \<Longrightarrow> counted c (add_mset g' G) lt"
  by (auto simp: counted_def intro: load_update)

lemma counted_drop: "counted c (add_mset g G) lt \<Longrightarrow> counted c G (guard_drop g lt now)"
  by (auto simp: counted_def intro: load_drop)

lemma dialled_pending:
  assumes "dial_target f pool n ns idx t provider guard run1 w1 = Some (s, run', w')"
    and p: "pending f retries entry c G n run w" "n \<le> retries"
    and run1: "fr_outcome run1 = None" "fr_inflight_guard run1 = None" "fr_max_retries run1 = retries"
      "fr_superseded run1 = fr_superseded run" "fr_attempts run1 = fr_attempts run" "distinct (fr_tried run1)"
    and w1: "re_route (wd_entry w1) = re_route entry" "re_namespace (wd_entry w1) = re_namespace entry"
      "counted c (add_mset guard G) (wd_loads w1)" and tT: "t \<in> T"
  shows "case s of Retry \<Rightarrow> pending f retries entry c G (Suc n) run' w' | Stop \<Rightarrow> concluded f retries T c G run' w'"
proof -
  note d = dial_target_settled [OF assms(1) run1(1)]
  have b: "fr_max_retries (begin_attempt run1) = retries" "fr_superseded (begin_attempt run1) = fr_superseded run"
    "fr_attempts (begin_attempt run1) = min 255 (Suc n)" "fr_tried (begin_attempt run1) = fr_tried run1"
    "fr_inflight_guard (begin_attempt run1) = None"
    using run1 p by (auto simp: begin_attempt_def Let_def pending_def min_def)
  have tried: "distinct (fr_tried run')"
    using d b(4) run1(6) by (auto simp: settled_def carries_def distinct_butlast)
  have len: "length (fr_superseded run) = n" using p(1) by (simp add: pending_def)
  show ?thesis
  proof (cases "fr_outcome run' = None")
    case True
    have "counted c G (wd_loads w')"
      using d True counted_drop [OF w1(3)] by simp
    with True d b tried len w1 p(2) show ?thesis
      by (cases s) (auto simp: pending_def concluded_def settled_def carries_def guard_held_def)
  next
    case False
    then obtain g where g: "fr_inflight_guard run' = Some g" "lg_inner g = lg_inner guard"
      using d by (auto simp: settled_def)
    have "counted c (add_mset g G) (wd_loads w')"
      using d False counted_update [OF w1(3) g(2)] by simp
    moreover have "\<exists>a\<le>retries. \<exists>t\<in>T. delivered f a t retries run'"
      using d False b(1) p(2) tT by (auto simp: settled_def)
    ultimately show ?thesis
      using False d b tried len g p(2)
      by (cases s) (auto simp: concluded_def settled_def carries_def guard_held_def)
  qed
qed


lemma pick_namespace: "re_namespace (tp_entry (fst (snd (pick e p r tried failure now)))) = re_namespace (tp_entry p)"
  by (auto simp: pick_def pick_with_def Let_def case_prod_beta split: option.splits)

lemma observed_world_entry:
  "re_route (wd_entry (observed_world f loads a run w idx)) = re_route (wd_entry w)"
  "re_namespace (wd_entry (observed_world f loads a run w idx)) = re_namespace (wd_entry w)"
  by (simp_all add: observed_world_def Let_def classic_pick_def pick_route pick_namespace classic_pool_def)

definition allowed_targets :: "forward \<Rightarrow> target list \<Rightarrow> target set" where
  "allowed_targets f ts = {t \<in> set ts. key_uses (fw_key_meta f) t}"

lemma classic_pick_offered:
  assumes "fst (classic_pick f loads a run w) = Some idx"
  shows "mr_targets (re_route (wd_entry w)) ! idx \<in> allowed_targets f (mr_targets (re_route (wd_entry w)))
    \<and> idx \<notin> set (fr_tried run)"
  using pick_result [where e = "fw_env f" and p = "classic_pool f loads w" and r = "wd_registries w" and
      tried = "fr_tried run" and failure = "fr_last_failure run" and take_probe = True and
      now = "ae_pick (fw_attempt f a)"] assms
  by (auto simp: classic_pick_def pick_def offered_def admits_def Let_def classic_pool_def pool_targets_def
      allowed_targets_def key_uses_def)

lemma classic_attempt_pending:
  assumes "classic_attempt f loads n run w = Some (s, run', w')"
    and p: "pending f retries entry c G n run w" and n: "n \<le> retries"
  shows "case s of Retry \<Rightarrow> pending f retries entry c G (Suc n) run' w'
    | Stop \<Rightarrow> concluded f retries (allowed_targets f (mr_targets (re_route entry))) c G run' w'"
proof (cases "fst (classic_pick f loads n run w)")
  case None
  with assms(1) have "s = Stop" "run' = run" "wd_loads w' = wd_loads w"
    by (auto simp: classic_attempt_unfold)
  with p n show ?thesis by (auto simp: pending_def concluded_def guard_held_def)
next
  case (Some idx)
  have route: "re_route (wd_entry w) = re_route entry" and run: "distinct (fr_tried run)"
    using p by (simp_all add: pending_def)
  define w1 where "w1 = observed_world f loads n run w idx"
  define guard where "guard = opened_guard f n (wd_loads w) (re_namespace (wd_entry w)) idx"
  have loads: "counted c (add_mset guard G) (wd_loads w1)"
    using counted_begin [of c G "wd_loads w"] p by (simp add: pending_def w1_def guard_def observed_world_def)
  note step = assms(1) [unfolded classic_attempt_unfold Some option.case Let_def,
      folded w1_def guard_def]
  show ?thesis
  proof (cases "hm_get (sn_providers (fw_snap f)) (tg_provider (mr_targets (re_route (wd_entry w)) ! idx))")
    case None
    with step p n counted_drop [OF loads] classic_pick_offered [OF Some] show ?thesis
      by (auto simp: pending_def concluded_def guard_held_def explained_def provider_missing_def chosen_run_def)
  next
    case (Some provider)
    show ?thesis
      by (rule dialled_pending [OF step [unfolded Some option.case] p n])
        (use p loads classic_pick_offered [OF \<open>fst _ = Some idx\<close>] route run in
          \<open>auto simp: pending_def chosen_run_def w1_def observed_world_entry\<close>)
  qed
qed


section \<open>The variant chain\<close>

definition usable_candidates :: "forward \<Rightarrow> model_route \<Rightarrow> (nat \<times> nat) list \<Rightarrow> bool" where
  "usable_candidates f route cs \<longleftrightarrow>
     (\<forall>vi ti. (vi, ti) \<in> set cs \<longrightarrow>
        vi < length (mr_variants route) \<and> ti \<in> usable_in_variant route (fw_key_meta f) vi)"

lemma candidates_loop_usable:
  "(vi, ti) \<in> set (fst (candidates_loop e loads depth keys ctx key cd now vis entry r)) \<Longrightarrow>
     vi < length (mr_variants (re_route entry)) \<and> ti \<in> usable_in_variant (re_route entry) key vi"
proof (induction vis arbitrary: entry r)
  case (Cons v vis)
  show ?case
  proof (cases "v < length (mr_variants (re_route entry)) \<and> v < length keys")
    case True
    then show ?thesis
      using Cons.prems Cons.IH
      by (fastforce simp: Let_def case_prod_beta vec_get_def usable_in_variant_def variant_target_order_spec)
  next
    case False
    then show ?thesis
      using Cons.prems Cons.IH by (auto simp: vec_get_def split: if_splits)
  qed
qed simp

lemma candidates_loop_entry:
  "re_route (fst (snd (candidates_loop e loads depth keys ctx key cd now vis entry r))) = re_route entry"
  "re_namespace (fst (snd (candidates_loop e loads depth keys ctx key cd now vis entry r))) = re_namespace entry"
  by (induction vis arbitrary: entry r)
    (simp_all add: Let_def case_prod_beta variant_target_order_def split: option.splits)

lemma variant_pick_open:
  assumes "usable_candidates f (re_route (wd_entry w)) cs" "fst (variant_pick f cs keys a run w) = Some ci"
  shows "ci < length cs \<and> ci \<notin> set (fr_tried run)"
proof -
  have "candidates_ok (re_route (wd_entry w)) cs"
    using assms(1) by (auto simp: usable_candidates_def candidates_ok_def list_all_iff usable_in_variant_def)
  from next_candidate_result [OF this, where keys = keys and tried = "fr_tried run" and failure = "fr_last_failure run" and
      cd = "cooldown_enabled (sn_cooldown (fw_snap f))" and now = "ae_pick (fw_attempt f a)" and r = "wd_registries w"]
    assms(2)
  show ?thesis by (simp add: variant_pick_def candidate_open_def)
qed

lemma variant_observed_entry:
  "re_route (wd_entry (variant_observed f r w vi ti)) = re_route (wd_entry w)"
  "re_namespace (wd_entry (variant_observed f r w vi ti)) = re_namespace (wd_entry w)"
  "wd_loads (variant_observed f r w vi ti) = wd_loads w"
  by (auto simp: variant_observed_def split: option.splits)

definition variant_targets :: "model_route \<Rightarrow> target list" where
  "variant_targets route = concat (map vr_targets (mr_variants route))"

lemma variant_pick_allowed:
  assumes "usable_candidates f (re_route (wd_entry w)) cs" "fst (variant_pick f cs keys a run w) = Some ci"
  shows "vr_targets (mr_variants (re_route (wd_entry w)) ! fst (cs ! ci)) ! snd (cs ! ci)
    \<in> allowed_targets f (variant_targets (re_route (wd_entry w)))"
proof -
  obtain vi ti where c: "cs ! ci = (vi, ti)" by fastforce
  have "(vi, ti) \<in> set cs" using variant_pick_open [OF assms] nth_mem [of ci cs] by (simp add: c)
  then have "vi < length (mr_variants (re_route (wd_entry w)))"
      "ti \<in> usable_in_variant (re_route (wd_entry w)) (fw_key_meta f) vi"
    using assms(1) by (auto simp: usable_candidates_def)
  then show ?thesis
    using nth_mem [of vi "mr_variants (re_route (wd_entry w))"]
    by (auto simp: c allowed_targets_def variant_targets_def usable_in_variant_def
        intro!: bexI [of _ "mr_variants (re_route (wd_entry w)) ! vi"])
qed

lemma variant_attempt_pending:
  assumes "variant_attempt f cs keys n run w = Some (s, run', w')"
    and p: "pending f retries entry c G n run w" and n: "n \<le> retries"
    and cs: "usable_candidates f (re_route entry) cs"
  shows "case s of Retry \<Rightarrow> pending f retries entry c G (Suc n) run' w'
    | Stop \<Rightarrow> concluded f retries (allowed_targets f (variant_targets (re_route entry))) c G run' w'"
proof (cases "fst (variant_pick f cs keys n run w)")
  case None
  with assms(1) have "s = Stop" "run' = run" "wd_loads w' = wd_loads w"
    by (auto simp: variant_attempt_unfold)
  with p n show ?thesis by (auto simp: pending_def concluded_def guard_held_def)
next
  case (Some ci)
  have route: "re_route (wd_entry w) = re_route entry" and run: "distinct (fr_tried run)"
    using p by (simp_all add: pending_def)
  define vi ti where "vi = fst (cs ! ci)" and "ti = snd (cs ! ci)"
  have ci: "ci < length cs" "ci \<notin> set (fr_tried run)" using variant_pick_open [OF cs [folded route] Some] by auto
  have t: "vr_targets (mr_variants (re_route entry) ! vi) ! ti \<in>
      allowed_targets f (variant_targets (re_route entry))"
    using variant_pick_allowed [OF cs [folded route] Some] by (simp add: route vi_def ti_def)
  define w1 where "w1 = variant_observed f (snd (variant_pick f cs keys n run w)) w vi ti"
  have loads: "counted c (add_mset (opened_guard f n (wd_loads w) (keys ! vi) ti) G)
      (snd (begin_load (wd_loads w) (keys ! vi) ti (ae_begin (fw_attempt f n))))"
    using counted_begin p by (simp add: pending_def)
  note step = assms(1) [unfolded variant_attempt_unfold Some option.case Let_def, folded vi_def ti_def w1_def]
  show ?thesis
  proof (cases "hm_get (sn_providers (fw_snap f)) (tg_provider (vr_targets (mr_variants (re_route (wd_entry w)) ! vi) ! ti))")
    case None
    with step p n ci show ?thesis
      by (auto simp: pending_def concluded_def guard_held_def explained_def provider_missing_def chosen_run_def
          w1_def variant_observed_entry)
  next
    case (Some provider)
    show ?thesis
      by (rule dialled_pending [OF step [unfolded Some option.case] p n])
        (use p loads t ci route run in
          \<open>auto simp: pending_def chosen_run_def w1_def variant_observed_entry attribute_def\<close>)
  qed
qed


section \<open>The request\<close>

definition variant_keys :: "route_entry \<Rightarrow> string list" where
  "variant_keys entry = map (\<lambda>v. variant_key (re_namespace entry) (vr_name v)) (mr_variants (re_route entry))"

definition primary_variant :: "model_route \<Rightarrow> rat \<Rightarrow> nat" where
  "primary_variant route draw = (case sample_variant route draw of None \<Rightarrow> 0 | Some i \<Rightarrow> i)"

definition variant_setup :: "forward \<Rightarrow> rat \<Rightarrow> instant \<Rightarrow> world \<Rightarrow> (nat \<times> nat) list \<times> route_entry \<times> registries" where
  "variant_setup f draw now w =
     variant_candidates (fw_env f) (wd_loads w) (fw_queue_depth f) (variant_keys (wd_entry w)) (fw_ctx f)
       (primary_variant (re_route (wd_entry w)) draw) (fw_key_meta f)
       (cooldown_enabled (sn_cooldown (fw_snap f))) now (wd_entry w) (wd_registries w)"

lemma forward_variants_unfold:
  "forward_variants f draw now w =
     (let vc = variant_setup f draw now w;
          run = run_new f (fst (snd vc));
          run = (case vec_get (mr_variants (re_route (wd_entry w))) (primary_variant (re_route (wd_entry w)) draw) of
                   None \<Rightarrow> run | Some v \<Rightarrow> run\<lparr>fr_sampled_variant := vr_name v\<rparr>)
      in attempt_loop (variant_attempt f (fst vc) (variant_keys (wd_entry w))) [0..<fr_max_retries run + 1] run
           (w\<lparr>wd_entry := fst (snd vc), wd_registries := snd (snd vc)\<rparr>))"
  unfolding forward_variants_def variant_setup_def variant_keys_def primary_variant_def Let_def case_prod_beta ..

lemma variant_setup_entry:
  "re_route (fst (snd (variant_setup f draw now w))) = re_route (wd_entry w)"
  "re_namespace (fst (snd (variant_setup f draw now w))) = re_namespace (wd_entry w)"
  by (simp_all add: variant_setup_def variant_candidates_def candidates_loop_entry)

lemma variant_setup_usable: "usable_candidates f (re_route (wd_entry w)) (fst (variant_setup f draw now w))"
  by (auto simp: usable_candidates_def variant_setup_def variant_candidates_def dest: candidates_loop_usable)

definition forward_targets :: "model_route \<Rightarrow> target list" where
  "forward_targets route = (if has_variants route then variant_targets route else mr_targets route)"

definition retry_budget :: "forward \<Rightarrow> world \<Rightarrow> nat" where
  "retry_budget f w = max_retries (mr_limits (re_route (wd_entry w))) (rt_max_retries (sn_retry (fw_snap f)))"

lemma loop_concluded:
  assumes loop: "attempt_loop att [0..<fr_max_retries run0 + 1] run0 w0 = Some (run, w')"
    and start: "pending f (retry_budget f w) (wd_entry w) c G 0 run0 w0"
    and att: "\<And>n run v s run' v'. att n run v = Some (s, run', v') \<Longrightarrow>
      pending f (retry_budget f w) (wd_entry w) c G n run v \<Longrightarrow> n \<le> retry_budget f w \<Longrightarrow>
      (case s of Retry \<Rightarrow> pending f (retry_budget f w) (wd_entry w) c G (Suc n) run' v'
         | Stop \<Rightarrow> concluded f (retry_budget f w) T c G run' v')"
  shows "concluded f (retry_budget f w) T c G run w'"
proof -
  have n: "fr_max_retries run0 = retry_budget f w" using start by (simp add: pending_def)
  show ?thesis
    by (rule attempt_loop_upt [OF loop [unfolded n], where I = "pending f (retry_budget f w) (wd_entry w) c G"])
      (use start att in \<open>auto intro: pending_concluded\<close>)
qed

lemma forward_classic_concluded:
  assumes "forward_classic f w = Some (run, w')" "counted c G (wd_loads w)"
  shows "concluded f (retry_budget f w) (allowed_targets f (mr_targets (re_route (wd_entry w)))) c G run w'"
  by (rule loop_concluded [OF assms(1) [unfolded forward_classic_def Let_def]])
    (use assms(2) in \<open>auto simp: pending_def run_new_def retry_budget_def intro: classic_attempt_pending\<close>)

lemma forward_variants_concluded:
  assumes "forward_variants f draw now w = Some (run, w')" "counted c G (wd_loads w)"
  shows "concluded f (retry_budget f w) (allowed_targets f (variant_targets (re_route (wd_entry w)))) c G run w'"
proof -
  note started = variant_setup_entry [of f draw now w] variant_setup_usable [of f w draw now]
  show ?thesis
    by (rule loop_concluded [OF assms(1) [unfolded forward_variants_unfold Let_def]])
      (use assms(2) started in \<open>auto simp: pending_def run_new_def retry_budget_def intro: variant_attempt_pending
         split: option.splits\<close>)
qed

lemma forward_request_concluded:
  assumes "forward_request f draw now w = Some (run, w')" "counted c G (wd_loads w)"
  shows "concluded f (retry_budget f w) (allowed_targets f (forward_targets (re_route (wd_entry w)))) c G run w'"
  using assms forward_classic_concluded forward_variants_concluded
  by (auto simp: forward_request_def forward_targets_def split: if_splits)

lemmas forward_request_result = forward_request_concluded [of _ _ _ _ _ _ False "{#}", simplified counted_def, simplified]

end
