(* ===== verification/Forward_Spec.thy ===== *)
theory Forward_Spec
  imports Forward_Results Access_Props "HOL-Library.Code_Target_Nat"
begin

text \<open>
  The guarantees of a forwarded request, stated over \<open>forward_request\<close>, each at work on a sample run.
\<close>

section \<open>A sample run\<close>

text \<open>
  Two targets in round robin: the first answers 503, the second 200. Another route's target is half
  open in the breaker.
\<close>

definition sample_answer :: "nat \<Rightarrow> string \<Rightarrow> response" where
  "sample_answer status body =
     \<lparr>rp_status = status, rp_retry_after = None, rp_content_type = Some ''application/json'',
      rp_early = [body], rp_late = []\<rparr>"

definition sample_attempt :: "(target \<Rightarrow> string option \<Rightarrow> string + response) \<Rightarrow> nat \<Rightarrow> attempt_env" where
  "sample_attempt answer a =
     \<lparr>ae_pick = 10 * a, ae_begin = 10 * a + 1, ae_settle = 10 * a + 2, ae_later = 10 * a + 3, ae_drop = 10 * a + 4,
      ae_key_draw = 0, ae_backoff_draw = 0, ae_answer = answer\<rparr>"

definition sample_provider :: "string \<Rightarrow> provider_config" where
  "sample_provider name =
     \<lparr>pv_name = name, pv_slug = None,
      pv_keys = \<lparr>pk_api_keys = [], pk_api_key = Some ''sk'', pk_api_key_env = None\<rparr>, pv_tenancy = None\<rparr>"

definition sample_providers_snapshot :: snapshot_state where
  "sample_providers_snapshot =
     \<lparr>sn_providers = [(''a'', sample_provider ''a''), (''b'', sample_provider ''b'')], sn_providers_by_slug = [],
      sn_groups_by_slug = [], sn_routes = [], sn_keys = [], sn_pepper = ''p'', sn_require_auth = None,
      sn_auth_bypass_routes = [], sn_retry = retry_default, sn_cooldown = cooldown_default\<rparr>"

definition sample_forward :: "(target \<Rightarrow> string option \<Rightarrow> string + response) \<Rightarrow> forward" where
  "sample_forward answer =
     \<lparr>fw_env = sample_env, fw_getenv = (\<lambda>_. None), fw_parse = (\<lambda>_. None), fw_snap = sample_providers_snapshot,
      fw_model = ''gpt'', fw_ctx = context_new, fw_key_meta = None, fw_queue_depth = (\<lambda>_. 0),
      fw_attempt = sample_attempt answer\<rparr>"

definition sample_world :: world where
  "sample_world =
     \<lparr>wd_registries =
        \<lparr>rg_cooldowns = None, rg_health = None,
         rg_breaker = Some \<lparr>br_map = [(''other'', [Some \<lparr>be_phase = HalfOpen 99, be_failures = 1, be_last_failure = 0\<rparr>])],
           br_enabled = True, br_failure_threshold = 3, br_open_secs = 30, br_probe_timeout_secs = 0\<rparr>\<rparr>,
      wd_entry = tp_entry sample_pool, wd_loads = tracker_new\<rparr>"

definition sample_behaviour :: "target \<Rightarrow> string option \<Rightarrow> string + response" where
  "sample_behaviour t key =
     Inr (if tg_provider t = ''a'' then sample_answer 503 ''busy'' else sample_answer 200 ''ok'')"

definition sample_down :: "target \<Rightarrow> string option \<Rightarrow> string + response" where
  "sample_down t key =
     (if tg_provider t = ''a'' then Inl ''connection refused'' else Inr (sample_answer 401 ''no''))"

definition the_run :: "(target \<Rightarrow> string option \<Rightarrow> string + response) \<Rightarrow> forward_run" where
  "the_run answer = fst (the (forward_request (sample_forward answer) 0 0 sample_world))"

definition the_world :: "(target \<Rightarrow> string option \<Rightarrow> string + response) \<Rightarrow> world" where
  "the_world answer = snd (the (forward_request (sample_forward answer) 0 0 sample_world))"

lemma sample_up_run:
  "forward_request (sample_forward sample_behaviour) 0 0 sample_world =
     Some (the_run sample_behaviour, the_world sample_behaviour)"
proof -
  have "forward_request (sample_forward sample_behaviour) 0 0 sample_world \<noteq> None" by code_simp
  then show ?thesis by (auto simp: the_run_def the_world_def)
qed

lemma sample_down_run:
  "forward_request (sample_forward sample_down) 0 0 sample_world = Some (the_run sample_down, the_world sample_down)"
proof -
  have "forward_request (sample_forward sample_down) 0 0 sample_world \<noteq> None" by code_simp
  then show ?thesis by (auto simp: the_run_def the_world_def)
qed

section \<open>The answer\<close>



text \<open>
  How a run ends. It dials at most once more than the retry budget, records no more superseded
  attempts than that, never has the same target twice among those it gave up on, and when it has no
  answer it holds no in-flight guard and either nothing was dialled or it carries the reason: the
  last transport error or the last upstream status.
\<close>

theorem forward_ends_spec:
  assumes "forward_request f draw now w = Some (run, w')"
  shows "fr_attempts run \<le> min 255 (retry_budget f w + 1) \<and>
    length (fr_superseded run) \<le> retry_budget f w + 1 \<and> distinct (fr_tried run) \<and>
    (fr_outcome run = None \<longrightarrow> fr_inflight_guard run = None \<and> (fr_attempts run = 0 \<or> explained run))"
  using forward_request_result [OF assms] by (auto simp: concluded_def split: if_splits)

lemma forward_ends_spec_witness:
  "fr_outcome (the_run sample_down) = None \<and> fr_attempts (the_run sample_down) = 2 \<and> explained (the_run sample_down)"
proof -
  have "fr_outcome (the_run sample_down) = None" "fr_attempts (the_run sample_down) = 2"
    unfolding the_run_def by code_simp+
  with forward_ends_spec [OF sample_down_run] show ?thesis by simp
qed

section \<open>What is given back\<close>

text \<open>
  C33: In-flight counts are exact. If the load tracker counts the guards alive before a run, it counts
  them and the guard handed over with the answer after it: every attempt that was retried, failed or
  found its provider gone gave its slot back, exactly once.
\<close>

theorem forward_inflight_exact:
  assumes "forward_request f draw now w = Some (run, w')" and "load_reachable (wd_loads w) G"
  shows "load_reachable (wd_loads w') (G + guard_held run)"
  using forward_request_concluded [OF assms(1), of True G] assms(2) by (simp add: concluded_def counted_def)

lemma forward_inflight_exact_witness:
  "load_reachable (wd_loads (the_world sample_down)) (guard_held (the_run sample_down)) \<and>
   guard_held (the_run sample_down) = {#}"
proof -
  have "load_reachable (wd_loads sample_world) {#}" by (simp add: sample_world_def load_start)
  from forward_inflight_exact [OF sample_down_run this]
  have "load_reachable (wd_loads (the_world sample_down)) (guard_held (the_run sample_down))" by simp
  moreover have "fr_inflight_guard (the_run sample_down) = None" unfolding the_run_def by code_simp
  ultimately show ?thesis by (simp add: guard_held_def)
qed



section \<open>Only the key's providers are dialled\<close>

definition answering :: "forward \<Rightarrow> (nat \<Rightarrow> target \<Rightarrow> string option \<Rightarrow> string + response) \<Rightarrow> forward" where
  "answering f ans = f\<lparr>fw_attempt := \<lambda>a. (fw_attempt f a)\<lparr>ae_answer := ans a\<rparr>\<rparr>"

lemma answering_simps [simp]:
  "fw_env (answering f ans) = fw_env f" "fw_getenv (answering f ans) = fw_getenv f"
  "fw_parse (answering f ans) = fw_parse f" "fw_snap (answering f ans) = fw_snap f"
  "fw_model (answering f ans) = fw_model f" "fw_ctx (answering f ans) = fw_ctx f"
  "fw_key_meta (answering f ans) = fw_key_meta f" "fw_queue_depth (answering f ans) = fw_queue_depth f"
  "fw_attempt (answering f ans) a = (fw_attempt f a)\<lparr>ae_answer := ans a\<rparr>"
  by (simp_all add: answering_def)

lemma answer_update:
  "ae_answer (ae\<lparr>ae_answer := x\<rparr>) = x" "ae_drop (ae\<lparr>ae_answer := x\<rparr>) = ae_drop ae"
  "ae_settle (ae\<lparr>ae_answer := x\<rparr>) = ae_settle ae" "ae_later (ae\<lparr>ae_answer := x\<rparr>) = ae_later ae"
  "ae_backoff_draw (ae\<lparr>ae_answer := x\<rparr>) = ae_backoff_draw ae"
  by simp_all

lemma answering_settles:
  "settle_answer (answering f ans) pool entry d resp guard (ae\<lparr>ae_answer := x\<rparr>) run r =
     settle_answer f pool entry d resp guard ae run r"
  "settle_response (answering f ans) pool entry d resp guard (ae\<lparr>ae_answer := x\<rparr>) run r =
     settle_response f pool entry d resp guard ae run r"
  "settle_error (answering f ans) pool entry d message (ae\<lparr>ae_answer := x\<rparr>) run r =
     settle_error f pool entry d message ae run r"
proof -
  have h: "has_untried (answering f ans) = has_untried f"
    by (intro ext) (simp add: has_untried_def split: forward_pool.splits)
  show answer: "settle_answer (answering f ans) pool entry d resp guard (ae\<lparr>ae_answer := x\<rparr>) run r =
      settle_answer f pool entry d resp guard ae run r" for resp
    unfolding settle_answer_def supersede_status_def punish_def h Let_def answering_simps answer_update ..
  show "settle_response (answering f ans) pool entry d resp guard (ae\<lparr>ae_answer := x\<rparr>) run r =
      settle_response f pool entry d resp guard ae run r"
    unfolding settle_response_def Let_def answer h answering_simps answer_update ..
  show "settle_error (answering f ans) pool entry d message (ae\<lparr>ae_answer := x\<rparr>) run r =
      settle_error f pool entry d message ae run r"
    by (simp add: settle_error_def punish_def h Let_def)
qed

lemma answering_dial:
  assumes "\<And>key. ans a t key = ae_answer (fw_attempt f a) t key"
  shows "dial_target (answering f ans) pool a ns idx t provider guard run w =
    dial_target f pool a ns idx t provider guard run w"
proof -
  have k: "pick_key (answering f ans) r pk pid (ae\<lparr>ae_answer := x\<rparr>) = pick_key f r pk pid ae" for r pk pid ae x
    by (simp add: pick_key_def)
  show ?thesis
    unfolding dial_target_def Let_def answering_simps k answer_update answering_settles assms ..
qed

lemma answering_classic:
  assumes "\<And>a t key. t \<in> allowed_targets f (mr_targets (re_route (wd_entry w))) \<Longrightarrow>
      ans a t key = ae_answer (fw_attempt f a) t key"
  shows "classic_attempt (answering f ans) loads a run w = classic_attempt f loads a run w"
proof -
  have p: "classic_pick (answering f ans) loads a run w = classic_pick f loads a run w"
    by (simp add: classic_pick_def classic_pool_def)
  have o: "observed_world (answering f ans) loads a run w i = observed_world f loads a run w i"
    "opened_guard (answering f ans) a lt ns i = opened_guard f a lt ns i" for lt ns i
    by (simp_all add: observed_world_def p opened_guard_def)
  show ?thesis
    unfolding classic_attempt_unfold p o Let_def
    using classic_pick_offered [of f loads a run w] assms
    by (auto simp: answering_dial o split: option.splits)
qed

lemma dial_target_entry:
  assumes "dial_target f pool a ns idx t provider guard run w = Some (step, run', w')"
  shows "wd_entry w' = wd_entry w"
  using assms unfolding dial_target_def Let_def by (auto simp: case_prod_beta split: option.splits)

lemma answering_variant:
  assumes "\<And>a t key. t \<in> allowed_targets f (variant_targets (re_route (wd_entry w))) \<Longrightarrow>
      ans a t key = ae_answer (fw_attempt f a) t key"
    and "usable_candidates f (re_route (wd_entry w)) cs"
  shows "variant_attempt (answering f ans) cs keys a run w = variant_attempt f cs keys a run w"
proof -
  have p: "variant_pick (answering f ans) cs keys a run w = variant_pick f cs keys a run w"
    by (simp add: variant_pick_def)
  have o: "variant_observed (answering f ans) = variant_observed f"
    "opened_guard (answering f ans) a lt ns i = opened_guard f a lt ns i"
    "attribute (answering f ans) = attribute f" for lt ns i
    unfolding variant_observed_def opened_guard_def attribute_def answering_simps by simp_all
  show ?thesis
    unfolding variant_attempt_unfold p o Let_def
    using variant_pick_allowed [OF assms(2), of keys a run] assms(1)
    by (auto simp: answering_dial o split: option.splits)
qed

lemma attempt_loop_cong:
  assumes "I w" "\<And>a run w. I w \<Longrightarrow> att a run w = att' a run w"
    and "\<And>a run w run' w'. I w \<Longrightarrow> att' a run w = Some (Retry, run', w') \<Longrightarrow> I w'"
  shows "attempt_loop att as run w = attempt_loop att' as run w"
  using assms(1)
proof (induction "as" arbitrary: run w)
  case (Cons a rest)
  show ?case
    using Cons assms(3) [OF Cons.prems, of a run] assms(2) [OF Cons.prems, of a run]
    by (auto split: option.splits next_step.splits)
qed simp

lemma variant_setup_answering: "variant_setup (answering f ans) draw now w = variant_setup f draw now w"
  by (simp add: variant_setup_def)

lemma classic_attempt_entry:
  assumes "classic_attempt f loads a run w = Some (Retry, run', w')"
  shows "re_route (wd_entry w') = re_route (wd_entry w)"
proof -
  obtain idx where i: "fst (classic_pick f loads a run w) = Some idx"
    using assms by (auto simp: classic_attempt_unfold split: option.splits)
  show ?thesis
    using assms unfolding classic_attempt_unfold i option.case Let_def
    by (auto split: option.splits dest!: dial_target_entry simp: observed_world_entry)
qed

lemma variant_attempt_entry:
  assumes "variant_attempt f cs keys a run w = Some (Retry, run', w')"
  shows "re_route (wd_entry w') = re_route (wd_entry w)"
proof -
  obtain ci where i: "fst (variant_pick f cs keys a run w) = Some ci"
    using assms by (auto simp: variant_attempt_unfold split: option.splits)
  show ?thesis
    using assms unfolding variant_attempt_unfold i option.case Let_def
    by (auto split: option.splits dest!: dial_target_entry simp: variant_observed_entry)
qed

text \<open>
  C16: A provider the caller's key may not use is never dialled. Whatever the targets outside the
  route's allowed ones would answer, the whole run is the same: the answer delivered, the attempts
  recorded, and what the cooldowns, the breaker and the load tracker learn from it. Holds for the
  classic pool and for the variant chain.
\<close>

theorem forbidden_providers_not_dialled:
  assumes "\<And>a t key. t \<in> allowed_targets f (forward_targets (re_route (wd_entry w))) \<Longrightarrow>
      ans a t key = ae_answer (fw_attempt f a) t key"
  shows "forward_request (answering f ans) draw now w = forward_request f draw now w"
proof (cases "has_variants (re_route (wd_entry w))")
  case False
  have new: "run_new (answering f ans) = run_new f" by (intro ext) (simp add: run_new_def)
  have "forward_classic (answering f ans) w = forward_classic f w"
    unfolding forward_classic_def Let_def answering_simps new
    by (rule attempt_loop_cong [where I = "\<lambda>v. re_route (wd_entry v) = re_route (wd_entry w)"])
      (use assms False in \<open>auto simp: forward_targets_def classic_attempt_entry intro!: answering_classic\<close>)
  with False show ?thesis by (simp add: forward_request_def)
next
  case True
  have new: "run_new (answering f ans) = run_new f" by (intro ext) (simp add: run_new_def)
  define vc where "vc = variant_setup f draw now w"
  have route: "re_route (fst (snd vc)) = re_route (wd_entry w)"
    and cs: "usable_candidates f (re_route (wd_entry w)) (fst vc)"
    by (simp_all add: vc_def variant_setup_entry variant_setup_usable)
  have "forward_variants (answering f ans) draw now w = forward_variants f draw now w"
    unfolding forward_variants_unfold answering_simps new Let_def variant_setup_answering vc_def [symmetric]
    by (rule attempt_loop_cong [where I = "\<lambda>v. re_route (wd_entry v) = re_route (wd_entry w)"])
      (use assms True cs route in \<open>auto simp: forward_targets_def variant_attempt_entry intro!: answering_variant\<close>)
  with True show ?thesis by (simp add: forward_request_def)
qed

definition sample_restricted :: forward where
  "sample_restricted = (sample_forward sample_behaviour)\<lparr>fw_key_meta := Some (sample_key\<lparr>km_providers := [''b'']\<rparr>)\<rparr>"

lemma forbidden_providers_not_dialled_witness:
  "forward_request
     (answering sample_restricted
       (\<lambda>a t key. if tg_provider t = ''a'' then Inl ''connection refused'' else sample_behaviour t key)) 0 0 sample_world =
   forward_request sample_restricted 0 0 sample_world"
proof (rule forbidden_providers_not_dialled)
  fix a t key
  assume "t \<in> allowed_targets sample_restricted (forward_targets (re_route (wd_entry sample_world)))"
  then have "tg_provider t \<noteq> ''a''"
    by (auto simp: allowed_targets_def key_uses_def sample_restricted_def sample_key_def provider_allowed_def
        strip_prefix_def split: option.splits)
  then show "(if tg_provider t = ''a'' then Inl ''connection refused'' else sample_behaviour t key) =
      ae_answer (fw_attempt sample_restricted a) t key"
    by (simp add: sample_restricted_def sample_forward_def sample_attempt_def)
qed

end
