(* ===== verification/Login_Throttle.thy ===== *)
theory Login_Throttle
  imports Strings
begin

text \<open>
  The failed-login throttle of the control plane (\<open>rolter-control/src/login_throttle.rs\<close>) on its
  in-process backend, and the part of the password login (\<open>rolter-control/src/auth.rs\<close>) that asks it.
  The digest, the Unicode lower-casing, the address parser and header decoding are arguments, the
  verdict of the identity provider too. A call reads the clock once.
\<close>

section \<open>Subjects\<close>

datatype throttle_scope = Account | Address

fun scope_as_str :: "throttle_scope \<Rightarrow> string" where
  "scope_as_str Account = ''account''"
| "scope_as_str Address = ''address''"

record subject =
  su_scope :: throttle_scope
  su_digest :: string

definition subject_account ::
  "(string \<Rightarrow> string \<Rightarrow> string) \<Rightarrow> (string \<Rightarrow> string) \<Rightarrow> string \<Rightarrow> string \<Rightarrow> subject"
where
  "subject_account hash_key lower pepper email =
     \<lparr>su_scope = Account, su_digest = hash_key pepper (lower (trim email))\<rparr>"

definition subject_address :: "(string \<Rightarrow> string \<Rightarrow> string) \<Rightarrow> string \<Rightarrow> string \<Rightarrow> subject" where
  "subject_address hash_key pepper ip = \<lparr>su_scope = Address, su_digest = hash_key pepper ip\<rparr>"

definition entry_key :: "subject \<Rightarrow> string" where
  "entry_key s = scope_as_str (su_scope s) @ '':'' @ su_digest s"

section \<open>Tuning\<close>

record throttle_config =
  tc_account_max_failures :: nat
  tc_address_max_failures :: nat
  tc_window :: duration
  tc_base_lock :: duration
  tc_max_lock :: duration
  tc_base_delay :: duration
  tc_max_delay :: duration

definition throttle_config_default :: throttle_config where
  "throttle_config_default =
     \<lparr>tc_account_max_failures = 5, tc_address_max_failures = 50, tc_window = from_secs 900,
      tc_base_lock = from_secs 60, tc_max_lock = from_secs 900, tc_base_delay = from_millis 100,
      tc_max_delay = from_secs 2\<rparr>"

definition max_failures :: "throttle_config \<Rightarrow> throttle_scope \<Rightarrow> nat" where
  "max_failures c scope =
     (case scope of Account \<Rightarrow> tc_account_max_failures c | Address \<Rightarrow> tc_address_max_failures c)"

text \<open>\<open>Duration::checked_mul\<close>: the seconds of a duration are a \<open>u64\<close>.\<close>

definition duration_checked_mul :: "duration \<Rightarrow> nat \<Rightarrow> duration option" where
  "duration_checked_mul d k = (if as_secs (d * k) \<le> u64_max then Some (d * k) else None)"

definition checked_shl :: "nat \<Rightarrow> nat option" where
  "checked_shl n = (if n < 32 then Some (2 ^ n) else None)"

definition doubled :: "duration \<Rightarrow> duration \<Rightarrow> nat \<Rightarrow> duration" where
  "doubled base ceil n =
     min (case duration_checked_mul base (case checked_shl (min n 20) of None \<Rightarrow> u32_max | Some k \<Rightarrow> k) of
            None \<Rightarrow> ceil | Some d \<Rightarrow> d) ceil"

definition lock_for :: "throttle_config \<Rightarrow> throttle_scope \<Rightarrow> nat \<Rightarrow> duration" where
  "lock_for c scope failures = doubled (tc_base_lock c) (tc_max_lock c) (failures - max_failures c scope)"

definition delay_for :: "throttle_config \<Rightarrow> nat \<Rightarrow> duration" where
  "delay_for c failures = doubled (tc_base_delay c) (tc_max_delay c) (failures - 1)"

section \<open>The counters\<close>

record throttle_entry =
  te_failures :: nat
  te_expires_at :: instant
  te_locked_until :: "instant option"
  te_locked_recently :: bool

type_synonym throttle_map = "(string, throttle_entry) hash_map"

definition fresh_entry :: "throttle_config \<Rightarrow> instant \<Rightarrow> throttle_entry" where
  "fresh_entry c now =
     \<lparr>te_failures = 0, te_expires_at = now + tc_window c, te_locked_until = None, te_locked_recently = False\<rparr>"

definition throttle_prune :: "throttle_map \<Rightarrow> instant \<Rightarrow> throttle_map" where
  "throttle_prune m now = (if length m < 1024 then m else filter (\<lambda>(_, e). now < te_expires_at e) m)"

definition locked_for :: "throttle_map \<Rightarrow> subject \<Rightarrow> instant \<Rightarrow> duration option" where
  "locked_for m s now =
     Option.bind (hm_get m (entry_key s)) (\<lambda>e.
       Option.bind (te_locked_until e) (\<lambda>until. if now < until then Some (until - now) else None))"

definition bump :: "throttle_config \<Rightarrow> throttle_map \<Rightarrow> subject \<Rightarrow> instant \<Rightarrow> nat \<times> throttle_map" where
  "bump c m s now =
     (let m = throttle_prune m now;
          e = (case hm_get m (entry_key s) of None \<Rightarrow> fresh_entry c now | Some e \<Rightarrow> e);
          e = e\<lparr>te_failures := (te_failures e + 1) mod 2 ^ 32, te_expires_at := now + tc_window c\<rparr>
      in (te_failures e, hm_insert (entry_key s) e m))"

definition engage_lock ::
  "throttle_config \<Rightarrow> throttle_map \<Rightarrow> subject \<Rightarrow> duration \<Rightarrow> instant \<Rightarrow> throttle_map"
where
  "engage_lock c m s lock now =
     (let e = (case hm_get m (entry_key s) of None \<Rightarrow> fresh_entry c now | Some e \<Rightarrow> e)
      in hm_insert (entry_key s)
           (e\<lparr>te_locked_until := Some (now + lock), te_locked_recently := True,
              te_expires_at := now + lock + tc_window c\<rparr>) m)"

definition clear_subject :: "throttle_map \<Rightarrow> subject \<Rightarrow> bool \<times> throttle_map" where
  "clear_subject m s =
     ((case hm_get m (entry_key s) of None \<Rightarrow> False | Some e \<Rightarrow> te_locked_recently e),
      hm_remove (entry_key s) m)"

section \<open>The throttle\<close>

record throttle_inner =
  ti_config :: throttle_config
  ti_pepper :: string
  ti_map :: throttle_map

type_synonym login_throttle = "throttle_inner option"

definition throttle_new :: "throttle_config \<Rightarrow> string \<Rightarrow> login_throttle" where
  "throttle_new c pepper = Some \<lparr>ti_config = c, ti_pepper = pepper, ti_map = []\<rparr>"

definition throttle_disabled :: login_throttle where
  "throttle_disabled = None"

definition subjects ::
  "(string \<Rightarrow> string \<Rightarrow> string) \<Rightarrow> (string \<Rightarrow> string) \<Rightarrow> login_throttle \<Rightarrow> string \<Rightarrow> string option \<Rightarrow> subject list"
where
  "subjects hash_key lower t identity client =
     (case t of
        None \<Rightarrow> []
      | Some inner \<Rightarrow>
          subject_account hash_key lower (ti_pepper inner) identity #
          (case client of None \<Rightarrow> [] | Some ip \<Rightarrow> [subject_address hash_key (ti_pepper inner) ip]))"

record penalty =
  pe_delay :: duration
  pe_locked_for :: "duration option"
  pe_locked_scope :: "throttle_scope option"

definition penalty_default :: penalty where
  "penalty_default = \<lparr>pe_delay = 0, pe_locked_for = None, pe_locked_scope = None\<rparr>"

fun check_subjects :: "throttle_map \<Rightarrow> subject list \<Rightarrow> instant \<Rightarrow> (throttle_scope \<times> duration) option" where
  "check_subjects m [] now = None"
| "check_subjects m (s # ss) now =
     (case locked_for m s now of
        Some d \<Rightarrow> Some (su_scope s, d)
      | None \<Rightarrow> check_subjects m ss now)"

definition throttle_check :: "login_throttle \<Rightarrow> subject list \<Rightarrow> instant \<Rightarrow> (throttle_scope \<times> duration) option" where
  "throttle_check t ss now =
     (case t of None \<Rightarrow> None | Some inner \<Rightarrow> check_subjects (ti_map inner) ss now)"

fun fail_subjects ::
  "throttle_config \<Rightarrow> throttle_map \<Rightarrow> subject list \<Rightarrow> instant \<Rightarrow> penalty \<Rightarrow> penalty \<times> throttle_map"
where
  "fail_subjects c m [] now p = (p, m)"
| "fail_subjects c m (s # ss) now p =
     (let (failures, m) = bump c m s now;
          p = (if su_scope s = Account then p\<lparr>pe_delay := delay_for c failures\<rparr> else p)
      in if max_failures c (su_scope s) \<le> failures then
           let lock = lock_for c (su_scope s) failures;
               m = engage_lock c m s lock now;
               p = (if (case pe_locked_for p of None \<Rightarrow> True | Some current \<Rightarrow> current < lock)
                    then p\<lparr>pe_locked_for := Some lock, pe_locked_scope := Some (su_scope s)\<rparr> else p)
           in fail_subjects c m ss now p
         else fail_subjects c m ss now p)"

definition throttle_record_failure :: "login_throttle \<Rightarrow> subject list \<Rightarrow> instant \<Rightarrow> penalty \<times> login_throttle" where
  "throttle_record_failure t ss now =
     (case t of
        None \<Rightarrow> (penalty_default, None)
      | Some inner \<Rightarrow>
          let (p, m) = fail_subjects (ti_config inner) (ti_map inner) ss now penalty_default
          in (p, Some (inner\<lparr>ti_map := m\<rparr>)))"

fun clear_subjects :: "throttle_map \<Rightarrow> subject list \<Rightarrow> bool \<Rightarrow> bool \<times> throttle_map" where
  "clear_subjects m [] after = (after, m)"
| "clear_subjects m (s # ss) after =
     (let (recently, m) = clear_subject m s in clear_subjects m ss (after \<or> recently))"

definition throttle_record_success :: "login_throttle \<Rightarrow> subject list \<Rightarrow> bool \<times> login_throttle" where
  "throttle_record_success t ss =
     (case t of
        None \<Rightarrow> (False, None)
      | Some inner \<Rightarrow> let (after, m) = clear_subjects (ti_map inner) ss False in (after, Some (inner\<lparr>ti_map := m\<rparr>)))"

text \<open>The address an attempt is counted against.\<close>

definition client_addr_resolve ::
  "(string \<Rightarrow> string option) \<Rightarrow> (string \<Rightarrow> string option) \<Rightarrow> string option \<Rightarrow> (string, string) hash_map \<Rightarrow> bool \<Rightarrow>
    string option"
where
  "client_addr_resolve to_str parse_ip peer headers trust_forwarded =
     (case (if trust_forwarded then
              Option.bind (Option.bind (hm_get headers ''x-forwarded-for'') to_str) (\<lambda>v.
                parse_ip (trim (case split_once (CHR '','') v of None \<Rightarrow> v | Some (first, _) \<Rightarrow> first)))
            else None) of
        Some first \<Rightarrow> Some first
      | None \<Rightarrow> peer)"

section \<open>The password login\<close>

datatype verdict = Verified | NotVerified | UnsupportedCredential | PolicyDenied string | ProviderError string

datatype login_result =
    TooManyAttempts duration
  | InternalError string
  | PasswordLoginDisabled
  | InvalidCredentials
  | PasswordProved bool

record login_attempt =
  la_email :: string
  la_client :: "string option"
  la_verdict :: verdict
  la_checked :: instant
  la_recorded :: instant

definition login ::
  "(string \<Rightarrow> string \<Rightarrow> string) \<Rightarrow> (string \<Rightarrow> string) \<Rightarrow> login_throttle \<Rightarrow> login_attempt \<Rightarrow>
    login_result \<times> login_throttle"
where
  "login hash_key lower t a =
     (let ss = subjects hash_key lower t (trim (la_email a)) (la_client a)
      in case throttle_check t ss (la_checked a) of
           Some (_, retry_after) \<Rightarrow> (TooManyAttempts retry_after, t)
         | None \<Rightarrow>
             (case la_verdict a of
                Verified \<Rightarrow>
                  let (after_lock, t) = throttle_record_success t ss in (PasswordProved after_lock, t)
              | ProviderError msg \<Rightarrow> (InternalError msg, t)
              | PolicyDenied _ \<Rightarrow> (PasswordLoginDisabled, snd (throttle_record_failure t ss (la_recorded a)))
              | _ \<Rightarrow> (InvalidCredentials, snd (throttle_record_failure t ss (la_recorded a)))))"

fun logins ::
  "(string \<Rightarrow> string \<Rightarrow> string) \<Rightarrow> (string \<Rightarrow> string) \<Rightarrow> login_throttle \<Rightarrow> login_attempt list \<Rightarrow>
    login_result list \<times> login_throttle"
where
  "logins hash_key lower t [] = ([], t)"
| "logins hash_key lower t (a # as) =
     (let (r, t) = login hash_key lower t a; (rs, t) = logins hash_key lower t as in (r # rs, t))"

end
