(* ===== verification/Login_Throttle_Props.thy ===== *)
theory Login_Throttle_Props
  imports Login_Throttle "HOL-Library.Code_Target_Nat"
begin

text \<open>
  What the login throttle guarantees: guessing an account's password is slow, and a lock ends by
  itself. And two things it does not do: its in-process counter never lapses, and its address limit is
  lifted by any successful sign-in from that address.
\<close>

section \<open>One subject's counter\<close>

lemma entry_key_inj [simp]: "entry_key s = entry_key s' \<longleftrightarrow> s = s'"
  by (cases s; cases s'; cases "su_scope s"; cases "su_scope s'") (auto simp: entry_key_def)

definition throttle_entry_of :: "throttle_map \<Rightarrow> subject \<Rightarrow> throttle_entry option" where
  "throttle_entry_of m s = hm_get m (entry_key s)"

text \<open>What a failure makes of a subject's entry.\<close>

definition spec_fail :: "throttle_config \<Rightarrow> throttle_scope \<Rightarrow> instant \<Rightarrow> throttle_entry option \<Rightarrow> throttle_entry" where
  "spec_fail c scope now oe =
     (let e = (case oe of None \<Rightarrow> fresh_entry c now | Some e \<Rightarrow> e);
          e = e\<lparr>te_failures := (te_failures e + 1) mod 2 ^ 32, te_expires_at := now + tc_window c\<rparr>
      in if max_failures c scope \<le> te_failures e then
           e\<lparr>te_locked_until := Some (now + lock_for c scope (te_failures e)), te_locked_recently := True,
             te_expires_at := now + lock_for c scope (te_failures e) + tc_window c\<rparr>
         else e)"

text \<open>An entry other subjects' failures leave alone, up to the pruning of a lapsed one.\<close>

definition kept :: "instant \<Rightarrow> throttle_entry option \<Rightarrow> throttle_entry option \<Rightarrow> bool" where
  "kept now oe oe' \<longleftrightarrow> oe' = oe \<or> oe' = None \<and> (\<exists>e. oe = Some e \<and> te_expires_at e \<le> now)"

lemma kept_refl [simp]: "kept now oe oe"
  by (simp add: kept_def)

lemma kept_trans: "kept now a b \<Longrightarrow> kept now b c \<Longrightarrow> kept now a c"
  by (auto simp: kept_def)

lemma prune_kept:
  "hm_wf m \<Longrightarrow> kept now (hm_get m k) (hm_get (throttle_prune m now) k)"
  by (auto simp: throttle_prune_def kept_def hm_get_filter split: option.splits)

lemma hm_wf_prune: "hm_wf m \<Longrightarrow> hm_wf (throttle_prune m now)"
  by (simp add: throttle_prune_def hm_wf_filter)

definition fail_step :: "throttle_config \<Rightarrow> instant \<Rightarrow> throttle_map \<Rightarrow> subject \<Rightarrow> throttle_map" where
  "fail_step c now m s =
     (let (failures, m) = bump c m s now
      in if max_failures c (su_scope s) \<le> failures
         then engage_lock c m s (lock_for c (su_scope s) failures) now else m)"

lemma fail_subjects_fold: "snd (fail_subjects c m ss now p) = foldl (fail_step c now) m ss"
  by (induction ss arbitrary: m p) (simp_all add: fail_step_def Let_def case_prod_beta)

lemma clear_subjects_fold: "snd (clear_subjects m ss after) = foldl (\<lambda>m s. hm_remove (entry_key s) m) m ss"
  by (induction ss arbitrary: m after) (simp_all add: clear_subject_def Let_def)


lemma hm_wf_fail_step: "hm_wf m \<Longrightarrow> hm_wf (fail_step c now m s)"
  by (simp add: fail_step_def bump_def engage_lock_def Let_def hm_wf_prune hm.wf_put)

lemma fail_step_same:
  assumes "hm_wf m"
  shows "\<exists>oe. kept now (throttle_entry_of m s) oe \<and>
    throttle_entry_of (fail_step c now m s) s = Some (spec_fail c (su_scope s) now oe)"
  by (rule exI [of _ "hm_get (throttle_prune m now) (entry_key s)"])
    (simp add: prune_kept [OF assms] throttle_entry_of_def fail_step_def bump_def engage_lock_def spec_fail_def Let_def
      hm.get_put)

lemma fail_step_other:
  assumes "hm_wf m" "s' \<noteq> s"
  shows "kept now (throttle_entry_of m s') (throttle_entry_of (fail_step c now m s) s')"
  using prune_kept [OF assms(1), of now "entry_key s'"] assms(2)
  by (simp add: throttle_entry_of_def fail_step_def bump_def engage_lock_def Let_def hm.get_put)

lemma expires_spec_fail: "now + tc_window c \<le> te_expires_at (spec_fail c scope now oe)"
  by (simp add: spec_fail_def Let_def)

lemma hm_wf_foldl_fail: "hm_wf m \<Longrightarrow> hm_wf (foldl (fail_step c now) m ss)"
  by (induction ss arbitrary: m) (simp_all add: hm_wf_fail_step)

lemma foldl_fail_other:
  assumes "hm_wf m" "s \<notin> set ss"
  shows "kept now (throttle_entry_of m s) (throttle_entry_of (foldl (fail_step c now) m ss) s)"
  using assms
proof (induction ss arbitrary: m)
  case (Cons x ss)
  then show ?case
    using kept_trans [OF fail_step_other [of m s x now c] Cons.IH [of "fail_step c now m x"]]
    by (auto simp: hm_wf_fail_step)
qed simp

lemma hm_wf_foldl_clear: "hm_wf m \<Longrightarrow> hm_wf (foldl (\<lambda>m s. hm_remove (entry_key s) m) m ss)"
  by (induction ss arbitrary: m) (simp_all add: hm.wf_del)

lemma foldl_clear_entry:
  "throttle_entry_of (foldl (\<lambda>m s. hm_remove (entry_key s) m) m ss) s =
     (if s \<in> set ss then None else throttle_entry_of m s)"
  by (induction ss arbitrary: m) (auto simp: throttle_entry_of_def hm.get_del)

section \<open>One login\<close>

definition account_of :: "(string \<Rightarrow> string \<Rightarrow> string) \<Rightarrow> (string \<Rightarrow> string) \<Rightarrow> string \<Rightarrow> login_attempt \<Rightarrow> subject" where
  "account_of hash_key lower pepper a = subject_account hash_key lower pepper (trim (la_email a))"

lemma account_of_scope [simp]: "su_scope (account_of h l p a) = Account"
  by (simp add: account_of_def subject_account_def)

text \<open>The password was looked at and refused.\<close>

definition guessed :: "login_result \<Rightarrow> bool" where
  "guessed r \<longleftrightarrow> r = InvalidCredentials \<or> r = PasswordLoginDisabled"

definition attempt_subjects ::
  "(string \<Rightarrow> string \<Rightarrow> string) \<Rightarrow> (string \<Rightarrow> string) \<Rightarrow> string \<Rightarrow> login_attempt \<Rightarrow> subject list"
where
  "attempt_subjects h l p a =
     account_of h l p a # (case la_client a of None \<Rightarrow> [] | Some ip \<Rightarrow> [subject_address h p ip])"

lemma login_unfold:
  "login h l (Some inner) a =
     (let ss = attempt_subjects h l (ti_pepper inner) a; m = ti_map inner
      in case check_subjects m ss (la_checked a) of
           Some (_, d) \<Rightarrow> (TooManyAttempts d, Some inner)
         | None \<Rightarrow>
             (case la_verdict a of
                Verified \<Rightarrow>
                  (PasswordProved (fst (clear_subjects m ss False)), Some (inner\<lparr>ti_map := snd (clear_subjects m ss False)\<rparr>))
              | ProviderError msg \<Rightarrow> (InternalError msg, Some inner)
              | v \<Rightarrow>
                  (case v of PolicyDenied _ \<Rightarrow> PasswordLoginDisabled | _ \<Rightarrow> InvalidCredentials,
                   Some (inner\<lparr>ti_map := foldl (fail_step (ti_config inner) (la_recorded a)) m ss\<rparr>))))"
proof -
  have ss: "subjects h l (Some inner) (trim (la_email a)) (la_client a) = attempt_subjects h l (ti_pepper inner) a"
    by (simp add: subjects_def attempt_subjects_def account_of_def)
  show ?thesis
    unfolding login_def ss Let_def throttle_check_def throttle_record_success_def throttle_record_failure_def
      option.case case_prod_beta fst_conv snd_conv fail_subjects_fold
    by (simp split: option.splits verdict.splits)
qed

text \<open>What a login does to the counter of an account.\<close>

lemma login_entry:
  assumes "login h l (Some inner) a = (r, t')" "hm_wf (ti_map inner)" "su_scope s = Account"
  obtains inner' where "t' = Some inner'" "ti_config inner' = ti_config inner" "ti_pepper inner' = ti_pepper inner"
    "hm_wf (ti_map inner')"
    "if guessed r then
       (if s = account_of h l (ti_pepper inner) a then
          locked_for (ti_map inner) s (la_checked a) = None \<and>
          (\<exists>oe. kept (la_recorded a) (throttle_entry_of (ti_map inner) s) oe \<and>
             kept (la_recorded a) (Some (spec_fail (ti_config inner) Account (la_recorded a) oe))
               (throttle_entry_of (ti_map inner') s))
        else kept (la_recorded a) (throttle_entry_of (ti_map inner) s) (throttle_entry_of (ti_map inner') s))
     else if s = account_of h l (ti_pepper inner) a \<and> (\<exists>b. r = PasswordProved b) then
       throttle_entry_of (ti_map inner') s = None
     else throttle_entry_of (ti_map inner') s = throttle_entry_of (ti_map inner) s"
proof -
  define p c m where "p = ti_pepper inner" and "c = ti_config inner" and "m = ti_map inner"
  define ss where "ss = attempt_subjects h l p a"
  have mem: "s \<in> set ss \<longleftrightarrow> s = account_of h l p a"
    using assms(3) by (auto simp: ss_def attempt_subjects_def subject_address_def split: option.splits)
  note run = assms(1) [unfolded login_unfold Let_def, folded p_def c_def m_def, folded ss_def]
  note wf = assms(2) [folded m_def]
  show thesis
  proof (cases "check_subjects m ss (la_checked a)")
    case (Some x)
    with run have "t' = Some inner" "\<not> guessed r" "\<nexists>b. r = PasswordProved b"
      by (auto simp: guessed_def split: prod.splits)
    then show thesis using assms(2) by (intro that [of inner]) auto
  next
    case None
    have free: "locked_for m (account_of h l p a) (la_checked a) = None"
      using None by (auto simp: ss_def attempt_subjects_def split: option.splits)
    consider "la_verdict a = Verified" | msg where "la_verdict a = ProviderError msg"
      | "guessed r" "t' = Some (inner\<lparr>ti_map := foldl (fail_step c (la_recorded a)) m ss\<rparr>)"
      using run None by (cases "la_verdict a") (auto simp: guessed_def)
    then show thesis
    proof cases
      case 1
      then have r: "\<not> guessed r" "\<exists>b. r = PasswordProved b"
          "t' = Some (inner\<lparr>ti_map := snd (clear_subjects m ss False)\<rparr>)"
        using run None by (auto simp: guessed_def)
      then show thesis
        using wf mem
        by (intro that [of "inner\<lparr>ti_map := snd (clear_subjects m ss False)\<rparr>"])
          (auto simp: clear_subjects_fold hm_wf_foldl_clear foldl_clear_entry p_def m_def)
    next
      case (2 msg)
      with run None have "t' = Some inner" "\<not> guessed r" "\<nexists>b. r = PasswordProved b" by (auto simp: guessed_def)
      then show thesis using assms(2) by (intro that [of inner]) auto
    next
      case 3
      obtain rest where rest: "ss = account_of h l p a # rest" by (simp add: ss_def attempt_subjects_def)
      have "su_scope x = Address" if "x \<in> set rest" for x
        using rest that by (auto simp: ss_def attempt_subjects_def subject_address_def split: option.splits)
      with assms(3) have out: "s \<notin> set rest" by fastforce
      define m1 where "m1 = fail_step c (la_recorded a) m (account_of h l p a)"
      have wf1: "hm_wf m1" using wf by (simp add: m1_def hm_wf_fail_step)
      have step: "kept (la_recorded a) (throttle_entry_of m1 s)
          (throttle_entry_of (foldl (fail_step c (la_recorded a)) m ss) s)"
        using foldl_fail_other [OF wf1 out, of "la_recorded a" c] by (simp add: rest m1_def)
      have first: "if s = account_of h l p a
          then \<exists>oe. kept (la_recorded a) (throttle_entry_of m s) oe \<and>
            throttle_entry_of m1 s = Some (spec_fail c Account (la_recorded a) oe)
          else kept (la_recorded a) (throttle_entry_of m s) (throttle_entry_of m1 s)"
        using fail_step_same [OF wf, of "la_recorded a" s c] fail_step_other [OF wf, of s "account_of h l p a"] assms(3)
        by (auto simp: m1_def)
      have whole: "if s = account_of h l p a
          then \<exists>oe. kept (la_recorded a) (throttle_entry_of m s) oe \<and>
            kept (la_recorded a) (Some (spec_fail c Account (la_recorded a) oe))
              (throttle_entry_of (foldl (fail_step c (la_recorded a)) m ss) s)
          else kept (la_recorded a) (throttle_entry_of m s)
            (throttle_entry_of (foldl (fail_step c (la_recorded a)) m ss) s)"
        using step first by (auto intro: kept_trans split: if_splits)
      show thesis
        by (rule that [of "inner\<lparr>ti_map := foldl (fail_step c (la_recorded a)) m ss\<rparr>"])
          (use 3 wf whole free in \<open>auto simp: p_def [symmetric] c_def [symmetric] m_def [symmetric] hm_wf_foldl_fail\<close>)
    qed
  qed
qed


section \<open>Locks are bounded and guesses are slow\<close>

lemma doubled_le: "doubled base ceil n \<le> ceil"
  by (simp add: doubled_def)

text \<open>
  After \<open>k\<close> guesses that began at \<open>T\<close>: the counter stands at \<open>k\<close>, it does not lapse before the window
  is over, and from the threshold on a lock stands that adds up all locks so far.
\<close>

definition guess_inv :: "throttle_config \<Rightarrow> instant \<Rightarrow> nat \<Rightarrow> throttle_entry option \<Rightarrow> bool" where
  "guess_inv c T k oe \<longleftrightarrow>
     (case oe of
        None \<Rightarrow> k = 0
      | Some e \<Rightarrow>
          te_failures e = k \<and> 0 < k \<and> T + tc_window c \<le> te_expires_at e \<and>
          (max_failures c Account \<le> k \<longrightarrow>
             (\<exists>u. te_locked_until e = Some u \<and>
                T + (\<Sum>i<Suc k - max_failures c Account. lock_for c Account (max_failures c Account + i)) \<le> u)))"

lemma kept_guess_inv:
  "kept now oe oe' \<Longrightarrow> now < T + tc_window c \<Longrightarrow> guess_inv c T k oe \<Longrightarrow> oe' = oe"
  by (auto simp: kept_def guess_inv_def)

lemma guess_inv_fail:
  assumes inv: "guess_inv c T k oe" and "T \<le> now" "k + 1 < 2 ^ 32" and pos: "0 < max_failures c Account"
    and free: "\<And>e u. oe = Some e \<Longrightarrow> te_locked_until e = Some u \<Longrightarrow> u \<le> now"
  shows "guess_inv c T (Suc k) (Some (spec_fail c Account now oe))"
proof -
  define e where "e = (case oe of None \<Rightarrow> fresh_entry c now | Some e \<Rightarrow> e)"
  define mx where "mx = max_failures c Account"
  have f: "te_failures e = k" using inv by (auto simp: e_def guess_inv_def fresh_entry_def split: option.splits)
  have f': "Suc (te_failures e) mod 4294967296 = Suc k" using f assms(3) by simp
  have earlier: "T + (\<Sum>i<Suc k - mx. lock_for c Account (mx + i)) \<le> now"
  proof (cases "mx \<le> k")
    case True
    then obtain x where "oe = Some x" using inv pos by (auto simp: guess_inv_def mx_def split: option.splits)
    with inv True free show ?thesis by (fastforce simp: guess_inv_def mx_def)
  next
    case False
    with assms(2) show ?thesis by simp
  qed
  have "T + (\<Sum>i<Suc (Suc k) - mx. lock_for c Account (mx + i)) \<le> now + lock_for c Account (Suc k)" if "mx \<le> Suc k"
    using earlier that by (simp add: Suc_diff_le)
  with assms(2) f' show ?thesis
    by (auto simp: guess_inv_def spec_fail_def Let_def e_def [symmetric] mx_def)
qed

definition guesses_on ::
  "(string \<Rightarrow> string \<Rightarrow> string) \<Rightarrow> (string \<Rightarrow> string) \<Rightarrow> string \<Rightarrow> subject \<Rightarrow> login_attempt list \<Rightarrow> login_result list \<Rightarrow> nat"
where
  "guesses_on h l pepper s as rs =
     length (filter (\<lambda>(a, r). account_of h l pepper a = s \<and> guessed r) (zip as rs))"

text \<open>The attempts fall into a window and none of them proves the account's password.\<close>

definition in_window ::
  "(string \<Rightarrow> string \<Rightarrow> string) \<Rightarrow> (string \<Rightarrow> string) \<Rightarrow> throttle_inner \<Rightarrow> subject \<Rightarrow> instant \<Rightarrow> login_attempt \<Rightarrow> bool"
where
  "in_window h l inner s T a \<longleftrightarrow>
     T \<le> la_checked a \<and> la_checked a \<le> la_recorded a \<and> la_recorded a < T + tc_window (ti_config inner) \<and>
     (account_of h l (ti_pepper inner) a = s \<longrightarrow> la_verdict a \<noteq> Verified)"

definition guess_bound :: "throttle_config \<Rightarrow> nat \<Rightarrow> bool" where
  "guess_bound c n \<longleftrightarrow>
     n \<le> max_failures c Account \<or>
     (\<Sum>i<n - max_failures c Account. lock_for c Account (max_failures c Account + i)) < tc_window c"

lemma guess_inv_bound:
  assumes inv: "guess_inv c T k (throttle_entry_of m s)" and free: "locked_for m s now = None"
    and now: "now < T + tc_window c" and pos: "0 < max_failures c Account"
  shows "guess_bound c (Suc k)"
proof (cases "max_failures c Account \<le> k")
  case True
  with inv pos obtain e u where "throttle_entry_of m s = Some e" "te_locked_until e = Some u"
    "T + (\<Sum>i<Suc k - max_failures c Account. lock_for c Account (max_failures c Account + i)) \<le> u"
    by (auto simp: guess_inv_def split: option.splits)
  with free now show ?thesis by (auto simp: guess_bound_def locked_for_def throttle_entry_of_def split: if_splits)
qed (simp add: guess_bound_def)

lemma login_not_proved: "login h l t a = (PasswordProved b, t') \<Longrightarrow> la_verdict a = Verified"
  by (auto simp: login_def Let_def split: option.splits verdict.splits)

lemma login_guess_inv:
  assumes run: "login h l (Some inner) a = (r, t')" and wf: "hm_wf (ti_map inner)" and s: "su_scope s = Account"
    and win: "in_window h l inner s T a" and inv: "guess_inv (ti_config inner) T k (throttle_entry_of (ti_map inner) s)"
    and k: "k + 1 < 2 ^ 32" and pos: "0 < max_failures (ti_config inner) Account"
  obtains inner' where "t' = Some inner'" "ti_config inner' = ti_config inner" "ti_pepper inner' = ti_pepper inner"
    "hm_wf (ti_map inner')"
    "guess_inv (ti_config inner) T
       (k + (if account_of h l (ti_pepper inner) a = s \<and> guessed r then 1 else 0)) (throttle_entry_of (ti_map inner') s)"
    "account_of h l (ti_pepper inner) a = s \<Longrightarrow> guessed r \<Longrightarrow> guess_bound (ti_config inner) (Suc k)"
proof (rule login_entry [OF run wf s])
  fix inner' assume i: "t' = Some inner'" "ti_config inner' = ti_config inner" "ti_pepper inner' = ti_pepper inner"
    "hm_wf (ti_map inner')"
  assume eff: "if guessed r then
       (if s = account_of h l (ti_pepper inner) a then
          locked_for (ti_map inner) s (la_checked a) = None \<and>
          (\<exists>oe. kept (la_recorded a) (throttle_entry_of (ti_map inner) s) oe \<and>
             kept (la_recorded a) (Some (spec_fail (ti_config inner) Account (la_recorded a) oe))
               (throttle_entry_of (ti_map inner') s))
        else kept (la_recorded a) (throttle_entry_of (ti_map inner) s) (throttle_entry_of (ti_map inner') s))
     else if s = account_of h l (ti_pepper inner) a \<and> (\<exists>b. r = PasswordProved b) then
       throttle_entry_of (ti_map inner') s = None
     else throttle_entry_of (ti_map inner') s = throttle_entry_of (ti_map inner) s"
  have late: "la_recorded a < T + tc_window (ti_config inner)" "T \<le> la_recorded a" "la_checked a \<le> la_recorded a"
    using win by (auto simp: in_window_def)
  note same = kept_guess_inv [OF _ late(1)]
  have "guess_inv (ti_config inner) T
      (k + (if account_of h l (ti_pepper inner) a = s \<and> guessed r then 1 else 0)) (throttle_entry_of (ti_map inner') s)"
  proof (cases "guessed r \<and> s = account_of h l (ti_pepper inner) a")
    case True
    with eff have free: "locked_for (ti_map inner) s (la_checked a) = None" by auto
    from True eff obtain oe where oe: "kept (la_recorded a) (throttle_entry_of (ti_map inner) s) oe"
      "kept (la_recorded a) (Some (spec_fail (ti_config inner) Account (la_recorded a) oe)) (throttle_entry_of (ti_map inner') s)"
      by auto
    from same [OF oe(1) inv] have eq: "oe = throttle_entry_of (ti_map inner) s" .
    have new: "guess_inv (ti_config inner) T (Suc k) (Some (spec_fail (ti_config inner) Account (la_recorded a) oe))"
      unfolding eq
    proof (rule guess_inv_fail [OF inv late(2) k pos])
      fix e u assume "throttle_entry_of (ti_map inner) s = Some e" "te_locked_until e = Some u"
      with free have "u \<le> la_checked a" by (auto simp: locked_for_def throttle_entry_of_def split: if_splits)
      with late(3) show "u \<le> la_recorded a" by simp
    qed
    from same [OF oe(2) new] new True show ?thesis by simp
  next
    case False
    have "throttle_entry_of (ti_map inner') s = throttle_entry_of (ti_map inner) s"
      using eff False same [OF _ inv] login_not_proved [of h l "Some inner" a] run win
      by (auto simp: in_window_def split: if_splits)
    with inv False show ?thesis by auto
  qed
  moreover have "guess_bound (ti_config inner) (Suc k)" if "account_of h l (ti_pepper inner) a = s" "guessed r"
  proof -
    have "locked_for (ti_map inner) s (la_checked a) = None" using eff that by (auto split: if_splits)
    then show ?thesis using guess_inv_bound [OF inv _ _ pos, of "la_checked a"] late by auto
  qed
  ultimately show thesis using i that by blast
qed

lemma logins_guess_bound:
  assumes "logins h l (Some inner) as = (rs, t')" "hm_wf (ti_map inner)" "su_scope s = Account"
    and "list_all (in_window h l inner s T) as"
    and "guess_inv (ti_config inner) T k (throttle_entry_of (ti_map inner) s)" "guess_bound (ti_config inner) k"
    and "k + length as < 2 ^ 32" "0 < max_failures (ti_config inner) Account"
  shows "guess_bound (ti_config inner) (k + guesses_on h l (ti_pepper inner) s as rs)"
  using assms
proof (induction "as" arbitrary: inner rs k)
  case Nil
  then show ?case by (simp add: guesses_on_def)
next
  case (Cons a as)
  obtain r t1 where a: "login h l (Some inner) a = (r, t1)" by fastforce
  obtain rs' where rs: "rs = r # rs'" "logins h l t1 as = (rs', t')"
    using Cons.prems(1) a by (auto simp: Let_def split: prod.splits)
  have k: "k + 1 < 2 ^ 32" using Cons.prems(7) by simp
  have w: "in_window h l inner s T a" using Cons.prems(4) by simp
  obtain inner' where i: "t1 = Some inner'" "ti_config inner' = ti_config inner" "ti_pepper inner' = ti_pepper inner"
    "hm_wf (ti_map inner')"
    "guess_inv (ti_config inner) T
       (k + (if account_of h l (ti_pepper inner) a = s \<and> guessed r then 1 else 0)) (throttle_entry_of (ti_map inner') s)"
    "account_of h l (ti_pepper inner) a = s \<Longrightarrow> guessed r \<Longrightarrow> guess_bound (ti_config inner) (Suc k)"
    by (rule login_guess_inv [OF a Cons.prems(2,3) w Cons.prems(5) k Cons.prems(8)]) blast
  define k' where "k' = k + (if account_of h l (ti_pepper inner) a = s \<and> guessed r then 1 else 0)"
  have "guess_bound (ti_config inner') (k' + guesses_on h l (ti_pepper inner') s as rs')"
  proof (rule Cons.IH)
    show "logins h l (Some inner') as = (rs', t')" using rs i(1) by simp
    show "list_all (in_window h l inner' s T) as"
      using Cons.prems(4) i(2,3) by (auto simp: in_window_def list_all_iff)
    show "guess_bound (ti_config inner') k'" using Cons.prems(6) i(2,6) by (auto simp: k'_def)
  qed (use i Cons.prems k'_def in auto)
  then show ?case using i(2,3) by (auto simp: rs(1) guesses_on_def k'_def split: if_splits)
qed


text \<open>With the default tuning that is eight guesses in a quarter of an hour.\<close>

lemma default_guess_bound:
  assumes "guess_bound throttle_config_default n"
  shows "n \<le> 8"
proof (rule ccontr)
  define lock where "lock = (\<lambda>i. lock_for throttle_config_default Account (5 + i))"
  have five: "max_failures throttle_config_default Account = 5"
    by (simp add: max_failures_def throttle_config_default_def)
  assume "\<not> n \<le> 8"
  then have n: "4 \<le> n - 5" "\<not> n \<le> 5" by auto
  have vals: "lock 0 = from_secs 60" "lock 1 = from_secs 120" "lock 2 = from_secs 240" "lock 3 = from_secs 480"
    by (simp_all add: lock_def lock_for_def max_failures_def throttle_config_default_def doubled_def duration_checked_mul_def
        checked_shl_def as_secs_def from_secs_def u64_max_def)
  have "(\<Sum>i<4. lock i) \<le> (\<Sum>i<n - 5. lock i)" using n(1) by (intro sum_mono2) auto
  moreover have "(\<Sum>i<4. lock i) = from_secs 900"
  proof -
    have "{..<4 :: nat} = {0, 1, 2, 3}" by auto
    then show ?thesis by (simp add: vals [simplified] from_secs_def)
  qed
  moreover have "(\<Sum>i<n - 5. lock i) < tc_window throttle_config_default"
    using assms n(2) by (simp add: guess_bound_def five lock_def)
  ultimately show False by (simp add: throttle_config_default_def)
qed

definition sample_throttle :: throttle_inner where
  "sample_throttle = \<lparr>ti_config = throttle_config_default, ti_pepper = ''p'', ti_map = []\<rparr>"

definition sample_guess :: "nat \<Rightarrow> login_attempt" where
  "sample_guess sec =
     \<lparr>la_email = ''ada@x.io'', la_client = Some ''10.0.0.1'', la_verdict = NotVerified, la_checked = from_secs sec,
      la_recorded = from_secs sec\<rparr>"

definition sample_account :: subject where
  "sample_account = \<lparr>su_scope = Account, su_digest = ''pada@x.io''\<rparr>"

lemma sample_guesses:
  "fst (logins (@) (\<lambda>e. e) (Some sample_throttle) (map sample_guess [1, 2, 3, 4, 5, 6, 65])) =
     [InvalidCredentials, InvalidCredentials, InvalidCredentials, InvalidCredentials, InvalidCredentials,
      TooManyAttempts (from_secs 59), InvalidCredentials]"
  by code_simp



section \<open>A lock ends by itself\<close>

definition lock_inv :: "throttle_config \<Rightarrow> instant \<Rightarrow> throttle_map \<Rightarrow> bool" where
  "lock_inv c T m \<longleftrightarrow>
     hm_wf m \<and> (\<forall>k e u. hm_get m k = Some e \<longrightarrow> te_locked_until e = Some u \<longrightarrow> u \<le> T + tc_max_lock c)"

lemma lock_inv_fail_step:
  assumes "lock_inv c T m" "now \<le> T"
  shows "lock_inv c T (fail_step c now m s)"
proof -
  have bound: "now + lock_for c sc n \<le> T + tc_max_lock c" for sc n
    using assms(2) doubled_le [of "tc_base_lock c" "tc_max_lock c"] by (simp add: lock_for_def add_mono)
  have old: "hm_get (throttle_prune m now) k = Some e \<Longrightarrow> te_locked_until e = Some u \<Longrightarrow> u \<le> T + tc_max_lock c" for k e u
    using prune_kept [of m now k] assms(1) by (auto simp: kept_def lock_inv_def dest!: sym [of "Some _"])
  have wf: "hm_wf (fail_step c now m s)" using assms(1) by (simp add: lock_inv_def hm_wf_fail_step)
  have "u \<le> T + tc_max_lock c"
    if "hm_get (fail_step c now m s) k = Some e" "te_locked_until e = Some u" for k e u
    using that bound old
    by (auto simp: fail_step_def bump_def engage_lock_def Let_def hm.get_put fresh_entry_def
        split: if_splits option.splits)
  with wf show ?thesis by (auto simp: lock_inv_def)
qed

lemma lock_inv_fails: "lock_inv c T m \<Longrightarrow> now \<le> T \<Longrightarrow> lock_inv c T (foldl (fail_step c now) m ss)"
  by (induction ss arbitrary: m) (simp_all add: lock_inv_fail_step)

lemma lock_inv_clears: "lock_inv c T m \<Longrightarrow> lock_inv c T (foldl (\<lambda>m s. hm_remove (entry_key s) m) m ss)"
proof (induction ss arbitrary: m)
  case (Cons s ss)
  have "lock_inv c T (hm_remove (entry_key s) m)"
    using Cons.prems by (auto simp: lock_inv_def hm.get_del hm.wf_del split: if_splits)
  then show ?case using Cons.IH by simp
qed simp

lemma lock_inv_login:
  assumes "login h l (Some inner) a = (r, t')" "lock_inv (ti_config inner) T (ti_map inner)" "la_recorded a \<le> T"
  shows "\<exists>inner'. t' = Some inner' \<and> ti_config inner' = ti_config inner \<and> lock_inv (ti_config inner) T (ti_map inner')"
  using assms lock_inv_fails [OF assms(2,3)] lock_inv_clears [OF assms(2)]
  by (cases "la_verdict a") (auto simp: login_unfold Let_def clear_subjects_fold split: option.splits)

lemma lock_inv_logins:
  assumes "logins h l (Some inner) as = (rs, t')" "lock_inv (ti_config inner) T (ti_map inner)"
    "list_all (\<lambda>a. la_recorded a \<le> T) as"
  shows "\<exists>inner'. t' = Some inner' \<and> ti_config inner' = ti_config inner \<and> lock_inv (ti_config inner) T (ti_map inner')"
  using assms
proof (induction "as" arbitrary: inner rs)
  case (Cons a as)
  obtain r t1 where a: "login h l (Some inner) a = (r, t1)" by fastforce
  obtain inner1 where i: "t1 = Some inner1" "ti_config inner1 = ti_config inner" "lock_inv (ti_config inner) T (ti_map inner1)"
    using lock_inv_login [OF a Cons.prems(2)] Cons.prems(3) by auto
  obtain rs' where "logins h l (Some inner1) as = (rs', t')"
    using Cons.prems(1) a i(1) by (auto simp: Let_def split: prod.splits)
  from Cons.IH [OF this] Cons.prems(3) i show ?case by auto
qed auto

lemma check_subjects_Some: "check_subjects m ss now = Some (sc, d) \<Longrightarrow> \<exists>s\<in>set ss. locked_for m s now = Some d"
  by (induction ss) (auto split: option.splits)

text \<open>
  C29: A lock is a clock, not a state. After any logins, all over by \<open>T\<close>, a login that is turned away
  at or after \<open>T\<close> is told to wait no longer than the ceiling, and from \<open>T\<close> plus the ceiling on nobody
  is turned away, whatever was guessed before.
\<close>

theorem locks_end:
  assumes "logins h l (throttle_new c pepper) as = (rs, t)" "list_all (\<lambda>a. la_recorded a \<le> T) as"
    and "login h l t a = (TooManyAttempts d, t')" "T \<le> la_checked a"
  shows "d \<le> tc_max_lock c \<and> la_checked a < T + tc_max_lock c"
proof -
  obtain inner where i: "t = Some inner" "lock_inv c T (ti_map inner)"
    using lock_inv_logins [OF assms(1) [unfolded throttle_new_def] _ assms(2)] by (auto simp: lock_inv_def)
  obtain s where "locked_for (ti_map inner) s (la_checked a) = Some d"
    using assms(3) i(1)
    by (auto simp: login_unfold Let_def dest!: check_subjects_Some split: option.splits prod.splits verdict.splits)
  then obtain e u where "hm_get (ti_map inner) (entry_key s) = Some e" "te_locked_until e = Some u"
    "la_checked a < u" "d = u - la_checked a"
    by (auto simp: locked_for_def bind_eq_Some_conv split: if_splits)
  with i(2) assms(4) show ?thesis by (force simp: lock_inv_def)
qed

lemma locks_end_witness:
  "fst (login (@) (\<lambda>e. e) (snd (logins (@) (\<lambda>e. e) (throttle_new throttle_config_default ''p'')
      (map sample_guess [1, 2, 3, 4, 5]))) (sample_guess 6)) = TooManyAttempts (from_secs 59) \<and>
   from_secs 59 \<le> tc_max_lock throttle_config_default"
proof
  let ?run = "logins (@) (\<lambda>e. e) (throttle_new throttle_config_default ''p'') (map sample_guess [1, 2, 3, 4, 5])"
  show last: "fst (login (@) (\<lambda>e. e) (snd ?run) (sample_guess 6)) = TooManyAttempts (from_secs 59)" by code_simp
  have run: "?run = (fst ?run, snd ?run)" by simp
  have turned: "login (@) (\<lambda>e. e) (snd ?run) (sample_guess 6) =
      (TooManyAttempts (from_secs 59), snd (login (@) (\<lambda>e. e) (snd ?run) (sample_guess 6)))"
    using last by (metis prod.collapse)
  show "from_secs 59 \<le> tc_max_lock throttle_config_default"
    using locks_end [OF run _ turned, of "from_secs 6"] by (simp add: sample_guess_def)
qed


section \<open>Two limits of the throttle\<close>

definition guess_at :: "string \<Rightarrow> string option \<Rightarrow> instant \<Rightarrow> login_attempt" where
  "guess_at email client now =
     \<lparr>la_email = email, la_client = client, la_verdict = NotVerified, la_checked = now, la_recorded = now\<rparr>"

definition lone_map :: "subject \<Rightarrow> throttle_entry option \<Rightarrow> throttle_map" where
  "lone_map s oe = (case oe of None \<Rightarrow> [] | Some e \<Rightarrow> [(entry_key s, e)])"

lemma lone_map_get [simp]: "hm_get (lone_map s oe) (entry_key s) = oe"
  by (simp add: lone_map_def hm_get_def split: option.splits)

lemma fail_step_lone: "fail_step c now (lone_map s oe) s = lone_map s (Some (spec_fail c (su_scope s) now oe))"
  by (cases oe)
    (auto simp: fail_step_def bump_def engage_lock_def throttle_prune_def lone_map_def spec_fail_def hm_insert_def hm_get_def Let_def)

lemma lone_guess:
  assumes "ti_map inner = lone_map s oe" "s = account_of h l (ti_pepper inner) (guess_at email None now)"
    and "\<And>e. oe = Some e \<Longrightarrow> te_locked_until e = None"
  shows "login h l (Some inner) (guess_at email None now) =
    (InvalidCredentials, Some (inner\<lparr>ti_map := lone_map s (Some (spec_fail (ti_config inner) Account now oe))\<rparr>))"
proof -
  have "check_subjects (ti_map inner) [s] now = None"
    using assms(1,3) by (cases oe) (auto simp: locked_for_def)
  moreover have "attempt_subjects h l (ti_pepper inner) (guess_at email None now) = [s]"
    using assms(2) by (simp add: attempt_subjects_def guess_at_def)
  moreover have "su_scope s = Account" using assms(2) by simp
  ultimately show ?thesis
    using assms(1) by (simp add: login_unfold Let_def guess_at_def fail_step_lone)
qed

lemma lone_guesses:
  assumes "ti_map inner = lone_map s oe" "\<And>now. s = account_of h l (ti_pepper inner) (guess_at email None now)"
    and "case oe of None \<Rightarrow> k = 0 | Some e \<Rightarrow> te_failures e = k \<and> te_locked_until e = None"
    and "k + length ts < max_failures (ti_config inner) Account" "max_failures (ti_config inner) Account < 2 ^ 32"
  shows "\<exists>oe'. snd (logins h l (Some inner) (map (guess_at email None) ts)) = Some (inner\<lparr>ti_map := lone_map s oe'\<rparr>) \<and>
    (case oe' of None \<Rightarrow> k + length ts = 0 | Some e \<Rightarrow> te_failures e = k + length ts \<and> te_locked_until e = None)"
  using assms
proof (induction ts arbitrary: inner oe k)
  case Nil
  have "inner\<lparr>ti_map := lone_map s oe\<rparr> = inner" using Nil.prems(1) by simp
  with Nil.prems(3) show ?case by (intro exI [of _ oe]) (auto split: option.splits)
next
  case (Cons t ts)
  define e where "e = spec_fail (ti_config inner) Account t oe"
  define inner1 where "inner1 = inner\<lparr>ti_map := lone_map s (Some e)\<rparr>"
  have step: "login h l (Some inner) (guess_at email None t) = (InvalidCredentials, Some inner1)"
    unfolding inner1_def e_def
    by (rule lone_guess [OF Cons.prems(1,2)]) (use Cons.prems(3) in auto)
  have e: "te_failures e = Suc k \<and> te_locked_until e = None"
    using Cons.prems(3-5) by (auto simp: e_def spec_fail_def Let_def fresh_entry_def split: option.splits)
  obtain oe' where "snd (logins h l (Some inner1) (map (guess_at email None) ts)) = Some (inner1\<lparr>ti_map := lone_map s oe'\<rparr>)"
    "case oe' of None \<Rightarrow> Suc k + length ts = 0 | Some e \<Rightarrow> te_failures e = Suc k + length ts \<and> te_locked_until e = None"
    using Cons.IH [of inner1 "Some e" "Suc k"] Cons.prems e by (auto simp: inner1_def)
  with step show ?case
    by (intro exI [of _ oe']) (auto simp: inner1_def case_prod_beta Let_def split: option.splits)
qed

text \<open>
  The in-process counter does not lapse. As many wrong passwords for one account as the budget
  allows, at any times whatever, hours or days apart, lock the account after the last of them: no gap
  between two failures restarts the count, the window tuning notwithstanding.
\<close>

theorem slow_failures_lock:
  assumes "length ts + 1 = max_failures c Account" "max_failures c Account < 2 ^ 32" "0 < lock_for c Account (max_failures c Account)"
  shows "fst (login h l (snd (logins h l (throttle_new c pepper) (map (guess_at email None) (ts @ [t])))) (guess_at email None t)) =
    TooManyAttempts (lock_for c Account (max_failures c Account))"
proof -
  define inner where "inner = \<lparr>ti_config = c, ti_pepper = pepper, ti_map = []\<rparr>"
  define s where "s = account_of h l pepper (guess_at email None 0)"
  have s: "s = account_of h l (ti_pepper inner) (guess_at email None now)" for now
    by (simp add: s_def inner_def account_of_def guess_at_def)
  obtain oe where oe: "snd (logins h l (Some inner) (map (guess_at email None) ts)) = Some (inner\<lparr>ti_map := lone_map s oe\<rparr>)"
    "case oe of None \<Rightarrow> length ts = 0 | Some e \<Rightarrow> te_failures e = length ts \<and> te_locked_until e = None"
  proof -
    have "ti_map inner = lone_map s None" "0 + length ts < max_failures (ti_config inner) Account"
        "max_failures (ti_config inner) Account < 2 ^ 32"
      using assms(1,2) by (simp_all add: inner_def lone_map_def)
    from lone_guesses [OF this(1) s _ this(2,3)] obtain oe where
      "snd (logins h l (Some inner) (map (guess_at email None) ts)) = Some (inner\<lparr>ti_map := lone_map s oe\<rparr>)"
      "case oe of None \<Rightarrow> 0 + length ts = 0 | Some e \<Rightarrow> te_failures e = 0 + length ts \<and> te_locked_until e = None"
      by auto
    then show thesis by (intro that) (simp_all only: add_0)
  qed
  define inner1 where "inner1 = inner\<lparr>ti_map := lone_map s (Some (spec_fail c Account t oe))\<rparr>"
  have last: "login h l (Some (inner\<lparr>ti_map := lone_map s oe\<rparr>)) (guess_at email None t) = (InvalidCredentials, Some inner1)"
    using lone_guess [of "inner\<lparr>ti_map := lone_map s oe\<rparr>" s oe h l email t] s oe(2)
    by (auto simp: inner_def inner1_def split: option.splits)
  have snoc: "snd (logins h l x (as @ [a])) = snd (login h l (snd (logins h l x as)) a)" for x "as" a
    by (induction "as" arbitrary: x) (simp_all add: Let_def case_prod_beta)
  have lock: "te_locked_until (spec_fail c Account t oe) = Some (t + lock_for c Account (max_failures c Account))"
    using oe(2) assms(1,2) by (auto simp: spec_fail_def Let_def fresh_entry_def split: option.splits)
  have "attempt_subjects h l pepper (guess_at email None t) = [s]"
    using s by (simp add: attempt_subjects_def guess_at_def inner_def)
  with lock assms(3) have "fst (login h l (Some inner1) (guess_at email None t)) =
      TooManyAttempts (lock_for c Account (max_failures c Account))"
    by (simp add: login_unfold Let_def inner1_def inner_def guess_at_def locked_for_def)
  with last show ?thesis
    using oe(1) by (simp add: snoc throttle_new_def inner_def [symmetric])
qed

lemma slow_failures_lock_witness:
  "fst (login (@) (\<lambda>e. e) (snd (logins (@) (\<lambda>e. e) (throttle_new throttle_config_default ''p'')
      (map (guess_at ''ada@x.io'' None) (map from_secs [0, 86400, 172800, 259200] @ [from_secs 345600]))))
     (guess_at ''ada@x.io'' None (from_secs 345600))) = TooManyAttempts (from_secs 60)"
proof -
  have five: "max_failures throttle_config_default Account = 5" "lock_for throttle_config_default Account 5 = from_secs 60"
    by code_simp+
  show ?thesis
    using slow_failures_lock [of "map from_secs [0, 86400, 172800, 259200]" throttle_config_default]
    by (simp add: five)
qed


text \<open>A successful sign-in clears the counter of its address, whoever the failures before it were for.\<close>

definition own_login :: "string \<Rightarrow> string \<Rightarrow> instant \<Rightarrow> login_attempt" where
  "own_login email ip now =
     \<lparr>la_email = email, la_client = Some ip, la_verdict = Verified, la_checked = now, la_recorded = now\<rparr>"

definition spray :: "string \<Rightarrow> string \<Rightarrow> (string \<times> instant) list \<Rightarrow> login_attempt list" where
  "spray own ip vs = concat (map (\<lambda>(victim, now). [guess_at victim (Some ip) now, own_login own ip now]) vs)"

lemma attempt_sel:
  "la_verdict (guess_at v client now) = NotVerified" "la_checked (guess_at v client now) = now"
  "la_recorded (guess_at v client now) = now" "la_verdict (own_login own ip now) = Verified"
  "la_checked (own_login own ip now) = now" "la_recorded (own_login own ip now) = now"
  by (simp_all add: guess_at_def own_login_def)

lemma kept_None [simp]: "kept now None oe \<longleftrightarrow> oe = None"
  by (auto simp: kept_def)

lemma spec_fail_first:
  assumes "1 < max_failures c scope"
  shows "te_locked_until (spec_fail c scope now None) = None" "\<not> te_locked_recently (spec_fail c scope now None)"
  using assms by (simp_all add: spec_fail_def Let_def fresh_entry_def)

lemma unlocked:
  "(case throttle_entry_of m s of None \<Rightarrow> True | Some e \<Rightarrow> te_locked_until e = None) \<Longrightarrow> locked_for m s now = None"
  by (auto simp: locked_for_def throttle_entry_of_def split: option.splits)

lemma spray_round:
  fixes m :: throttle_map and h :: "string \<Rightarrow> string \<Rightarrow> string" and l :: "string \<Rightarrow> string"
    and p victim own ip :: string and now :: instant
  defines "v \<equiv> account_of h l p (guess_at victim (Some ip) now)" and "ow \<equiv> account_of h l p (own_login own ip now)"
    and "ad \<equiv> subject_address h p ip"
  assumes wf: "hm_wf m" and none: "throttle_entry_of m ad = None" "throttle_entry_of m ow = None" "throttle_entry_of m v = None"
    and diff: "v \<noteq> ow" and mx: "1 < tc_account_max_failures c" "1 < tc_address_max_failures c"
  shows "\<exists>m'. logins h l (Some \<lparr>ti_config = c, ti_pepper = p, ti_map = m\<rparr>)
        [guess_at victim (Some ip) now, own_login own ip now] =
      ([InvalidCredentials, PasswordProved False], Some \<lparr>ti_config = c, ti_pepper = p, ti_map = m'\<rparr>) \<and>
    hm_wf m' \<and> throttle_entry_of m' ad = None \<and> throttle_entry_of m' ow = None \<and>
    (\<forall>s. s \<noteq> v \<longrightarrow> throttle_entry_of m s = None \<longrightarrow> throttle_entry_of m' s = None)"
proof -
  define m1 where "m1 = fail_step c now m v"
  define m2 where "m2 = fail_step c now m1 ad"
  define m3 where "m3 = hm_remove (entry_key ad) (hm_remove (entry_key ow) m2)"
  have wf1: "hm_wf m1" and wf2: "hm_wf m2" and wf3: "hm_wf m3"
    using wf by (simp_all add: m1_def m2_def m3_def hm_wf_fail_step hm.wf_del)
  have scopes: "su_scope ad = Address" "su_scope v = Account" "su_scope ow = Account"
    by (simp_all add: ad_def v_def ow_def subject_address_def)
  then have ne: "ad \<noteq> v" "ad \<noteq> ow" by auto
  have one: "throttle_entry_of m1 s = None" if "s \<noteq> v" "throttle_entry_of m s = None" for s
    using fail_step_other [OF wf that(1), of now c] that(2) by (simp add: m1_def)
  have two: "throttle_entry_of m2 s = None" if "s \<noteq> v" "s \<noteq> ad" "throttle_entry_of m s = None" for s
    using fail_step_other [OF wf1 that(2), of now c] one [OF that(1,3)] by (simp add: m2_def)
  have at: "throttle_entry_of m2 ad = Some (spec_fail c Address now None)"
    using fail_step_same [OF wf1, of now ad c] one [OF ne(1) none(1)] scopes(1) by (simp add: m2_def)
  have mx': "1 < max_failures c Address" using mx(2) by (simp add: max_failures_def)
  note first = spec_fail_first [OF mx', of now]
  have subj: "attempt_subjects h l p (guess_at victim (Some ip) now) = [v, ad]"
      "attempt_subjects h l p (own_login own ip now) = [ow, ad]"
    by (simp_all add: attempt_subjects_def v_def ow_def ad_def guess_at_def own_login_def)
  have "check_subjects m [v, ad] now = None" using none by (simp add: unlocked)
  then have guess: "login h l (Some \<lparr>ti_config = c, ti_pepper = p, ti_map = m\<rparr>) (guess_at victim (Some ip) now) =
      (InvalidCredentials, Some \<lparr>ti_config = c, ti_pepper = p, ti_map = m2\<rparr>)"
    by (simp add: login_unfold subj Let_def attempt_sel m1_def m2_def)
  have "check_subjects m2 [ow, ad] now = None"
    using two [OF _ _ none(2)] diff ne at first by (simp add: unlocked)
  moreover have "clear_subjects m2 [ow, ad] False = (False, m3)"
    using two [OF _ _ none(2)] diff ne at first
    by (simp add: clear_subject_def m3_def throttle_entry_of_def hm.get_del)
  ultimately have own: "login h l (Some \<lparr>ti_config = c, ti_pepper = p, ti_map = m2\<rparr>) (own_login own ip now) =
      (PasswordProved False, Some \<lparr>ti_config = c, ti_pepper = p, ti_map = m3\<rparr>)"
    by (simp add: login_unfold subj Let_def attempt_sel)
  have "throttle_entry_of m3 s = (if s = ad \<or> s = ow then None else throttle_entry_of m2 s)" for s
    by (simp add: m3_def throttle_entry_of_def hm.get_del)
  with two wf3 show ?thesis by (intro exI [of _ m3]) (auto simp: guess own)
qed

text \<open>
  The address limit does not stop a client that has an account of its own. Guessing one password
  at each of any number of accounts from one address, with a sign-in to the own account after each
  guess, is never turned away: every guess gets its password checked, however small the address budget
  is (as long as it is more than one).
\<close>

theorem own_login_lifts_address_limit:
  assumes "distinct (account_of h l p (own_login own ip 0) # map (\<lambda>(v, now). account_of h l p (guess_at v (Some ip) now)) vs)"
    and "1 < tc_account_max_failures c" "1 < tc_address_max_failures c"
  shows "fst (logins h l (throttle_new c p) (spray own ip vs)) =
    concat (map (\<lambda>_. [InvalidCredentials, PasswordProved False]) vs)"
proof -
  define ow where "ow = account_of h l p (own_login own ip 0)"
  have ow: "account_of h l p (own_login own ip now) = ow" for now
    by (simp add: ow_def account_of_def own_login_def)
  have split: "logins h l t (as @ bs) =
      (fst (logins h l t as) @ fst (logins h l (snd (logins h l t as)) bs), snd (logins h l (snd (logins h l t as)) bs))"
    for t "as" bs
    by (induction "as" arbitrary: t) (simp_all add: Let_def case_prod_beta)
  have "fst (logins h l (Some \<lparr>ti_config = c, ti_pepper = p, ti_map = m\<rparr>) (spray own ip vs)) =
      concat (map (\<lambda>_. [InvalidCredentials, PasswordProved False]) vs)"
    if "distinct (ow # map (\<lambda>(v, now). account_of h l p (guess_at v (Some ip) now)) vs)" "hm_wf m"
      "throttle_entry_of m (subject_address h p ip) = None" "throttle_entry_of m ow = None"
      "list_all (\<lambda>(v, now). throttle_entry_of m (account_of h l p (guess_at v (Some ip) now)) = None) vs"
    for m
    using that
  proof (induction vs arbitrary: m)
    case (Cons x vs)
    obtain v now where x: "x = (v, now)" by fastforce
    let ?rest = "map (\<lambda>(v, now). account_of h l p (guess_at v (Some ip) now)) vs"
    obtain m' where m': "logins h l (Some \<lparr>ti_config = c, ti_pepper = p, ti_map = m\<rparr>)
        [guess_at v (Some ip) now, own_login own ip now] =
        ([InvalidCredentials, PasswordProved False], Some \<lparr>ti_config = c, ti_pepper = p, ti_map = m'\<rparr>)"
      "hm_wf m'" "throttle_entry_of m' (subject_address h p ip) = None" "throttle_entry_of m' ow = None"
      "\<forall>s. s \<noteq> account_of h l p (guess_at v (Some ip) now) \<longrightarrow> throttle_entry_of m s = None \<longrightarrow>
         throttle_entry_of m' s = None"
      using spray_round [of m h p ip l own now v c] Cons.prems assms(2,3) by (auto simp: x ow)
    have "fst (logins h l (Some \<lparr>ti_config = c, ti_pepper = p, ti_map = m'\<rparr>) (spray own ip vs)) =
        concat (map (\<lambda>_. [InvalidCredentials, PasswordProved False]) vs)"
    proof (rule Cons.IH)
      show "list_all (\<lambda>(v, now). throttle_entry_of m' (account_of h l p (guess_at v (Some ip) now)) = None) vs"
        unfolding list_all_iff
      proof (rule ballI, clarify)
        fix v' now' assume in_vs: "(v', now') \<in> set vs"
        then have "account_of h l p (guess_at v' (Some ip) now') \<in> set ?rest" by force
        then have "account_of h l p (guess_at v' (Some ip) now') \<noteq> account_of h l p (guess_at v (Some ip) now)"
          using Cons.prems(1) by (auto simp: x)
        moreover have "throttle_entry_of m (account_of h l p (guess_at v' (Some ip) now')) = None"
          using Cons.prems(5) in_vs by (auto simp: list_all_iff)
        ultimately show "throttle_entry_of m' (account_of h l p (guess_at v' (Some ip) now')) = None" using m'(5) by blast
      qed
    qed (use m'(2-4) Cons.prems(1) in auto)
    moreover have "spray own ip (x # vs) = [guess_at v (Some ip) now, own_login own ip now] @ spray own ip vs"
      by (simp add: spray_def x)
    ultimately show ?case by (simp only: split m'(1) fst_conv snd_conv list.map concat.simps)
  qed (simp add: spray_def)
  from this [of "[]"] assms(1) show ?thesis by (simp add: throttle_new_def ow_def throttle_entry_of_def list_all_iff case_prod_beta)
qed


lemma own_login_lifts_address_limit_witness:
  "fst (logins (@) (\<lambda>e. e) (throttle_new (throttle_config_default\<lparr>tc_address_max_failures := 2\<rparr>) ''p'')
      (spray ''eve'' ''10.0.0.9'' [(''ada'', 1), (''bob'', 2), (''cyd'', 3)])) =
    [InvalidCredentials, PasswordProved False, InvalidCredentials, PasswordProved False, InvalidCredentials,
     PasswordProved False]"
proof -
  have "distinct (account_of (@) (\<lambda>e. e) ''p'' (own_login ''eve'' ''10.0.0.9'' 0) #
      map (\<lambda>(v, now). account_of (@) (\<lambda>e. e) ''p'' (guess_at v (Some ''10.0.0.9'') now))
        [(''ada'', 1), (''bob'', 2), (''cyd'', 3)])"
    by code_simp
  from own_login_lifts_address_limit [OF this, of "throttle_config_default\<lparr>tc_address_max_failures := 2\<rparr>"]
  show ?thesis by (simp add: throttle_config_default_def)
qed

end
