(* ===== verification/Totp.thy ===== *)
theory Totp
  imports Strings Balancer "HOL-Library.Code_Target_Nat"
begin

text \<open>
  One-time passwords and the base32 of their secrets (\<open>rolter-auth/src/totp.rs\<close>), the constant-time
  comparison they use and the hexadecimal of digests (\<open>lib.rs\<close>, \<open>hex.rs\<close>). Bytes are naturals below
  256; a text read character by character is the list of its code points. The keyed digest is an
  argument.
\<close>

section \<open>Base32\<close>

definition STEP_SECONDS :: nat where "STEP_SECONDS = 30"
definition DIGITS :: nat where "DIGITS = 6"
definition SKEW_STEPS :: nat where "SKEW_STEPS = 1"

definition BASE32_ALPHABET :: "nat list" where
  "BASE32_ALPHABET = map of_char ''ABCDEFGHIJKLMNOPQRSTUVWXYZ234567''"

definition chunk_bits :: "nat list \<Rightarrow> nat" where
  "chunk_bits chunk = foldl (\<lambda>acc b. acc * 256 + b) 0 (chunk @ replicate (5 - length chunk) 0)"

definition div_ceil :: "nat \<Rightarrow> nat \<Rightarrow> nat" where
  "div_ceil a b = (a + b - 1) div b"

definition encode_chunk :: "nat list \<Rightarrow> nat list" where
  "encode_chunk chunk =
     (let bits = chunk_bits chunk
      in map (\<lambda>i. BASE32_ALPHABET ! ((bits div 2 ^ (35 - i * 5)) mod 32)) [0..<div_ceil (length chunk * 8) 5])"

fun base32_encode :: "nat list \<Rightarrow> nat list" where
  "base32_encode [] = []"
| "base32_encode (b # bs) = encode_chunk (take 5 (b # bs)) @ base32_encode (drop 5 (b # bs))"

definition is_whitespace_code :: "nat \<Rightarrow> bool" where
  "is_whitespace_code c =
     (9 \<le> c \<and> c \<le> 13 \<or> 8192 \<le> c \<and> c \<le> 8202 \<or>
      c \<in> {32, 133, 160, 5760, 8232, 8233, 8239, 8287, 12288})"

definition upper_code :: "nat \<Rightarrow> nat" where
  "upper_code c = (if 97 \<le> c \<and> c \<le> 122 then c - 32 else c)"

fun find_position :: "nat \<Rightarrow> nat list \<Rightarrow> nat option" where
  "find_position x [] = None"
| "find_position x (y # ys) = (if y = x then Some 0 else map_option Suc (find_position x ys))"

fun decode_loop :: "nat list \<Rightarrow> nat \<Rightarrow> nat \<Rightarrow> nat list \<Rightarrow> nat list option" where
  "decode_loop [] acc bits out = Some out"
| "decode_loop (c # cs) acc bits out =
     (case find_position (upper_code c mod 256) BASE32_ALPHABET of
        None \<Rightarrow> None
      | Some v \<Rightarrow>
          let acc = (acc * 32 + v) mod 2 ^ 32; bits = bits + 5
          in if 8 \<le> bits then
               decode_loop cs (acc mod 2 ^ (bits - 8)) (bits - 8) (out @ [(acc div 2 ^ (bits - 8)) mod 256])
             else decode_loop cs acc bits out)"

definition base32_decode :: "nat list \<Rightarrow> nat list option" where
  "base32_decode text = decode_loop (filter (\<lambda>c. c \<noteq> 61 \<and> \<not> is_whitespace_code c) text) 0 0 []"

section \<open>Codes\<close>

text \<open>\<open>verify_key\<close>: the lengths first, then every byte.\<close>

definition ct_eq :: "string \<Rightarrow> string \<Rightarrow> bool" where
  "ct_eq a b = foldl (\<and>) True (map2 (=) a b)"

definition verify_key :: "string \<Rightarrow> string \<Rightarrow> bool" where
  "verify_key presented expected =
     (if length presented \<noteq> length expected then False else ct_eq presented expected)"

definition be_bytes :: "nat \<Rightarrow> nat list" where
  "be_bytes n = map (\<lambda>i. (n div 256 ^ (7 - i)) mod 256) [0..<8]"

definition hotp :: "(nat list \<Rightarrow> nat list \<Rightarrow> nat list) \<Rightarrow> nat list \<Rightarrow> nat \<Rightarrow> nat" where
  "hotp hmac secret counter =
     (let digest = hmac secret (be_bytes counter);
          offset = last digest mod 16;
          binary = (digest ! offset mod 128) * 2 ^ 24 + digest ! (offset + 1) * 2 ^ 16 +
                   digest ! (offset + 2) * 2 ^ 8 + digest ! (offset + 3)
      in binary mod 10 ^ DIGITS)"

definition step_at :: "nat \<Rightarrow> nat" where
  "step_at unix_seconds = unix_seconds div STEP_SECONDS"

definition code_at_step :: "(nat list \<Rightarrow> nat list \<Rightarrow> nat list) \<Rightarrow> nat list \<Rightarrow> nat \<Rightarrow> string" where
  "code_at_step hmac secret step =
     (let ds = show_nat (hotp hmac secret step) in replicate (DIGITS - length ds) (CHR ''0'') @ ds)"

fun match_steps :: "(nat \<Rightarrow> string) \<Rightarrow> string \<Rightarrow> nat option list \<Rightarrow> nat option \<Rightarrow> nat option" where
  "match_steps code presented [] matched = matched"
| "match_steps code presented (None # steps) matched = match_steps code presented steps matched"
| "match_steps code presented (Some step # steps) matched =
     match_steps code presented steps (if verify_key presented (code step) then Some step else matched)"

text \<open>\<open>checked_add_signed\<close> for the offsets around the current step.\<close>

definition checked_add_signed :: "nat \<Rightarrow> int \<Rightarrow> nat option" where
  "checked_add_signed n k =
     (let r = int n + k in if 0 \<le> r \<and> r \<le> int u64_max then Some (nat r) else None)"

definition verify_at ::
  "(nat list \<Rightarrow> nat list \<Rightarrow> nat list) \<Rightarrow> nat list \<Rightarrow> string \<Rightarrow> nat \<Rightarrow> nat option"
where
  "verify_at hmac secret presented unix_seconds =
     (let presented = trim presented
      in if length presented \<noteq> DIGITS \<or> \<not> list_all is_ascii_digit presented then None
         else
           let current = step_at unix_seconds
           in match_steps (code_at_step hmac secret) presented
                (map (checked_add_signed current) [- int SKEW_STEPS..int SKEW_STEPS]) None)"

section \<open>The enrolment address\<close>

definition hex_digit :: "string \<Rightarrow> nat \<Rightarrow> char" where
  "hex_digit alphabet n = alphabet ! (n mod 16)"

definition HEX_CHARS :: string where "HEX_CHARS = ''0123456789abcdef''"
definition HEX_UPPER :: string where "HEX_UPPER = ''0123456789ABCDEF''"

definition hex_encode :: "nat list \<Rightarrow> string" where
  "hex_encode bytes = concat (map (\<lambda>b. [hex_digit HEX_CHARS (b div 16), hex_digit HEX_CHARS b]) bytes)"

definition is_unreserved :: "char \<Rightarrow> bool" where
  "is_unreserved c = (is_ascii_alphanumeric c \<or> c \<in> {CHR ''-'', CHR ''.'', CHR ''_'', CHR ''~''})"

definition percent_encode :: "string \<Rightarrow> string" where
  "percent_encode text =
     concat (map (\<lambda>c. if is_unreserved c then [c]
                      else [CHR ''%'', hex_digit HEX_UPPER (byte c div 16), hex_digit HEX_UPPER (byte c)]) text)"

definition otpauth_uri :: "string \<Rightarrow> string \<Rightarrow> nat list \<Rightarrow> string" where
  "otpauth_uri issuer account secret =
     ''otpauth://totp/'' @ percent_encode (trim issuer) @ '':'' @ percent_encode (trim account) @
     ''?secret='' @ map char_of (base32_encode secret) @ ''&issuer='' @ percent_encode (trim issuer) @
     ''&algorithm=SHA1&digits='' @ show_nat DIGITS @ ''&period='' @ show_nat STEP_SECONDS"

section \<open>Base32 round trip\<close>

definition five :: "nat \<Rightarrow> nat \<Rightarrow> nat" where
  "five B i = (B div 2 ^ (35 - i * 5)) mod 32"

lemma find_alphabet: "v < 32 \<Longrightarrow> find_position (upper_code (BASE32_ALPHABET ! v) mod 256) BASE32_ALPHABET = Some v"
proof -
  have "\<forall>v\<in>set [0..<32]. find_position (upper_code (BASE32_ALPHABET ! v) mod 256) BASE32_ALPHABET = Some v"
    by code_simp
  then show "v < 32 \<Longrightarrow> ?thesis" by simp
qed

lemma alphabet_plain: "v < 32 \<Longrightarrow> BASE32_ALPHABET ! v \<noteq> 61 \<and> \<not> is_whitespace_code (BASE32_ALPHABET ! v)"
proof -
  have "\<forall>v\<in>set [0..<32]. BASE32_ALPHABET ! v \<noteq> 61 \<and> \<not> is_whitespace_code (BASE32_ALPHABET ! v)"
    by code_simp
  then show "v < 32 \<Longrightarrow> ?thesis" by simp
qed

lemma mod_step: "(x div 32 mod 2 ^ r) * 32 + x mod 32 = x mod 2 ^ (r + 5)" for x :: nat
proof -
  have "x mod (32 * 2 ^ r) = 32 * (x div 32 mod 2 ^ r) + x mod 32" by (rule mod_mult2_eq)
  then show ?thesis by (simp add: power_add mult.commute)
qed


text \<open>
  The decoder over the characters \<open>k..<n\<close> of a chunk: it holds the bits past the last whole byte and has
  put out the bytes before.
\<close>

definition byte_at :: "nat \<Rightarrow> nat \<Rightarrow> nat" where
  "byte_at B j = (B div 2 ^ (32 - j * 8)) mod 256"

lemma decode_char:
  assumes "k < 8"
  shows "decode_loop (BASE32_ALPHABET ! five B k # cs) ((B div 2 ^ (40 - 5 * k)) mod 2 ^ (5 * k mod 8)) (5 * k mod 8) out =
    decode_loop cs ((B div 2 ^ (40 - 5 * Suc k)) mod 2 ^ (5 * Suc k mod 8)) (5 * Suc k mod 8)
      (out @ map (byte_at B) [5 * k div 8..<5 * Suc k div 8])"
proof -
  define x where "x = B div 2 ^ (35 - 5 * k)"
  have x32: "x div 32 = B div 2 ^ (40 - 5 * k)"
  proof -
    have "(2 :: nat) ^ (40 - 5 * k) = 2 ^ (35 - 5 * k) * 32"
      using assms power_add [of "2 :: nat" "35 - 5 * k" 5] by (simp add: Suc_diff_le)
    then show ?thesis by (simp add: x_def div_mult2_eq)
  qed
  define r j where "r = 5 * k mod 8" and "j = 5 * k div 8"
  have kj: "5 * k = 8 * j + r" "r < 8" by (simp_all add: r_def j_def)
  have v: "five B k = x mod 32" "five B k < 32" by (simp_all add: five_def x_def mult.commute)
  have acc: "((B div 2 ^ (40 - 5 * k)) mod 2 ^ r * 32 + five B k) mod 2 ^ 32 = x mod 2 ^ (r + 5)"
  proof -
    have "x mod 2 ^ (r + 5) < 2 ^ (r + 5)" by simp
    also have "(2 :: nat) ^ (r + 5) \<le> 2 ^ 32" using kj(2) by (intro power_increasing) auto
    finally show ?thesis by (simp add: v(1) x32 [symmetric] mod_step)
  qed
  have step: "decode_loop (BASE32_ALPHABET ! five B k # cs) ((B div 2 ^ (40 - 5 * k)) mod 2 ^ r) r out =
      (if 8 \<le> r + 5 then
         decode_loop cs (x mod 2 ^ (r + 5) mod 2 ^ (r - 3)) (r - 3) (out @ [(x mod 2 ^ (r + 5) div 2 ^ (r - 3)) mod 256])
       else decode_loop cs (x mod 2 ^ (r + 5)) (r + 5) out)"
    using find_alphabet [OF v(2)] acc by (simp add: Let_def)
  have shifted: "B div 2 ^ (40 - 5 * Suc k) = x" by (simp add: x_def)
  show ?thesis
  proof (cases "8 \<le> r + 5")
    case True
    then have e: "5 * Suc k = r - 3 + 8 * Suc j" using kj(1) by simp
    have nx: "5 * Suc k mod 8 = r - 3" "5 * Suc k div 8 = Suc j"
      unfolding e using kj(2) by (simp_all del: mult_Suc_right)
    have split: "(2 :: nat) ^ (r + 5) = 2 ^ (r - 3) * 256"
      using True power_add [of "2 :: nat" "r - 3" 8] by (simp add: add.commute)
    have "x mod 2 ^ (r + 5) mod 2 ^ (r - 3) = x mod 2 ^ (r - 3)"
      unfolding split by (simp add: mod_mult2_eq)
    moreover have "(x mod 2 ^ (r + 5) div 2 ^ (r - 3)) mod 256 = byte_at B j"
    proof -
      have "x mod 2 ^ (r + 5) div 2 ^ (r - 3) = x div 2 ^ (r - 3) mod 256"
        unfolding split by (simp add: mod_mult2_eq)
      moreover have "x div 2 ^ (r - 3) = B div 2 ^ (32 - j * 8)"
      proof -
        have "35 - 5 * k + (r - 3) = 32 - j * 8" using kj(1) True assms by simp
        then show ?thesis by (simp add: x_def div_mult2_eq [symmetric] power_add [symmetric])
      qed
      ultimately show ?thesis by (simp add: byte_at_def)
    qed
    ultimately show ?thesis
      using True unfolding r_def [symmetric] step shifted nx j_def [symmetric] by simp
  next
    case False
    have e: "5 * Suc k = r + 5 + 8 * j" using kj(1) by simp
    have nx: "5 * Suc k mod 8 = r + 5" "5 * Suc k div 8 = j"
      unfolding e using False by simp_all
    show ?thesis
      using False unfolding r_def [symmetric] step shifted nx j_def [symmetric] by simp
  qed
qed


lemma decode_chars:
  assumes "k \<le> n" "n \<le> 8"
  shows "decode_loop (map (\<lambda>i. BASE32_ALPHABET ! five B i) [k..<n] @ cs)
      ((B div 2 ^ (40 - 5 * k)) mod 2 ^ (5 * k mod 8)) (5 * k mod 8) out =
    decode_loop cs ((B div 2 ^ (40 - 5 * n)) mod 2 ^ (5 * n mod 8)) (5 * n mod 8)
      (out @ map (byte_at B) [5 * k div 8..<5 * n div 8])"
  using assms
proof (induction "n - k" arbitrary: k out)
  case 0
  then show ?case by simp
next
  case (Suc d)
  then have k: "k < n" "k < 8" by auto
  have "[k..<n] = k # [Suc k..<n]" using k(1) by (simp add: upt_rec)
  moreover have "[5 * k div 8..<5 * n div 8] = [5 * k div 8..<5 * Suc k div 8] @ [5 * Suc k div 8..<5 * n div 8]"
  proof -
    have "5 * k div 8 \<le> 5 * Suc k div 8" "5 * Suc k div 8 \<le> 5 * n div 8" using k(1) by (auto intro!: div_le_mono)
    then show ?thesis using upt_add_eq_append [of "5 * k div 8" "5 * Suc k div 8" "5 * n div 8 - 5 * Suc k div 8"] by simp
  qed
  ultimately show ?case
    using Suc.hyps(1) [of "Suc k"] Suc.hyps(2) Suc.prems k decode_char [OF k(2)] by simp
qed

definition big_endian :: "nat list \<Rightarrow> nat" where
  "big_endian bs = foldl (\<lambda>acc b. acc * 256 + b) 0 bs"

lemma big_endian_snoc [simp]: "big_endian (bs @ [b]) = big_endian bs * 256 + b"
  by (simp add: big_endian_def)

lemma big_endian_div: "list_all (\<lambda>b. b < 256) ys \<Longrightarrow> big_endian (xs @ ys) div 256 ^ length ys = big_endian xs"
proof (induction ys arbitrary: xs)
  case (Cons y ys)
  then have "big_endian ((xs @ [y]) @ ys) div 256 ^ length ys = big_endian (xs @ [y])" by (simp del: big_endian_snoc append_assoc)
  then have "big_endian (xs @ y # ys) div 256 ^ length ys div 256 = big_endian xs" using Cons.prems by simp
  then show ?case by (simp add: div_mult2_eq [symmetric] mult.commute)
qed simp

lemma big_endian_byte:
  assumes "list_all (\<lambda>b. b < 256) bs" "j < length bs"
  shows "big_endian bs div 256 ^ (length bs - Suc j) mod 256 = bs ! j"
proof -
  have "bs = (take j bs @ [bs ! j]) @ drop (Suc j) bs" using assms(2) by (simp add: id_take_nth_drop [symmetric])
  moreover have "list_all (\<lambda>b. b < 256) (drop (Suc j) bs)" using assms(1) by (auto simp: list_all_iff dest: in_set_dropD)
  ultimately have "big_endian bs div 256 ^ length (drop (Suc j) bs) = big_endian (take j bs @ [bs ! j])"
    using big_endian_div [of "drop (Suc j) bs" "take j bs @ [bs ! j]"] by simp
  then show ?thesis using assms by (simp add: list_all_length)
qed

lemma chunk_bytes:
  assumes "length chunk \<le> 5" "list_all (\<lambda>b. b < 256) chunk"
  shows "map (byte_at (chunk_bits chunk)) [0..<length chunk] = chunk"
proof (rule nth_equalityI)
  fix j assume "j < length (map (byte_at (chunk_bits chunk)) [0..<length chunk])"
  then have j: "j < length chunk" by simp
  define bs where "bs = chunk @ replicate (5 - length chunk) 0"
  have bs: "length bs = 5" "list_all (\<lambda>b. b < 256) bs" using assms by (auto simp: bs_def list_all_iff)
  have "(2 :: nat) ^ (32 - j * 8) = 256 ^ (5 - Suc j)"
    using j assms(1) power_mult [of "2 :: nat" 8 "4 - j"] by (simp add: diff_mult_distrib2 mult.commute)
  then have "byte_at (chunk_bits chunk) j = bs ! j"
    using big_endian_byte [OF bs(2), of j] j assms(1) bs(1) by (simp add: byte_at_def chunk_bits_def big_endian_def bs_def)
  then show "map (byte_at (chunk_bits chunk)) [0..<length chunk] ! j = chunk ! j"
    using j by (simp add: bs_def nth_append)
qed simp


lemma encode_chunk_five: "encode_chunk chunk =
    map (\<lambda>i. BASE32_ALPHABET ! five (chunk_bits chunk) i) [0..<div_ceil (length chunk * 8) 5]"
  by (simp add: encode_chunk_def five_def Let_def)

lemma encode_plain: "c \<in> set (base32_encode bs) \<Longrightarrow> c \<noteq> 61 \<and> \<not> is_whitespace_code c"
proof (induction bs rule: base32_encode.induct)
  case (2 b bs)
  have "c \<noteq> 61 \<and> \<not> is_whitespace_code c" if "c \<in> set (encode_chunk chunk)" for chunk
    using that alphabet_plain by (auto simp: encode_chunk_five five_def)
  with 2 show ?case by auto
qed simp

lemma decode_chunk:
  assumes "length chunk \<le> 5" "list_all (\<lambda>b. b < 256) chunk"
  shows "decode_loop (encode_chunk chunk @ cs) 0 0 out =
    decode_loop cs ((chunk_bits chunk div 2 ^ (40 - 5 * div_ceil (length chunk * 8) 5)) mod
      2 ^ (5 * div_ceil (length chunk * 8) 5 mod 8)) (5 * div_ceil (length chunk * 8) 5 mod 8) (out @ chunk)"
proof -
  have n: "div_ceil (length chunk * 8) 5 \<le> 8" "5 * div_ceil (length chunk * 8) 5 div 8 = length chunk"
  proof -
    have "length chunk = 0 \<or> length chunk = 1 \<or> length chunk = 2 \<or> length chunk = 3 \<or> length chunk = 4 \<or> length chunk = 5"
      using assms(1) by linarith
    then show "div_ceil (length chunk * 8) 5 \<le> 8" "5 * div_ceil (length chunk * 8) 5 div 8 = length chunk"
      by (auto simp: div_ceil_def)
  qed
  show ?thesis
    using decode_chars [OF le0 n(1), of "chunk_bits chunk" cs out] chunk_bytes [OF assms] n(2)
    by (simp add: encode_chunk_five)
qed

lemma decode_encode:
  "list_all (\<lambda>b. b < 256) bs \<Longrightarrow> decode_loop (base32_encode bs) 0 0 out = Some (out @ bs)"
proof (induction bs arbitrary: out rule: base32_encode.induct)
  case (2 b bs)
  let ?c = "take 5 (b # bs)" and ?d = "drop 5 (b # bs)"
  have all: "list_all (\<lambda>b. b < 256) ?c" "list_all (\<lambda>b. b < 256) ?d"
    using "2.prems" by (auto simp: list_all_iff dest: in_set_takeD in_set_dropD)
  have len: "length ?c \<le> 5" by simp
  show ?case
  proof (cases "length ?c = 5")
    case True
    then have "decode_loop (encode_chunk ?c @ base32_encode ?d) 0 0 out = decode_loop (base32_encode ?d) 0 0 (out @ ?c)"
      using decode_chunk [OF len all(1), of "base32_encode ?d" out] by (simp add: div_ceil_def)
    also have "\<dots> = Some ((out @ ?c) @ ?d)" by (rule "2.IH" [OF all(2)])
    finally show ?thesis by simp
  next
    case False
    then have "?d = []" by simp
    then show ?thesis using decode_chunk [OF len all(1), of "[]" out] append_take_drop_id [of 5 "b # bs"] by simp
  qed
qed simp

text \<open>
  A secret survives its base32. Decoding what \<open>base32_encode\<close> writes gives back the bytes, for a
  secret of any length.
\<close>

theorem base32_roundtrip:
  assumes "list_all (\<lambda>b. b < 256) bs"
  shows "base32_decode (base32_encode bs) = Some bs"
proof -
  have "filter (\<lambda>c. c \<noteq> 61 \<and> \<not> is_whitespace_code c) (base32_encode bs) = base32_encode bs"
    using encode_plain by (auto simp: filter_id_conv)
  then show ?thesis using decode_encode [OF assms, of "[]"] by (simp add: base32_decode_def)
qed

lemma base32_roundtrip_witness:
  "base32_decode (base32_encode [102, 111, 111, 98, 97, 114]) = Some [102, 111, 111, 98, 97, 114] \<and>
   base32_encode [102, 111, 111, 98, 97, 114] = map of_char ''MZXW6YTBOI''"
proof
  show "base32_decode (base32_encode [102, 111, 111, 98, 97, 114]) = Some [102, 111, 111, 98, 97, 114]"
    by (rule base32_roundtrip) simp
  show "base32_encode [102, 111, 111, 98, 97, 114] = map of_char ''MZXW6YTBOI''" by code_simp
qed

text \<open>
  A character is narrowed to a byte before it is looked up, so characters far outside the alphabet are
  read as the letter their low byte spells: two of U+0141 decode as \<open>AA\<close> does.
\<close>

lemma base32_accepts_foreign_letters:
  "base32_decode [0x141, 0x141] = Some [0] \<and> base32_decode (map of_char ''AA'') = Some [0]"
  by code_simp


section \<open>Which codes are accepted\<close>

lemma verify_key_eq: "verify_key a b \<longleftrightarrow> a = b"
proof -
  have "foldl (\<and>) c bs = (c \<and> list_all (\<lambda>b. b) bs)" for c bs by (induction bs arbitrary: c) auto
  then show ?thesis
    by (auto simp: verify_key_def ct_eq_def list_all_length intro!: nth_equalityI)
qed

lemma show_nat_length: "n < 10 ^ Suc k \<Longrightarrow> length (show_nat n) \<le> Suc k"
proof (induction k arbitrary: n)
  case 0
  then show ?case by (simp add: show_nat.simps)
next
  case (Suc k)
  then have "n div 10 < 10 ^ Suc k" by (simp add: less_mult_imp_div_less)
  with Suc.IH show ?case by (simp add: show_nat.simps [of n])
qed

lemma show_nat_digits: "list_all is_ascii_digit (show_nat n)"
proof (induction n rule: show_nat.induct)
  case (1 n)
  have "is_ascii_digit (char_of (48 + d))" if "d < 10" for d :: nat
    using that by (simp add: is_ascii_digit_def)
  with 1 show ?case by (simp add: show_nat.simps [of n])
qed

text \<open>Every code has six digits.\<close>

lemma code_shape:
  "length (code_at_step hmac secret step) = DIGITS \<and> list_all is_ascii_digit (code_at_step hmac secret step)"
proof -
  have "hotp hmac secret step < 10 ^ Suc 5" by (simp add: hotp_def DIGITS_def Let_def)
  from show_nat_length [OF this] show ?thesis
    using show_nat_digits [of "hotp hmac secret step"]
    by (auto simp: code_at_step_def DIGITS_def Let_def list_all_iff is_ascii_digit_def)
qed

lemma match_steps_last:
  "match_steps code p steps matched =
     (case filter (\<lambda>s. code s = p) (List.map_filter id steps) of [] \<Rightarrow> matched | ms \<Rightarrow> Some (last ms))"
proof (induction steps arbitrary: matched)
  case (Cons s steps)
  then show ?case by (cases s) (auto simp: map_filter_simps verify_key_eq split: list.splits)
qed (simp add: map_filter_simps)

definition skew_window :: "nat \<Rightarrow> nat list" where
  "skew_window c = (if c = 0 then [0, 1] else [c - 1, c, c + 1])"

lemma skew_steps:
  assumes "c < u64_max"
  shows "List.map_filter id (map (checked_add_signed c) [- int SKEW_STEPS..int SKEW_STEPS]) = skew_window c"
proof -
  have "[- int SKEW_STEPS..int SKEW_STEPS] = [-1, 0, 1]" by (simp add: SKEW_STEPS_def upto.simps)
  then show ?thesis
    using assms by (auto simp: checked_add_signed_def map_filter_simps skew_window_def nat_add_distrib nat_diff_distrib)
qed

text \<open>
  Which one-time codes are accepted, and as which step. A presented code matches exactly when,
  trimmed, it is the code of the current step, the one before or the one after (there is none before
  the first), and the step reported is the latest of them, so the caller's replay check compares
  against the newest step the code is good for.
\<close>

theorem verify_at_spec:
  assumes "unix_seconds \<le> u64_max"
  shows "verify_at hmac secret presented unix_seconds =
    (case filter (\<lambda>s. code_at_step hmac secret s = trim presented) (skew_window (step_at unix_seconds)) of
       [] \<Rightarrow> None | ms \<Rightarrow> Some (last ms))"
proof -
  have c: "step_at unix_seconds < u64_max" using assms by (simp add: step_at_def STEP_SECONDS_def u64_max_def)
  show ?thesis
  proof (cases "length (trim presented) \<noteq> DIGITS \<or> \<not> list_all is_ascii_digit (trim presented)")
    case True
    then have "code_at_step hmac secret s \<noteq> trim presented" for s using code_shape [of hmac secret s] by metis
    with True show ?thesis by (simp add: verify_at_def Let_def)
  next
    case False
    then show ?thesis by (simp add: verify_at_def Let_def match_steps_last skew_steps [OF c])
  qed
qed

definition sample_hmac :: "nat list \<Rightarrow> nat list \<Rightarrow> nat list" where
  "sample_hmac key msg = replicate 19 (last msg) @ [3]"

lemma verify_at_spec_witness:
  "verify_at sample_hmac [1] (code_at_step sample_hmac [1] 2) 95 = Some 2"
proof -
  have u: "(95 :: nat) \<le> u64_max" by (simp add: u64_max_def)
  have "filter (\<lambda>s. code_at_step sample_hmac [1] s = trim (code_at_step sample_hmac [1] 2)) (skew_window (step_at 95)) = [2]"
    by code_simp
  with verify_at_spec [OF u, of sample_hmac "[1]" "code_at_step sample_hmac [1] 2"] show ?thesis by simp
qed

section \<open>Nothing of the enrolment address is misread\<close>

definition hex_value :: "char \<Rightarrow> nat" where
  "hex_value c = (if is_ascii_digit c then byte c - 48 else byte c - 55)"

fun percent_decode :: "string \<Rightarrow> string" where
  "percent_decode [] = []"
| "percent_decode (c # cs) =
     (if c = CHR ''%'' then
        case cs of
          h # l # rest \<Rightarrow> char_of (hex_value h * 16 + hex_value l) # percent_decode rest
        | _ \<Rightarrow> c # percent_decode cs
      else c # percent_decode cs)"

lemma hex_value_digit: "n < 16 \<Longrightarrow> hex_value (hex_digit HEX_UPPER n) = n"
proof -
  have "\<forall>n\<in>set [0..<16]. hex_value (hex_digit HEX_UPPER n) = n" by code_simp
  then show "n < 16 \<Longrightarrow> ?thesis" by simp
qed

text \<open>
  An issuer or account name reaches the enrolment address intact: it is written with unreserved
  characters and percent escapes only, so no character of it can end the label or start a parameter,
  and decoding the escapes gives the name back.
\<close>

theorem percent_encode_spec:
  "percent_decode (percent_encode name) = name \<and>
   list_all (\<lambda>c. is_unreserved c \<or> c = CHR ''%'') (percent_encode name)"
proof
  have enc: "percent_encode (c # cs) =
      (if is_unreserved c then [c]
       else [CHR ''%'', hex_digit HEX_UPPER (byte c div 16), hex_digit HEX_UPPER (byte c mod 16)]) @ percent_encode cs" for c cs
    by (simp add: percent_encode_def hex_digit_def)
  have percent: "\<not> is_unreserved (CHR ''%'')" by code_simp
  show "percent_decode (percent_encode name) = name"
  proof (induction name)
    case (Cons c cs)
    have "(of_char c :: nat) < 256" by (metis of_char_mod_256 mod_less_divisor zero_less_numeral)
    then have "byte c < 256" by simp
    then have "byte c div 16 < 16" by (simp add: less_mult_imp_div_less)
    then show ?case
      using Cons percent by (cases "is_unreserved c") (auto simp: enc hex_value_digit)
  qed (simp add: percent_encode_def)
  have "\<forall>n\<in>set [0..<16]. is_unreserved (hex_digit HEX_UPPER n)" by code_simp
  then have "is_unreserved (hex_digit HEX_UPPER n)" for n by (simp add: hex_digit_def)
  then show "list_all (\<lambda>c. is_unreserved c \<or> c = CHR ''%'') (percent_encode name)"
    by (auto simp: percent_encode_def list_all_iff)
qed

end
