(* ===== verification/Mfa_Store.thy ===== *)
theory Mfa_Store
  imports Prelude Strings Secret_Env Totp
begin

text \<open>
  The tables behind the second factor and the statements that read and write them
  (\<open>rolter-store/src/postgres/repo/mfa.rs\<close>, the session statements of \<open>repo/auth.rs\<close>). A statement is
  one atomic step on the tables, as it is in Postgres; a transaction of several statements is one
  step. A factor and its user are one row (primary key \<open>user_id\<close>), a challenge and a session are found by
  the digest of their token, which is unique. Timestamps are microseconds.
\<close>

section \<open>Rows\<close>

type_synonym uuid = nat
type_synonym timestamp = nat

datatype challenge_purpose = Verify | Enrol

fun purpose_as_str :: "challenge_purpose \<Rightarrow> string" where
  "purpose_as_str Verify = ''verify''"
| "purpose_as_str Enrol = ''enrol''"

record sealed_factor =
  sf_ciphertext :: "nat list"
  sf_nonce :: "nat list"
  sf_confirmed_at :: "timestamp option"
  sf_last_used_step :: "nat option"

record recovery_row =
  rr_user :: uuid
  rr_code_hash :: string
  rr_used_at :: "timestamp option"

record mfa_challenge =
  mc_user :: uuid
  mc_token_hash :: string
  mc_attempts :: nat
  mc_expires_at :: timestamp
  mc_purpose :: challenge_purpose
  mc_after_lock :: bool

record session_row =
  sr_user :: uuid
  sr_token_hash :: string
  sr_expires_at :: timestamp
  sr_last_seen_at :: timestamp

record audit_row =
  au_user :: uuid
  au_action :: string

record mfa_db =
  db_factors :: "(uuid, sealed_factor) hash_map"
  db_codes :: "recovery_row list"
  db_challenges :: "mfa_challenge list"
  db_sessions :: "session_row list"
  db_audit :: "audit_row list"

section \<open>The factor\<close>

definition pending_factor :: "nat list \<Rightarrow> nat list \<Rightarrow> sealed_factor" where
  "pending_factor c n =
     \<lparr>sf_ciphertext = c, sf_nonce = n, sf_confirmed_at = None, sf_last_used_step = None\<rparr>"

definition set_factor :: "uuid \<Rightarrow> sealed_factor \<Rightarrow> mfa_db \<Rightarrow> mfa_db" where
  "set_factor u f db = db\<lparr>db_factors := hm_insert u f (db_factors db)\<rparr>"

definition factor_of :: "mfa_db \<Rightarrow> uuid \<Rightarrow> sealed_factor option" where
  "factor_of db u = hm_get (db_factors db) u"

definition repo_begin_enrolment :: "uuid \<Rightarrow> nat list \<Rightarrow> nat list \<Rightarrow> mfa_db \<Rightarrow> bool \<times> mfa_db" where
  "repo_begin_enrolment u c n db =
     (case factor_of db u of
        Some f \<Rightarrow> if sf_confirmed_at f \<noteq> None then (False, db) else (True, set_factor u (pending_factor c n) db)
      | None \<Rightarrow> (True, set_factor u (pending_factor c n) db))"

definition repo_has_armed_factor :: "uuid \<Rightarrow> mfa_db \<Rightarrow> bool" where
  "repo_has_armed_factor u db = (case factor_of db u of Some f \<Rightarrow> sf_confirmed_at f \<noteq> None | None \<Rightarrow> False)"

definition repo_confirm :: "timestamp \<Rightarrow> uuid \<Rightarrow> nat \<Rightarrow> nat list \<Rightarrow> mfa_db \<Rightarrow> bool \<times> mfa_db" where
  "repo_confirm now u step n db =
     (case factor_of db u of
        Some f \<Rightarrow>
          if sf_nonce f = n then
            (True, set_factor u
               (f\<lparr>sf_confirmed_at := Some (case sf_confirmed_at f of Some t \<Rightarrow> t | None \<Rightarrow> now),
                  sf_last_used_step := Some step\<rparr>) db)
          else (False, db)
      | None \<Rightarrow> (False, db))"

definition repo_spend_step :: "uuid \<Rightarrow> nat \<Rightarrow> mfa_db \<Rightarrow> bool \<times> mfa_db" where
  "repo_spend_step u step db =
     (case factor_of db u of
        Some f \<Rightarrow>
          if (case sf_last_used_step f of None \<Rightarrow> True | Some l \<Rightarrow> l < step) then
            (True, set_factor u (f\<lparr>sf_last_used_step := Some step\<rparr>) db)
          else (False, db)
      | None \<Rightarrow> (False, db))"

definition repo_disable :: "uuid \<Rightarrow> mfa_db \<Rightarrow> bool \<times> mfa_db" where
  "repo_disable u db =
     (factor_of db u \<noteq> None,
      db\<lparr>db_codes := filter (\<lambda>r. rr_user r \<noteq> u) (db_codes db),
         db_factors := hm_remove u (db_factors db)\<rparr>)"

section \<open>Recovery codes\<close>

text \<open>A digest is unique in the table, so a colliding batch fails as a whole.\<close>

definition repo_replace_recovery_codes :: "uuid \<Rightarrow> string list \<Rightarrow> mfa_db \<Rightarrow> mfa_db option" where
  "repo_replace_recovery_codes u hs db =
     (let kept = filter (\<lambda>r. rr_user r \<noteq> u) (db_codes db)
      in if distinct (map rr_code_hash kept @ hs) then
           Some (db\<lparr>db_codes := kept @ map (\<lambda>h. \<lparr>rr_user = u, rr_code_hash = h, rr_used_at = None\<rparr>) hs\<rparr>)
         else None)"

definition live_code :: "uuid \<Rightarrow> string \<Rightarrow> recovery_row \<Rightarrow> bool" where
  "live_code u h r = (rr_user r = u \<and> rr_code_hash r = h \<and> rr_used_at r = None)"

definition repo_consume_recovery_code :: "timestamp \<Rightarrow> uuid \<Rightarrow> string \<Rightarrow> mfa_db \<Rightarrow> bool \<times> mfa_db" where
  "repo_consume_recovery_code now u h db =
     (list_ex (live_code u h) (db_codes db),
      db\<lparr>db_codes := map (\<lambda>r. if live_code u h r then r\<lparr>rr_used_at := Some now\<rparr> else r) (db_codes db)\<rparr>)"

definition repo_remaining_recovery_codes :: "uuid \<Rightarrow> mfa_db \<Rightarrow> nat" where
  "repo_remaining_recovery_codes u db =
     length (filter (\<lambda>r. rr_user r = u \<and> rr_used_at r = None) (db_codes db))"

section \<open>Challenges\<close>

definition repo_create_challenge ::
  "uuid \<Rightarrow> string \<Rightarrow> timestamp \<Rightarrow> challenge_purpose \<Rightarrow> bool \<Rightarrow> mfa_db \<Rightarrow> mfa_db option"
where
  "repo_create_challenge u h expires purpose after_lock db =
     (if h \<in> set (map mc_token_hash (db_challenges db)) then None
      else Some (db\<lparr>db_challenges := db_challenges db @
             [\<lparr>mc_user = u, mc_token_hash = h, mc_attempts = 0, mc_expires_at = expires,
               mc_purpose = purpose, mc_after_lock = after_lock\<rparr>]\<rparr>))"

definition live_row :: "timestamp \<Rightarrow> string \<Rightarrow> challenge_purpose \<Rightarrow> nat \<Rightarrow> mfa_challenge \<Rightarrow> bool" where
  "live_row now h purpose max_attempts c =
     (mc_token_hash c = h \<and> mc_purpose c = purpose \<and> now < mc_expires_at c \<and> mc_attempts c < max_attempts)"

definition charged :: "mfa_challenge \<Rightarrow> mfa_challenge" where
  "charged c = c\<lparr>mc_attempts := mc_attempts c + 1\<rparr>"

definition repo_charge_challenge_attempt ::
  "timestamp \<Rightarrow> string \<Rightarrow> challenge_purpose \<Rightarrow> nat \<Rightarrow> mfa_db \<Rightarrow> mfa_challenge option \<times> mfa_db"
where
  "repo_charge_challenge_attempt now h purpose max_attempts db =
     (map_option charged (find (live_row now h purpose max_attempts) (db_challenges db)),
      db\<lparr>db_challenges :=
           map (\<lambda>c. if live_row now h purpose max_attempts c then charged c else c) (db_challenges db)\<rparr>)"

definition repo_live_challenge ::
  "timestamp \<Rightarrow> string \<Rightarrow> challenge_purpose \<Rightarrow> nat \<Rightarrow> mfa_db \<Rightarrow> mfa_challenge option"
where
  "repo_live_challenge now h purpose max_attempts db =
     find (live_row now h purpose max_attempts) (db_challenges db)"

definition takeable :: "timestamp \<Rightarrow> string \<Rightarrow> challenge_purpose \<Rightarrow> mfa_challenge \<Rightarrow> bool" where
  "takeable now h purpose c = (mc_token_hash c = h \<and> mc_purpose c = purpose \<and> now < mc_expires_at c)"

definition repo_take_challenge ::
  "timestamp \<Rightarrow> string \<Rightarrow> challenge_purpose \<Rightarrow> mfa_db \<Rightarrow> mfa_challenge option \<times> mfa_db"
where
  "repo_take_challenge now h purpose db =
     (find (takeable now h purpose) (db_challenges db),
      db\<lparr>db_challenges := filter (\<lambda>c. \<not> takeable now h purpose c) (db_challenges db)\<rparr>)"

definition repo_delete_challenge :: "string \<Rightarrow> mfa_db \<Rightarrow> mfa_db" where
  "repo_delete_challenge h db = db\<lparr>db_challenges := filter (\<lambda>c. mc_token_hash c \<noteq> h) (db_challenges db)\<rparr>"

definition repo_delete_challenges_for_user :: "uuid \<Rightarrow> mfa_db \<Rightarrow> nat \<times> mfa_db" where
  "repo_delete_challenges_for_user u db =
     (length (filter (\<lambda>c. mc_user c = u) (db_challenges db)),
      db\<lparr>db_challenges := filter (\<lambda>c. mc_user c \<noteq> u) (db_challenges db)\<rparr>)"

text \<open>The oldest \<open>max_rows\<close> of the expired rows go.\<close>

definition repo_sweep_expired_challenges :: "timestamp \<Rightarrow> nat \<Rightarrow> mfa_db \<Rightarrow> nat \<times> mfa_db" where
  "repo_sweep_expired_challenges now max_rows db =
     (let expired = filter (\<lambda>c. mc_expires_at c \<le> now) (db_challenges db);
          gone = map mc_token_hash (take max_rows (sort_key mc_expires_at expired))
      in (length gone,
          db\<lparr>db_challenges := filter (\<lambda>c. mc_token_hash c \<notin> set gone) (db_challenges db)\<rparr>))"

section \<open>Sessions\<close>

definition repo_create_session :: "timestamp \<Rightarrow> uuid \<Rightarrow> string \<Rightarrow> timestamp \<Rightarrow> mfa_db \<Rightarrow> mfa_db option" where
  "repo_create_session now u h expires db =
     (if h \<in> set (map sr_token_hash (db_sessions db)) then None
      else Some (db\<lparr>db_sessions := db_sessions db @
             [\<lparr>sr_user = u, sr_token_hash = h, sr_expires_at = expires, sr_last_seen_at = now\<rparr>]\<rparr>))"

definition active_session :: "timestamp \<Rightarrow> string \<Rightarrow> session_row \<Rightarrow> bool" where
  "active_session now h s = (sr_token_hash s = h \<and> now < sr_expires_at s)"

definition repo_find_active_by_hash :: "timestamp \<Rightarrow> string \<Rightarrow> mfa_db \<Rightarrow> session_row option \<times> mfa_db" where
  "repo_find_active_by_hash now h db =
     (map_option (\<lambda>s. s\<lparr>sr_last_seen_at := now\<rparr>) (find (active_session now h) (db_sessions db)),
      db\<lparr>db_sessions := map (\<lambda>s. if active_session now h s then s\<lparr>sr_last_seen_at := now\<rparr> else s) (db_sessions db)\<rparr>)"

definition repo_delete_by_hash :: "string \<Rightarrow> mfa_db \<Rightarrow> mfa_db" where
  "repo_delete_by_hash h db = db\<lparr>db_sessions := filter (\<lambda>s. sr_token_hash s \<noteq> h) (db_sessions db)\<rparr>"

definition repo_delete_for_user :: "uuid \<Rightarrow> mfa_db \<Rightarrow> mfa_db" where
  "repo_delete_for_user u db = db\<lparr>db_sessions := filter (\<lambda>s. sr_user s \<noteq> u) (db_sessions db)\<rparr>"

definition repo_delete_for_user_except :: "uuid \<Rightarrow> string option \<Rightarrow> mfa_db \<Rightarrow> nat \<times> mfa_db" where
  "repo_delete_for_user_except u keep db =
     (let gone = (\<lambda>s. sr_user s = u \<and> (case keep of None \<Rightarrow> True | Some h \<Rightarrow> sr_token_hash s \<noteq> h))
      in (length (filter gone (db_sessions db)),
          db\<lparr>db_sessions := filter (\<lambda>s. \<not> gone s) (db_sessions db)\<rparr>))"

section \<open>Statements\<close>

text \<open>
  What a request may ask of the database. The tables of users and policies are written by other parts
  of the control plane: a read of them sees whatever they hold at that moment (\<open>other_tables\<close>).
  Deleting a user removes its rows everywhere (\<open>on delete cascade\<close>).
\<close>

record control_user =
  cu_email :: string
  cu_is_superadmin :: bool
  cu_deactivated_at :: "timestamp option"

record mfa_policy_binding =
  pb_policy :: string
  pb_enforce_after :: "timestamp option"

record other_tables =
  ot_users :: "uuid \<Rightarrow> control_user option"
  ot_policies :: "uuid \<Rightarrow> mfa_policy_binding list"

datatype stmt =
    BeginEnrolment uuid "nat list" "nat list"
  | OpenSecret uuid
  | HasArmedFactor uuid
  | Confirm uuid nat "nat list"
  | SpendStep uuid nat
  | Disable uuid
  | ReplaceRecoveryCodes uuid "string list"
  | ConsumeRecoveryCode uuid string
  | RemainingRecoveryCodes uuid
  | CreateChallenge uuid string timestamp challenge_purpose bool
  | ChargeChallengeAttempt string challenge_purpose nat
  | LiveChallenge string challenge_purpose nat
  | TakeChallenge string challenge_purpose
  | DeleteChallenge string
  | DeleteChallengesForUser uuid
  | SweepExpiredChallenges nat
  | CreateSession uuid string timestamp
  | FindActiveByHash string
  | DeleteByHash string
  | DeleteForUser uuid
  | DeleteForUserExcept uuid "string option"
  | GetUser uuid
  | MfaPoliciesForUser uuid
  | DeleteUser uuid
  | AuditCreate uuid string

datatype resp =
    RFailed
  | RDone
  | RFlag bool
  | RCount nat
  | RFactor "sealed_factor option"
  | RChallenge "mfa_challenge option"
  | RSession "session_row option"
  | RUser "control_user option"
  | RPolicies "mfa_policy_binding list"

definition inserted :: "mfa_db option \<Rightarrow> mfa_db \<Rightarrow> resp \<times> mfa_db" where
  "inserted r db = (case r of None \<Rightarrow> (RFailed, db) | Some db \<Rightarrow> (RDone, db))"

fun exec_stmt :: "other_tables \<Rightarrow> timestamp \<Rightarrow> stmt \<Rightarrow> mfa_db \<Rightarrow> resp \<times> mfa_db" where
  "exec_stmt ot now (BeginEnrolment u c n) db = apfst RFlag (repo_begin_enrolment u c n db)"
| "exec_stmt ot now (OpenSecret u) db = (RFactor (factor_of db u), db)"
| "exec_stmt ot now (HasArmedFactor u) db = (RFlag (repo_has_armed_factor u db), db)"
| "exec_stmt ot now (Confirm u step n) db = apfst RFlag (repo_confirm now u step n db)"
| "exec_stmt ot now (SpendStep u step) db = apfst RFlag (repo_spend_step u step db)"
| "exec_stmt ot now (Disable u) db = apfst RFlag (repo_disable u db)"
| "exec_stmt ot now (ReplaceRecoveryCodes u hs) db = inserted (repo_replace_recovery_codes u hs db) db"
| "exec_stmt ot now (ConsumeRecoveryCode u h) db = apfst RFlag (repo_consume_recovery_code now u h db)"
| "exec_stmt ot now (RemainingRecoveryCodes u) db = (RCount (repo_remaining_recovery_codes u db), db)"
| "exec_stmt ot now (CreateChallenge u h e p a) db = inserted (repo_create_challenge u h e p a db) db"
| "exec_stmt ot now (ChargeChallengeAttempt h p m) db = apfst RChallenge (repo_charge_challenge_attempt now h p m db)"
| "exec_stmt ot now (LiveChallenge h p m) db = (RChallenge (repo_live_challenge now h p m db), db)"
| "exec_stmt ot now (TakeChallenge h p) db = apfst RChallenge (repo_take_challenge now h p db)"
| "exec_stmt ot now (DeleteChallenge h) db = (RDone, repo_delete_challenge h db)"
| "exec_stmt ot now (DeleteChallengesForUser u) db = apfst RCount (repo_delete_challenges_for_user u db)"
| "exec_stmt ot now (SweepExpiredChallenges m) db = apfst RCount (repo_sweep_expired_challenges now m db)"
| "exec_stmt ot now (CreateSession u h e) db = inserted (repo_create_session now u h e db) db"
| "exec_stmt ot now (FindActiveByHash h) db = apfst RSession (repo_find_active_by_hash now h db)"
| "exec_stmt ot now (DeleteByHash h) db = (RDone, repo_delete_by_hash h db)"
| "exec_stmt ot now (DeleteForUser u) db = (RDone, repo_delete_for_user u db)"
| "exec_stmt ot now (DeleteForUserExcept u keep) db = apfst RCount (repo_delete_for_user_except u keep db)"
| "exec_stmt ot now (GetUser u) db = (RUser (ot_users ot u), db)"
| "exec_stmt ot now (MfaPoliciesForUser u) db = (RPolicies (ot_policies ot u), db)"
| "exec_stmt ot now (DeleteUser u) db =
     (RDone, snd (repo_delete_challenges_for_user u (repo_delete_for_user u (snd (repo_disable u db)))))"
| "exec_stmt ot now (AuditCreate u action) db =
     (RDone, db\<lparr>db_audit := db_audit db @ [\<lparr>au_user = u, au_action = action\<rparr>]\<rparr>)"

section \<open>The sealed text\<close>

text \<open>\<open>u8::from_str_radix\<close> on two characters, which may start with a plus sign.\<close>

definition hex_val :: "char \<Rightarrow> nat option" where
  "hex_val c =
     (let b = byte c
      in if 48 \<le> b \<and> b \<le> 57 then Some (b - 48)
         else if 97 \<le> b \<and> b \<le> 102 then Some (b - 87)
         else if 65 \<le> b \<and> b \<le> 70 then Some (b - 55) else None)"

definition hex_pair :: "char \<Rightarrow> char \<Rightarrow> nat option" where
  "hex_pair a b =
     (if a = CHR ''+'' then hex_val b
      else case (hex_val a, hex_val b) of (Some x, Some y) \<Rightarrow> Some (x * 16 + y) | _ \<Rightarrow> None)"

text \<open>
  The slices are taken one by one and the first bad one ends the loop; a slice that cuts a character
  panics (\<open>None\<close>).
\<close>

fun hex_decode_loop :: "string \<Rightarrow> string \<Rightarrow> nat \<Rightarrow> nat list \<Rightarrow> nat list option may_panic" where
  "hex_decode_loop whole (a # b # rest) i out =
     (if is_char_boundary whole i \<and> is_char_boundary whole (i + 2) then
        case hex_pair a b of
          None \<Rightarrow> Some None
        | Some v \<Rightarrow> hex_decode_loop whole rest (i + 2) (out @ [v])
      else None)"
| "hex_decode_loop whole rest i out = Some (Some out)"

definition hex_decode :: "string \<Rightarrow> nat list option may_panic" where
  "hex_decode s = (if length s mod 2 \<noteq> 0 then Some None else hex_decode_loop s s 0 [])"

end
