(* ===== verification/Mfa.thy ===== *)
theory Mfa
  imports Mfa_Store
begin

text \<open>
  The second factor of the control plane (\<open>rolter-control/src/mfa.rs\<close>) and the end of the sign-in that
  leads to it (\<open>login\<close>, \<open>issue_session\<close> and \<open>CurrentUser\<close> of \<open>auth.rs\<close>). A handler is a program over database
  statements: each \<open>await\<close> on the pool is one \<open>Do\<close>, and between two of them any other request may run.
  Random bytes, the clock, the key that seals secrets and the digests are fields of the request's
  \<open>mfa_env\<close>. Audit rows keep the user and the action; their JSON detail, the metrics and the log lines
  are left out.
\<close>

section \<open>Programs\<close>

datatype 'a prog = Ret 'a | Do stmt "resp \<Rightarrow> 'a prog"

datatype mfa_error =
    EInvalidCredentials
  | EUnauthenticated
  | EOpenModeNoSession
  | EInternal
  | EStore
  | EConflict
  | ENotFound
  | EForbidden
  | EInvalid
  | EKekUnavailable
  | EMfaEnrolmentRequired
  | EPanic

type_synonym 'a action = "(mfa_error + 'a) prog"

text \<open>The \<open>?\<close> operator, and \<open>map_err\<close>.\<close>

primrec and_then :: "'a action \<Rightarrow> ('a \<Rightarrow> 'b action) \<Rightarrow> 'b action" where
  "and_then (Ret x) f = (case x of Inl e \<Rightarrow> Ret (Inl e) | Inr a \<Rightarrow> f a)"
| "and_then (Do s k) f = Do s (\<lambda>r. and_then (k r) f)"

primrec map_err :: "(mfa_error \<Rightarrow> mfa_error) \<Rightarrow> 'a action \<Rightarrow> 'a action" where
  "map_err g (Ret x) = Ret (case x of Inl e \<Rightarrow> Inl (g e) | Inr a \<Rightarrow> Inr a)"
| "map_err g (Do s k) = Do s (\<lambda>r. map_err g (k r))"

abbreviation ok :: "'a \<Rightarrow> 'a action" where "ok x \<equiv> Ret (Inr x)"
abbreviation fail :: "mfa_error \<Rightarrow> 'a action" where "fail e \<equiv> Ret (Inl e)"

definition of_opt :: "mfa_error \<Rightarrow> 'a option \<Rightarrow> 'a action" where
  "of_opt e x = (case x of None \<Rightarrow> fail e | Some a \<Rightarrow> ok a)"

text \<open>A statement whose reply has the expected shape, or the store's error.\<close>

definition ask_flag :: "stmt \<Rightarrow> bool action" where
  "ask_flag s = Do s (\<lambda>r. case r of RFlag b \<Rightarrow> ok b | _ \<Rightarrow> fail EStore)"

definition ask_done :: "stmt \<Rightarrow> unit action" where
  "ask_done s = Do s (\<lambda>r. case r of RDone \<Rightarrow> ok () | _ \<Rightarrow> fail EStore)"

definition ask_count :: "stmt \<Rightarrow> nat action" where
  "ask_count s = Do s (\<lambda>r. case r of RCount n \<Rightarrow> ok n | _ \<Rightarrow> fail EStore)"

definition ask_factor :: "stmt \<Rightarrow> sealed_factor option action" where
  "ask_factor s = Do s (\<lambda>r. case r of RFactor f \<Rightarrow> ok f | _ \<Rightarrow> fail EStore)"

definition ask_challenge :: "stmt \<Rightarrow> mfa_challenge option action" where
  "ask_challenge s = Do s (\<lambda>r. case r of RChallenge c \<Rightarrow> ok c | _ \<Rightarrow> fail EStore)"

definition ask_session :: "stmt \<Rightarrow> session_row option action" where
  "ask_session s = Do s (\<lambda>r. case r of RSession x \<Rightarrow> ok x | _ \<Rightarrow> fail EStore)"

definition ask_policies :: "stmt \<Rightarrow> mfa_policy_binding list action" where
  "ask_policies s = Do s (\<lambda>r. case r of RPolicies ps \<Rightarrow> ok ps | _ \<Rightarrow> fail EStore)"

text \<open>\<open>UserRepo::get\<close>: a missing user is an error too.\<close>

definition get_user :: "uuid \<Rightarrow> control_user action" where
  "get_user u = Do (GetUser u) (\<lambda>r. case r of RUser (Some x) \<Rightarrow> ok x | RUser None \<Rightarrow> fail ENotFound | _ \<Rightarrow> fail EStore)"

text \<open>Best effort: a failed audit write is only logged.\<close>

definition audit :: "uuid \<Rightarrow> string \<Rightarrow> unit action" where
  "audit u action = Do (AuditCreate u action) (\<lambda>_. ok ())"

section \<open>The request's surroundings\<close>

record kek =
  kk_encrypt :: "nat list \<Rightarrow> string \<Rightarrow> nat list option"
  kk_decrypt :: "nat list \<Rightarrow> nat list \<Rightarrow> string option"

record mfa_env =
  mx_hmac :: "nat list \<Rightarrow> nat list \<Rightarrow> nat list"
  mx_hash_key :: "string \<Rightarrow> string"
  mx_kek_env :: "kek option"
  mx_without_kek :: bool
  mx_issuer_env :: "string option"
  mx_open_mode :: bool
  mx_secret :: "nat list"
  mx_nonce :: "nat list"
  mx_token :: "nat list"
  mx_codes :: "nat list list"
  mx_now_seconds :: nat
  mx_utc_now :: timestamp

definition CHALLENGE_TTL_MINUTES :: nat where "CHALLENGE_TTL_MINUTES = 5"
definition MAX_CHALLENGE_ATTEMPTS :: nat where "MAX_CHALLENGE_ATTEMPTS = 3"
definition ENROLMENT_TTL_MINUTES :: nat where "ENROLMENT_TTL_MINUTES = 10"
definition MAX_ENROLMENT_ATTEMPTS :: nat where "MAX_ENROLMENT_ATTEMPTS = 5"
definition RECOVERY_CODE_COUNT :: nat where "RECOVERY_CODE_COUNT = 10"
definition SESSION_TTL_HOURS :: nat where "SESSION_TTL_HOURS = 24 * 7"

definition minutes :: "nat \<Rightarrow> timestamp" where
  "minutes n = n * 60000000"

definition kek_of :: "mfa_env \<Rightarrow> kek option" where
  "kek_of x = (if mx_without_kek x then None else mx_kek_env x)"

definition need_kek :: "mfa_env \<Rightarrow> kek action" where
  "need_kek x = of_opt EKekUnavailable (kek_of x)"

definition can_enrol :: "mfa_env \<Rightarrow> bool" where
  "can_enrol x = (kek_of x \<noteq> None)"

definition issuer :: "mfa_env \<Rightarrow> string" where
  "issuer x = (case mx_issuer_env x of Some v \<Rightarrow> if trim v \<noteq> [] then v else ''rolter'' | None \<Rightarrow> ''rolter'')"

definition generate_token :: "mfa_env \<Rightarrow> string \<Rightarrow> string \<times> string" where
  "generate_token x pre =
     (let token = pre @ ''_'' @ hex_encode (mx_token x) in (token, mx_hash_key x token))"

section \<open>Which policy applies\<close>

record effective_mfa_policy =
  ep_policy :: string
  ep_required :: bool
  ep_enforce_after :: "timestamp option"

definition enforced :: "effective_mfa_policy \<Rightarrow> bool" where
  "enforced p = (ep_required p \<and> ep_enforce_after p = None)"

definition mfa_policy_rank :: "string \<Rightarrow> nat" where
  "mfa_policy_rank policy =
     (if policy = ''required_all'' then 3
      else if policy = ''required_superadmin'' then 2
      else if policy = ''optional'' then 1 else 0)"

definition binds :: "string \<Rightarrow> bool \<Rightarrow> bool" where
  "binds policy is_superadmin =
     (if policy = ''required_all'' then True
      else if policy = ''required_superadmin'' then is_superadmin else False)"

text \<open>\<open>Iterator::max_by_key\<close> keeps the last of the largest.\<close>

fun max_by_rank :: "string list \<Rightarrow> string option \<Rightarrow> string option" where
  "max_by_rank [] best = best"
| "max_by_rank (p # ps) best =
     max_by_rank ps (case best of None \<Rightarrow> Some p
       | Some b \<Rightarrow> if mfa_policy_rank b \<le> mfa_policy_rank p then Some p else Some b)"

fun earliest :: "timestamp list \<Rightarrow> timestamp option" where
  "earliest [] = None"
| "earliest (t # ts) = (case earliest ts of None \<Rightarrow> Some t | Some m \<Rightarrow> Some (min t m))"

definition resolve_policy :: "mfa_policy_binding list \<Rightarrow> bool \<Rightarrow> timestamp \<Rightarrow> effective_mfa_policy" where
  "resolve_policy bindings is_superadmin now =
     (let policy = (case max_by_rank (map pb_policy bindings) None of
                      Some p \<Rightarrow> if 0 < mfa_policy_rank p then p else ''off''
                    | None \<Rightarrow> ''off'');
          binding = filter (\<lambda>b. binds (pb_policy b) is_superadmin) bindings;
          required = (binding \<noteq> []);
          in_force = list_ex (\<lambda>b. case pb_enforce_after b of None \<Rightarrow> True | Some t \<Rightarrow> t \<le> now) binding;
          enforce_after = (if in_force then None else earliest (List.map_filter pb_enforce_after binding))
      in \<lparr>ep_policy = policy, ep_required = required, ep_enforce_after = enforce_after\<rparr>)"

definition effective_policy :: "mfa_env \<Rightarrow> uuid \<Rightarrow> control_user \<Rightarrow> effective_mfa_policy action" where
  "effective_policy x u user =
     and_then (ask_policies (MfaPoliciesForUser u)) (\<lambda>bindings.
       ok (resolve_policy bindings (cu_is_superadmin user) (mx_utc_now x)))"

section \<open>Answers\<close>

datatype mfa_answer =
    AnsSession string uuid bool "timestamp option"
  | AnsEnrolledSession string uuid bool "string list"
  | AnsChallenge string timestamp
  | AnsEnrolment string timestamp
  | AnsSecret string string
  | AnsCodes "string list"
  | AnsStatus bool bool nat effective_mfa_policy
  | AnsNoContent
  | AnsFlag bool

section \<open>Opening the sealed secret\<close>

record open_factor =
  of_secret :: "nat list"
  of_confirmed :: bool
  of_last_used_step :: "nat option"
  of_nonce :: "nat list"

definition unseal :: "kek \<Rightarrow> sealed_factor \<Rightarrow> open_factor action" where
  "unseal k f =
     (case kk_decrypt k (sf_ciphertext f) (sf_nonce f) of
        None \<Rightarrow> fail EStore
      | Some hex \<Rightarrow>
          (case hex_decode hex of
             None \<Rightarrow> fail EPanic
           | Some None \<Rightarrow> fail EInvalid
           | Some (Some secret) \<Rightarrow>
               ok \<lparr>of_secret = secret, of_confirmed = (sf_confirmed_at f \<noteq> None),
                   of_last_used_step = sf_last_used_step f, of_nonce = sf_nonce f\<rparr>))"

definition open_secret :: "kek \<Rightarrow> uuid \<Rightarrow> open_factor option action" where
  "open_secret k u =
     and_then (ask_factor (OpenSecret u)) (\<lambda>row.
       case row of None \<Rightarrow> ok None | Some f \<Rightarrow> and_then (unseal k f) (\<lambda>opened. ok (Some opened)))"

section \<open>Sessions\<close>

definition issue_session :: "mfa_env \<Rightarrow> uuid \<Rightarrow> bool \<Rightarrow> timestamp option \<Rightarrow> mfa_answer action" where
  "issue_session x u after_lock enrol_by =
     (let (token, token_hash) = generate_token x ''rolter_sess''
      in and_then (ask_done (CreateSession u token_hash (mx_utc_now x + minutes (SESSION_TTL_HOURS * 60)))) (\<lambda>_.
         and_then (audit u ''auth.login'') (\<lambda>_.
         ok (AnsSession token u after_lock enrol_by))))"

definition current_user :: "mfa_env \<Rightarrow> string option \<Rightarrow> (uuid \<times> control_user) action" where
  "current_user x bearer =
     (let unauthenticated = (if mx_open_mode x then EOpenModeNoSession else EUnauthenticated)
      in and_then (of_opt unauthenticated bearer) (\<lambda>token.
         and_then (ask_session (FindActiveByHash (mx_hash_key x token))) (\<lambda>found.
         and_then (of_opt unauthenticated found) (\<lambda>session.
         and_then (get_user (sr_user session)) (\<lambda>user. ok (sr_user session, user))))))"

definition logout :: "mfa_env \<Rightarrow> string option \<Rightarrow> mfa_answer action" where
  "logout x bearer =
     (case bearer of
        None \<Rightarrow> ok AnsNoContent
      | Some token \<Rightarrow>
          Do (FindActiveByHash (mx_hash_key x token)) (\<lambda>r.
            and_then (case r of RSession (Some s) \<Rightarrow> audit (sr_user s) ''auth.logout'' | _ \<Rightarrow> ok ()) (\<lambda>_.
            Do (DeleteByHash (mx_hash_key x token)) (\<lambda>_. ok AnsNoContent))))"

section \<open>Enrolment from a session\<close>

definition mint_secret :: "mfa_env \<Rightarrow> uuid \<Rightarrow> string \<Rightarrow> mfa_answer option action" where
  "mint_secret x u email =
     and_then (need_kek x) (\<lambda>k.
     and_then (of_opt EStore (kk_encrypt k (mx_nonce x) (hex_encode (mx_secret x)))) (\<lambda>ciphertext.
     and_then (ask_flag (BeginEnrolment u ciphertext (mx_nonce x))) (\<lambda>written.
       if \<not> written then ok None
       else ok (Some (AnsSecret (otpauth_uri (issuer x) email (mx_secret x))
                       (map char_of (base32_encode (mx_secret x))))))))"

definition begin_enrolment :: "mfa_env \<Rightarrow> string option \<Rightarrow> mfa_answer action" where
  "begin_enrolment x bearer =
     and_then (current_user x bearer) (\<lambda>(u, user).
     and_then (ask_flag (HasArmedFactor u)) (\<lambda>armed.
       if armed then fail EConflict
       else and_then (mint_secret x u (cu_email user)) (\<lambda>written. of_opt EConflict written)))"

definition recovery_codes :: "mfa_env \<Rightarrow> string list" where
  "recovery_codes x = map (\<lambda>bytes. map char_of (base32_encode bytes)) (take RECOVERY_CODE_COUNT (mx_codes x))"

definition mint_recovery_codes :: "mfa_env \<Rightarrow> uuid \<Rightarrow> string list action" where
  "mint_recovery_codes x u =
     and_then (ask_done (ReplaceRecoveryCodes u (map (mx_hash_key x) (recovery_codes x)))) (\<lambda>_.
     ok (recovery_codes x))"

definition confirm_enrolment :: "mfa_env \<Rightarrow> string option \<Rightarrow> string \<Rightarrow> mfa_answer action" where
  "confirm_enrolment x bearer code =
     and_then (current_user x bearer) (\<lambda>(u, user).
     and_then (need_kek x) (\<lambda>k.
     and_then (open_secret k u) (\<lambda>opened.
       case opened of
         None \<Rightarrow> fail EInvalid
       | Some factor \<Rightarrow>
           (case verify_at (mx_hmac x) (of_secret factor) code (mx_now_seconds x) of
              None \<Rightarrow> and_then (audit u ''auth.mfa_confirm_failed'') (\<lambda>_. fail EInvalid)
            | Some step \<Rightarrow>
                and_then (ask_flag (Confirm u step (of_nonce factor))) (\<lambda>armed.
                  if \<not> armed then fail EInvalid
                  else and_then (mint_recovery_codes x u) (\<lambda>codes.
                       and_then (audit u ''auth.mfa_enabled'') (\<lambda>_. ok (AnsCodes codes))))))))"

definition regenerate_codes :: "mfa_env \<Rightarrow> string option \<Rightarrow> mfa_answer action" where
  "regenerate_codes x bearer =
     and_then (current_user x bearer) (\<lambda>(u, user).
     and_then (ask_flag (HasArmedFactor u)) (\<lambda>armed.
       if \<not> armed then fail EInvalid
       else and_then (mint_recovery_codes x u) (\<lambda>codes.
            and_then (audit u ''auth.mfa_recovery_codes_regenerated'') (\<lambda>_. ok (AnsCodes codes)))))"

definition status_for :: "mfa_env \<Rightarrow> uuid \<Rightarrow> control_user \<Rightarrow> mfa_answer action" where
  "status_for x u user =
     and_then (ask_factor (OpenSecret u)) (\<lambda>factor.
     and_then (effective_policy x u user) (\<lambda>effective.
     and_then (ask_count (RemainingRecoveryCodes u)) (\<lambda>remaining.
     ok (AnsStatus (case factor of Some f \<Rightarrow> sf_confirmed_at f \<noteq> None | None \<Rightarrow> False)
          (case factor of Some f \<Rightarrow> sf_confirmed_at f = None | None \<Rightarrow> False) remaining effective))))"

definition my_status :: "mfa_env \<Rightarrow> string option \<Rightarrow> mfa_answer action" where
  "my_status x bearer = and_then (current_user x bearer) (\<lambda>(u, user). status_for x u user)"

section \<open>Proving the factor\<close>

definition is_totp_shaped :: "string \<Rightarrow> bool" where
  "is_totp_shaped presented = (length presented = DIGITS \<and> list_all is_ascii_digit presented)"

definition prove_factor :: "mfa_env \<Rightarrow> uuid \<Rightarrow> string \<Rightarrow> bool action" where
  "prove_factor x u presented =
     (let presented = trim presented
      in if is_totp_shaped presented then
           and_then (need_kek x) (\<lambda>k.
           and_then (open_secret k u) (\<lambda>opened.
             case opened of
               None \<Rightarrow> ok False
             | Some factor \<Rightarrow>
                 (case verify_at (mx_hmac x) (of_secret factor) presented (mx_now_seconds x) of
                    None \<Rightarrow> ok False
                  | Some step \<Rightarrow> ask_flag (SpendStep u step))))
         else
           and_then (ask_flag (ConsumeRecoveryCode u (mx_hash_key x presented))) (\<lambda>consumed.
             if consumed then
               and_then (ask_count (RemainingRecoveryCodes u)) (\<lambda>_.
               and_then (audit u ''auth.mfa_recovery_code_used'') (\<lambda>_. ok True))
             else ok False))"

definition disable_factor :: "mfa_env \<Rightarrow> string option \<Rightarrow> string \<Rightarrow> mfa_answer action" where
  "disable_factor x bearer code =
     and_then (current_user x bearer) (\<lambda>(u, user).
     and_then (ask_flag (HasArmedFactor u)) (\<lambda>armed.
       if \<not> armed then fail ENotFound
       else and_then (effective_policy x u user) (\<lambda>effective.
         if ep_required effective then fail EForbidden
         else and_then (prove_factor x u code) (\<lambda>proved.
           if \<not> proved then and_then (audit u ''auth.mfa_disable_failed'') (\<lambda>_. fail EInvalid)
           else and_then (ask_flag (Disable u)) (\<lambda>_.
                and_then (audit u ''auth.mfa_disabled'') (\<lambda>_. ok AnsNoContent))))))"

section \<open>The step-up\<close>

text \<open>A failed delete of the redeemed challenge is ignored.\<close>

definition verify_challenge :: "mfa_env \<Rightarrow> string \<Rightarrow> string \<Rightarrow> mfa_answer action" where
  "verify_challenge x mfa_token code =
     (let token_hash = mx_hash_key x (trim mfa_token)
      in and_then (map_err (\<lambda>_. EInvalidCredentials)
             (ask_challenge (ChargeChallengeAttempt token_hash Verify MAX_CHALLENGE_ATTEMPTS))) (\<lambda>found.
         case found of
           None \<Rightarrow> fail EInvalidCredentials
         | Some challenge \<Rightarrow>
             and_then (map_err (\<lambda>_. EInternal) (prove_factor x (mc_user challenge) code)) (\<lambda>proved.
               if \<not> proved then
                 and_then (audit (mc_user challenge) ''auth.mfa_failed'') (\<lambda>_. fail EInvalidCredentials)
               else
                 Do (DeleteChallenge token_hash) (\<lambda>_.
                   and_then (get_user (mc_user challenge)) (\<lambda>user.
                   issue_session x (mc_user challenge) (mc_after_lock challenge) None)))))"

section \<open>Challenges\<close>

definition mint_challenge ::
  "mfa_env \<Rightarrow> uuid \<Rightarrow> string \<Rightarrow> nat \<Rightarrow> challenge_purpose \<Rightarrow> bool \<Rightarrow> (string \<times> timestamp) action"
where
  "mint_challenge x u pre ttl purpose after_lock =
     (let (token, token_hash) = generate_token x pre; expires_at = mx_utc_now x + minutes ttl
      in and_then (ask_done (CreateChallenge u token_hash expires_at purpose after_lock)) (\<lambda>_. ok (token, expires_at)))"

definition issue_challenge :: "mfa_env \<Rightarrow> uuid \<Rightarrow> bool \<Rightarrow> mfa_answer action" where
  "issue_challenge x u after_lock =
     and_then (mint_challenge x u ''rolter_mfa'' CHALLENGE_TTL_MINUTES Verify after_lock) (\<lambda>(token, expires_at).
     ok (AnsChallenge token expires_at))"

definition issue_enrolment_challenge :: "mfa_env \<Rightarrow> uuid \<Rightarrow> bool \<Rightarrow> mfa_answer action" where
  "issue_enrolment_challenge x u after_lock =
     and_then (mint_challenge x u ''rolter_enrol'' ENROLMENT_TTL_MINUTES Enrol after_lock) (\<lambda>(token, expires_at).
     ok (AnsEnrolment token expires_at))"

text \<open>\<open>login\<close> from the proved password on.\<close>

definition login_proved :: "mfa_env \<Rightarrow> uuid \<Rightarrow> bool \<Rightarrow> mfa_answer action" where
  "login_proved x u after_lock =
     and_then (get_user u) (\<lambda>user.
     and_then (map_err (\<lambda>_. EInternal) (effective_policy x u user)) (\<lambda>effective.
     and_then (ask_flag (HasArmedFactor u)) (\<lambda>armed.
       if armed then issue_challenge x u after_lock
       else if enforced effective then
         if can_enrol x then
           and_then (audit u ''auth.mfa_enrolment_challenge'') (\<lambda>_. issue_enrolment_challenge x u after_lock)
         else and_then (audit u ''auth.mfa_enrolment_required'') (\<lambda>_. fail EMfaEnrolmentRequired)
       else issue_session x u after_lock (ep_enforce_after effective))))"

section \<open>Enrolment at sign-in\<close>

definition enrolling_user :: "mfa_env \<Rightarrow> string \<Rightarrow> bool \<Rightarrow> (uuid \<times> control_user) action" where
  "enrolling_user x token_hash charge =
     and_then (map_err (\<lambda>_. EInvalidCredentials)
         (ask_challenge (if charge then ChargeChallengeAttempt token_hash Enrol MAX_ENROLMENT_ATTEMPTS
                         else LiveChallenge token_hash Enrol MAX_ENROLMENT_ATTEMPTS))) (\<lambda>found.
       case found of
         None \<Rightarrow> fail EInvalidCredentials
       | Some challenge \<Rightarrow>
           and_then (get_user (mc_user challenge)) (\<lambda>user.
             if cu_deactivated_at user \<noteq> None then fail EInvalidCredentials
             else and_then (ask_flag (HasArmedFactor (mc_user challenge))) (\<lambda>armed.
               if armed then fail EInvalidCredentials else ok (mc_user challenge, user))))"

definition sign_in_enrol :: "mfa_env \<Rightarrow> string \<Rightarrow> mfa_answer action" where
  "sign_in_enrol x enrolment_token =
     and_then (enrolling_user x (mx_hash_key x (trim enrolment_token)) False) (\<lambda>(u, user).
     and_then (mint_secret x u (cu_email user)) (\<lambda>written. of_opt EInvalidCredentials written))"

definition sign_in_confirm :: "mfa_env \<Rightarrow> string \<Rightarrow> string \<Rightarrow> mfa_answer action" where
  "sign_in_confirm x enrolment_token code =
     (let token_hash = mx_hash_key x (trim enrolment_token)
      in and_then (enrolling_user x token_hash True) (\<lambda>(u, user).
         and_then (need_kek x) (\<lambda>k.
         and_then (open_secret k u) (\<lambda>opened.
           case opened of
             None \<Rightarrow> fail EInvalid
           | Some factor \<Rightarrow>
               (case verify_at (mx_hmac x) (of_secret factor) code (mx_now_seconds x) of
                  None \<Rightarrow> and_then (audit u ''auth.mfa_confirm_failed'') (\<lambda>_. fail EInvalid)
                | Some step \<Rightarrow>
                    and_then (ask_challenge (TakeChallenge token_hash Enrol)) (\<lambda>taken.
                      case taken of
                        None \<Rightarrow> fail EInvalidCredentials
                      | Some challenge \<Rightarrow>
                          and_then (ask_flag (Confirm u step (of_nonce factor))) (\<lambda>armed.
                            if \<not> armed then fail EInvalidCredentials
                            else and_then (mint_recovery_codes x u) (\<lambda>codes.
                                 and_then (audit u ''auth.mfa_enabled'') (\<lambda>_.
                                 and_then (issue_session x u (mc_after_lock challenge) None) (\<lambda>session.
                                   case session of
                                     AnsSession token v lock _ \<Rightarrow> ok (AnsEnrolledSession token v lock codes)
                                   | _ \<Rightarrow> ok session))))))))))"

section \<open>Break-glass\<close>

definition break_glass_reset :: "uuid \<Rightarrow> mfa_answer action" where
  "break_glass_reset u =
     and_then (ask_flag (Disable u)) (\<lambda>removed.
     and_then (ask_done (DeleteForUser u)) (\<lambda>_.
     and_then (ask_count (DeleteChallengesForUser u)) (\<lambda>_.
     and_then (audit u ''auth.mfa_break_glass_reset'') (\<lambda>_. ok (AnsFlag removed)))))"

end
