(* ===== verification/Mfa_Runs.thy ===== *)
theory Mfa_Runs
  imports Mfa
begin

text \<open>
  Requests in any number and any interleaving. The pool holds the programs of the requests; a pick
  names the one whose next statement the database executes, the database clock, what the other
  tables hold then, and whether the statement fails (nothing is written, the program sees the error).
  Every interleaving of the requests is a list of picks.
\<close>

section \<open>Requests\<close>

datatype mfa_request =
    ReqLoginProved uuid bool
  | ReqVerify string string
  | ReqSignInEnrol string
  | ReqSignInConfirm string string
  | ReqStatus "string option"
  | ReqBeginEnrolment "string option"
  | ReqConfirm "string option" string
  | ReqRegenerate "string option"
  | ReqDisable "string option" string
  | ReqLogout "string option"
  | ReqReset uuid

fun serve :: "mfa_env \<Rightarrow> mfa_request \<Rightarrow> mfa_answer action" where
  "serve x (ReqLoginProved u after_lock) = login_proved x u after_lock"
| "serve x (ReqVerify token code) = verify_challenge x token code"
| "serve x (ReqSignInEnrol token) = sign_in_enrol x token"
| "serve x (ReqSignInConfirm token code) = sign_in_confirm x token code"
| "serve x (ReqStatus bearer) = my_status x bearer"
| "serve x (ReqBeginEnrolment bearer) = begin_enrolment x bearer"
| "serve x (ReqConfirm bearer code) = confirm_enrolment x bearer code"
| "serve x (ReqRegenerate bearer) = regenerate_codes x bearer"
| "serve x (ReqDisable bearer code) = disable_factor x bearer code"
| "serve x (ReqLogout bearer) = logout x bearer"
| "serve x (ReqReset u) = break_glass_reset u"

section \<open>Runs\<close>

record pick =
  pk_thread :: nat
  pk_now :: timestamp
  pk_fails :: bool
  pk_other :: other_tables

type_synonym event = "nat \<times> stmt \<times> resp"
type_synonym 'a pool = "mfa_db \<times> 'a prog list"

definition perform :: "pick \<Rightarrow> stmt \<Rightarrow> mfa_db \<Rightarrow> resp \<times> mfa_db" where
  "perform p s db = (if pk_fails p then (RFailed, db) else exec_stmt (pk_other p) (pk_now p) s db)"

definition step_pool :: "pick \<Rightarrow> 'a pool \<Rightarrow> event list \<times> 'a pool" where
  "step_pool p cfg =
     (let (db, ps) = cfg; t = pk_thread p
      in if t < length ps then
           case ps ! t of
             Ret _ \<Rightarrow> ([], cfg)
           | Do s k \<Rightarrow> let (r, db') = perform p s db in ([(t, s, r)], (db', ps[t := k r]))
         else ([], cfg))"

fun run :: "pick list \<Rightarrow> 'a pool \<Rightarrow> event list \<times> 'a pool" where
  "run [] cfg = ([], cfg)"
| "run (p # picks) cfg =
     (let (e, cfg1) = step_pool p cfg; (es, cfg2) = run picks cfg1 in (e @ es, cfg2))"

definition events_of :: "nat \<Rightarrow> event list \<Rightarrow> (stmt \<times> resp) list" where
  "events_of t evs = map snd (filter (\<lambda>e. fst e = t) evs)"

text \<open>What a run does to the tables, statement by statement.\<close>

inductive traced :: "mfa_db \<Rightarrow> event list \<Rightarrow> mfa_db \<Rightarrow> bool" where
  traced_nil: "traced db [] db"
| traced_ok: "exec_stmt ot now s db = (r, db1) \<Longrightarrow> traced db1 evs db2 \<Longrightarrow> traced db ((t, s, r) # evs) db2"
| traced_fail: "traced db evs db2 \<Longrightarrow> traced db ((t, s, RFailed) # evs) db2"

inductive_cases traced_ConsE: "traced db (e # evs) db2"
inductive_cases traced_NilE: "traced db [] db2"

text \<open>What a program does, whatever the database answers: the program left after some replies.\<close>

fun after :: "'a prog \<Rightarrow> (stmt \<times> resp) list \<Rightarrow> 'a prog option" where
  "after p [] = Some p"
| "after (Do s k) ((s', r) # es) = (if s = s' then after (k r) es else None)"
| "after (Ret x) (e # es) = None"

lemma after_append: "after p (es @ es') = Option.bind (after p es) (\<lambda>q. after q es')"
  by (induction p es rule: after.induct) auto

lemma events_of_simps [simp]:
  "events_of t [] = []"
  "events_of t (e # es) = (if fst e = t then snd e # events_of t es else events_of t es)"
  "events_of t (es @ es') = events_of t es @ events_of t es'"
  by (auto simp: events_of_def)

lemma step_pool_cases:
  assumes "step_pool p (db, ps) = (e, cfg)"
  obtains (idle) "e = []" "cfg = (db, ps)"
  | (acted) s k r db' where "pk_thread p < length ps" "ps ! pk_thread p = Do s k" "perform p s db = (r, db')"
      "e = [(pk_thread p, s, r)]" "cfg = (db', ps[pk_thread p := k r])"
  using assms that by (auto simp: step_pool_def Let_def split: if_splits prog.splits prod.splits)

lemma run_append: "run (ps @ qs) cfg = (let (e, c) = run ps cfg; (e', c') = run qs c in (e @ e', c'))"
  by (induction ps arbitrary: cfg) (auto simp: Let_def split: prod.splits)

lemma run_length: "run picks (db, ps) = (evs, (db', ps')) \<Longrightarrow> length ps' = length ps"
proof (induction picks arbitrary: db ps evs)
  case (Cons p picks)
  obtain e db1 ps1 where s: "step_pool p (db, ps) = (e, (db1, ps1))" by (metis surj_pair)
  with Cons.prems obtain es where "run picks (db1, ps1) = (es, (db', ps'))"
    by (auto simp: Let_def split: prod.splits)
  with Cons.IH have "length ps' = length ps1" .
  with s show ?case by (elim step_pool_cases) auto
qed simp

text \<open>Each request's share of a run is a path of its program.\<close>

lemma run_after:
  assumes "run picks (db, ps) = (evs, (db', ps'))" "t < length ps"
  shows "after (ps ! t) (events_of t evs) = Some (ps' ! t)"
  using assms
proof (induction picks arbitrary: db ps evs)
  case (Cons p picks)
  obtain e db1 ps1 where s: "step_pool p (db, ps) = (e, (db1, ps1))" by (metis surj_pair)
  with Cons.prems obtain es where r: "run picks (db1, ps1) = (es, (db', ps'))" "evs = e @ es"
    by (auto simp: Let_def split: prod.splits)
  from s show ?case
  proof (cases rule: step_pool_cases)
    case idle
    with Cons.IH [OF r(1)] Cons.prems(2) r(2) show ?thesis by simp
  next
    case (acted s k rsp db2)
    then have "t < length ps1" using Cons.prems(2) by simp
    from Cons.IH [OF r(1) this] acted r(2) Cons.prems(2) show ?thesis by (cases "t = pk_thread p") auto
  qed
qed simp

lemma run_traced: "run picks (db, ps) = (evs, (db', ps')) \<Longrightarrow> traced db evs db'"
proof (induction picks arbitrary: db ps evs)
  case Nil
  then show ?case by (simp add: traced_nil)
next
  case (Cons p picks)
  obtain e db1 ps1 where s: "step_pool p (db, ps) = (e, (db1, ps1))" by (metis surj_pair)
  with Cons.prems obtain es where r: "run picks (db1, ps1) = (es, (db', ps'))" "evs = e @ es"
    by (auto simp: Let_def split: prod.splits)
  from Cons.IH [OF r(1)] s r(2) show ?case
    by (elim step_pool_cases) (auto simp: perform_def intro: traced_ok traced_fail split: if_splits)
qed

lemma traced_append:
  "traced db (es @ es') db2 \<longleftrightarrow> (\<exists>db1. traced db es db1 \<and> traced db1 es' db2)"
proof (induction es arbitrary: db)
  case Nil
  show ?case by (auto intro: traced_nil elim: traced_NilE)
next
  case (Cons e es)
  show ?case
  proof
    assume "traced db ((e # es) @ es') db2"
    then show "\<exists>db1. traced db (e # es) db1 \<and> traced db1 es' db2"
      unfolding append_Cons by (elim traced_ConsE) (blast dest: Cons.IH [THEN iffD1] intro: traced_ok traced_fail)+
  next
    assume "\<exists>db1. traced db (e # es) db1 \<and> traced db1 es' db2"
    then show "traced db ((e # es) @ es') db2"
      unfolding append_Cons by (elim exE conjE traced_ConsE) (blast intro: Cons.IH [THEN iffD2] traced_ok traced_fail)+
  qed
qed

section \<open>What every statement of a program is preceded by\<close>

text \<open>
  \<open>guarded A p past\<close>: whatever the database answers, the program issues a statement only if \<open>A\<close> allows it
  after the statements and replies so far.
\<close>

primrec guarded :: "((stmt \<times> resp) list \<Rightarrow> stmt \<Rightarrow> bool) \<Rightarrow> 'a prog \<Rightarrow> (stmt \<times> resp) list \<Rightarrow> bool" where
  "guarded A (Ret x) past = True"
| "guarded A (Do s k) past = (A past s \<and> (\<forall>r. guarded A (k r) (past @ [(s, r)])))"

lemma guarded_after:
  "guarded A p past \<Longrightarrow> after p (es @ (s, r) # es') \<noteq> None \<Longrightarrow> A (past @ es) s"
proof (induction p es arbitrary: past rule: after.induct)
  case (1 p)
  then show ?case by (cases p) (auto split: if_splits)
next
  case (2 s k s' r es)
  from "2.prems" have "guarded A (k r) (past @ [(s', r)])" "s = s'" by (auto split: if_splits)
  with "2.IH" "2.prems"(2) show ?case by fastforce
qed simp

lemma guarded_run:
  assumes "run picks (db, ps) = (pre @ (t, s, r) # post, cfg)" "t < length ps" "guarded A (ps ! t) []"
  shows "A (events_of t pre) s"
proof -
  obtain db' ps' where c: "cfg = (db', ps')" by (cases cfg)
  from run_after [OF assms(1) [unfolded c] assms(2)]
  have "after (ps ! t) (events_of t pre @ (s, r) # events_of t post) \<noteq> None" by simp
  from guarded_after [OF assms(3) this] show ?thesis by simp
qed

text \<open>How many statements a program can still issue.\<close>

fun ends_within :: "nat \<Rightarrow> 'a prog \<Rightarrow> bool" where
  "ends_within n (Ret x) = True"
| "ends_within 0 (Do s k) = False"
| "ends_within (Suc n) (Do s k) = (\<forall>r. ends_within n (k r))"

lemma ends_within_after: "ends_within n p \<Longrightarrow> after p es = Some q \<Longrightarrow> ends_within (n - length es) q"
proof (induction p es arbitrary: n rule: after.induct)
  case (2 s k s' r es)
  then obtain m where "n = Suc m" by (cases n) auto
  with 2 show ?case by (auto split: if_splits)
qed simp_all

lemma ends_within_path: "ends_within n p \<Longrightarrow> after p es = Some q \<Longrightarrow> length es \<le> n"
proof (induction p es arbitrary: n rule: after.induct)
  case (2 s k s' r es)
  then obtain m where "n = Suc m" by (cases n) auto
  with 2 show ?case by (auto split: if_splits)
qed simp_all

end
