(* ===== verification/Mfa_Budgets.thy ===== *)
theory Mfa_Budgets
  imports Mfa_Runs
begin

text \<open>
  What can be had from the database over any run: guesses against a challenge, redemptions of an
  enrolment token, uses of a recovery code. Each is a budget the statements spend from and grant to;
  the locale adds it up once.
\<close>

section \<open>Budgets over runs\<close>

definition count_events :: "(stmt \<Rightarrow> resp \<Rightarrow> bool) \<Rightarrow> event list \<Rightarrow> nat" where
  "count_events P evs = length (filter (\<lambda>(t, s, r). P s r) evs)"

lemma count_events_simps [simp]:
  "count_events P [] = 0"
  "count_events P ((t, s, r) # evs) = (if P s r then Suc (count_events P evs) else count_events P evs)"
  by (simp_all add: count_events_def)

locale budget =
  fixes inv :: "mfa_db \<Rightarrow> bool" and avail :: "mfa_db \<Rightarrow> nat" and price :: nat
    and spends :: "stmt \<Rightarrow> resp \<Rightarrow> bool" and grants :: "stmt \<Rightarrow> resp \<Rightarrow> bool"
  assumes keeps: "inv db \<Longrightarrow> inv (snd (exec_stmt ot now s db))"
    and step: "inv db \<Longrightarrow>
      avail (snd (exec_stmt ot now s db)) + of_bool (spends s (fst (exec_stmt ot now s db)))
        \<le> avail db + price * of_bool (grants s (fst (exec_stmt ot now s db)))"
    and failed: "\<not> spends s RFailed"
begin

lemma traced_budget:
  "traced db evs db' \<Longrightarrow> inv db \<Longrightarrow>
     inv db' \<and> avail db' + count_events spends evs \<le> avail db + price * count_events grants evs"
proof (induction rule: traced.induct)
  case (traced_ok ot now s db r db1 evs db2 t)
  then have "inv db1" "avail db1 + of_bool (spends s r) \<le> avail db + price * of_bool (grants s r)"
    using keeps [of db ot now s] step [of db ot now s] by auto
  with traced_ok.IH show ?case by (auto simp: algebra_simps split: if_splits)
next
  case (traced_fail db evs db2 t s)
  then show ?case by (auto simp: failed)
qed simp

lemma run_budget:
  assumes "run picks (db, ps) = (evs, cfg)" "inv db"
  shows "count_events spends evs \<le> avail db + price * count_events grants evs"
proof -
  obtain db' ps' where "cfg = (db', ps')" by (cases cfg)
  with assms have "traced db evs db'" using run_traced by blast
  with traced_budget assms(2) show ?thesis by fastforce
qed

end

section \<open>Rows by their key\<close>

lemma find_key_map: "(\<And>c. key (f c) = key c) \<Longrightarrow> find (\<lambda>c. key c = h) (map f xs) = map_option f (find (\<lambda>c. key c = h) xs)"
  by (induction xs) auto

lemma find_key_None: "find (\<lambda>c. key c = h) xs = None \<longleftrightarrow> h \<notin> set (map key xs)"
  by (auto simp: find_None_iff)

lemma find_key_Some: "find (\<lambda>c. key c = h) xs = Some c \<Longrightarrow> c \<in> set xs \<and> key c = h"
  by (auto simp: find_Some_iff)

lemma find_key_and:
  "distinct (map key xs) \<Longrightarrow>
     find (\<lambda>c. key c = h \<and> Q c) xs = (case find (\<lambda>c. key c = h) xs of Some c \<Rightarrow> if Q c then Some c else None | None \<Rightarrow> None)"
proof (induction xs)
  case (Cons c xs)
  then show ?case
    using find_key_None [of key h xs] by (auto split: option.splits)
qed simp

lemma find_key_filter:
  "distinct (map key xs) \<Longrightarrow>
     find (\<lambda>c. key c = h) (filter Q xs) = (case find (\<lambda>c. key c = h) xs of Some c \<Rightarrow> if Q c then Some c else None | None \<Rightarrow> None)"
proof (induction xs)
  case (Cons c xs)
  show ?case
  proof (cases "key c = h")
    case True
    with Cons.prems have "h \<notin> set (map key (filter Q xs))" by auto
    then have "find (\<lambda>c. key c = h) (filter Q xs) = None" using find_key_None [of key h "filter Q xs"] by blast
    with True show ?thesis by simp
  next
    case False
    with Cons show ?thesis by simp
  qed
qed simp

lemma find_append: "find P (xs @ ys) = (case find P xs of None \<Rightarrow> find P ys | Some c \<Rightarrow> Some c)"
  by (induction xs) auto

section \<open>Challenges\<close>

definition challenge_of :: "mfa_db \<Rightarrow> string \<Rightarrow> mfa_challenge option" where
  "challenge_of db h = find (\<lambda>c. mc_token_hash c = h) (db_challenges db)"

definition unique_tokens :: "mfa_db \<Rightarrow> bool" where
  "unique_tokens db = distinct (map mc_token_hash (db_challenges db))"

lemma charged_sel [simp]:
  "mc_token_hash (charged c) = mc_token_hash c" "mc_attempts (charged c) = mc_attempts c + 1"
  "mc_purpose (charged c) = mc_purpose c" "mc_user (charged c) = mc_user c" "mc_expires_at (charged c) = mc_expires_at c"
  by (simp_all add: charged_def)

text \<open>What a statement does to the challenge of one token.\<close>

definition challenge_after :: "timestamp \<Rightarrow> stmt \<Rightarrow> string \<Rightarrow> mfa_challenge option \<Rightarrow> mfa_challenge option \<Rightarrow> bool" where
  "challenge_after now s h c c' \<longleftrightarrow>
     (case s of
        CreateChallenge u h' e p a \<Rightarrow>
          c' = (if h' = h \<and> c = None
                then Some \<lparr>mc_user = u, mc_token_hash = h, mc_attempts = 0, mc_expires_at = e, mc_purpose = p, mc_after_lock = a\<rparr>
                else c)
      | ChargeChallengeAttempt h' p m \<Rightarrow> c' = map_option (\<lambda>c. if live_row now h' p m c then charged c else c) c
      | TakeChallenge h' p \<Rightarrow> c' = (case c of Some r \<Rightarrow> if takeable now h' p r then None else c | None \<Rightarrow> None)
      | _ \<Rightarrow> c' = c \<or> c' = None)"

lemma challenges_simps [simp]:
  "db_challenges (set_factor u f db) = db_challenges db"
  "db_challenges (snd (repo_begin_enrolment u c n db)) = db_challenges db"
  "db_challenges (snd (repo_confirm now u k n db)) = db_challenges db"
  "db_challenges (snd (repo_spend_step u k db)) = db_challenges db"
  "db_challenges (snd (repo_disable u db)) = db_challenges db"
  "db_challenges (repo_delete_for_user u db) = db_challenges db"
  by (simp_all add: set_factor_def repo_begin_enrolment_def repo_confirm_def repo_spend_step_def repo_disable_def
      repo_delete_for_user_def split: option.splits)

lemma unique_tokens_map: "(\<And>c. mc_token_hash (f c) = mc_token_hash c) \<Longrightarrow>
    map mc_token_hash (map f cs) = map mc_token_hash cs"
  by simp

lemma challenge_step:
  assumes "unique_tokens db"
  shows "unique_tokens (snd (exec_stmt ot now s db)) \<and>
    challenge_after now s h (challenge_of db h) (challenge_of (snd (exec_stmt ot now s db)) h)"
proof (cases s)
  case (CreateChallenge u h' e p a)
  have known: "h' \<in> set (map mc_token_hash (db_challenges db)) \<longleftrightarrow> challenge_of db h' \<noteq> None" for h'
    unfolding challenge_of_def find_key_None by simp
  have "challenge_of (db\<lparr>db_challenges := db_challenges db @ [c]\<rparr>) h =
      (case challenge_of db h of Some c \<Rightarrow> Some c | None \<Rightarrow> if mc_token_hash c = h then Some c else None)" for c
    by (simp add: challenge_of_def find_append split: option.split)
  then show ?thesis
    using assms CreateChallenge known [of h'] by (auto simp: inserted_def repo_create_challenge_def unique_tokens_def
        challenge_after_def split: if_splits option.splits)
qed (use assms in \<open>auto simp: unique_tokens_def challenge_of_def challenge_after_def distinct_map_filter find_key_filter
        find_key_map [of mc_token_hash] comp_def if_distrib inserted_def repo_replace_recovery_codes_def
        repo_consume_recovery_code_def repo_delete_challenge_def repo_charge_challenge_attempt_def repo_take_challenge_def
        repo_delete_challenges_for_user_def repo_sweep_expired_challenges_def repo_create_session_def
        repo_find_active_by_hash_def repo_delete_by_hash_def repo_delete_for_user_except_def
        Let_def split: option.splits cong: if_cong\<close>)

section \<open>Guesses and redemptions\<close>

definition charges :: "string \<Rightarrow> nat \<Rightarrow> stmt \<Rightarrow> resp \<Rightarrow> bool" where
  "charges h m s r = (case (s, r) of (ChargeChallengeAttempt h' p m', RChallenge (Some c)) \<Rightarrow> h' = h \<and> m' = m | _ \<Rightarrow> False)"

definition creates :: "string \<Rightarrow> stmt \<Rightarrow> resp \<Rightarrow> bool" where
  "creates h s r = (case (s, r) of (CreateChallenge u h' e p a, RDone) \<Rightarrow> h' = h | _ \<Rightarrow> False)"

definition takes :: "string \<Rightarrow> stmt \<Rightarrow> resp \<Rightarrow> bool" where
  "takes h s r = (case (s, r) of (TakeChallenge h' p, RChallenge (Some c)) \<Rightarrow> h' = h | _ \<Rightarrow> False)"

definition guesses_left :: "string \<Rightarrow> nat \<Rightarrow> mfa_db \<Rightarrow> nat" where
  "guesses_left h m db = (case challenge_of db h of None \<Rightarrow> 0 | Some c \<Rightarrow> m - mc_attempts c)"

definition redeemable :: "string \<Rightarrow> mfa_db \<Rightarrow> nat" where
  "redeemable h db = of_bool (challenge_of db h \<noteq> None)"

lemma find_live_row:
  "unique_tokens db \<Longrightarrow> find (live_row now h p m) (db_challenges db) =
     (case challenge_of db h of Some c \<Rightarrow> if live_row now h p m c then Some c else None | None \<Rightarrow> None)"
  using find_key_and [of mc_token_hash "db_challenges db" h "\<lambda>c. mc_purpose c = p \<and> now < mc_expires_at c \<and> mc_attempts c < m"]
  by (auto simp: unique_tokens_def challenge_of_def live_row_def [abs_def] dest!: find_key_Some split: option.splits)

lemma find_takeable:
  "unique_tokens db \<Longrightarrow> find (takeable now h p) (db_challenges db) =
     (case challenge_of db h of Some c \<Rightarrow> if takeable now h p c then Some c else None | None \<Rightarrow> None)"
  using find_key_and [of mc_token_hash "db_challenges db" h "\<lambda>c. mc_purpose c = p \<and> now < mc_expires_at c"]
  by (auto simp: unique_tokens_def challenge_of_def takeable_def [abs_def] dest!: find_key_Some split: option.splits)

interpretation guesses: budget unique_tokens "guesses_left h m" m "charges h m" "creates h" for h m
proof
  fix db ot now s
  assume ok: "unique_tokens db"
  show "unique_tokens (snd (exec_stmt ot now s db))" using challenge_step [OF ok] by blast
  have row: "challenge_after now s h (challenge_of db h) (challenge_of (snd (exec_stmt ot now s db)) h)"
    using challenge_step [OF ok] by blast
  show "guesses_left h m (snd (exec_stmt ot now s db)) + of_bool (charges h m s (fst (exec_stmt ot now s db)))
        \<le> guesses_left h m db + m * of_bool (creates h s (fst (exec_stmt ot now s db)))"
    using row ok by (cases s) (auto simp: challenge_after_def guesses_left_def charges_def creates_def inserted_def
        repo_charge_challenge_attempt_def repo_create_challenge_def find_live_row live_row_def split: option.splits if_splits)
qed (simp add: charges_def split: stmt.splits)

interpretation redemptions: budget unique_tokens "redeemable h" 1 "takes h" "creates h" for h
proof
  fix db ot now s
  assume ok: "unique_tokens db"
  show "unique_tokens (snd (exec_stmt ot now s db))" using challenge_step [OF ok] by blast
  have row: "challenge_after now s h (challenge_of db h) (challenge_of (snd (exec_stmt ot now s db)) h)"
    using challenge_step [OF ok] by blast
  have known: "h \<in> mc_token_hash ` set (db_challenges db) \<longleftrightarrow> challenge_of db h \<noteq> None"
    using find_key_None [of mc_token_hash h "db_challenges db"] by (simp add: challenge_of_def)
  show "redeemable h (snd (exec_stmt ot now s db)) + of_bool (takes h s (fst (exec_stmt ot now s db)))
        \<le> redeemable h db + 1 * of_bool (creates h s (fst (exec_stmt ot now s db)))"
    using row ok known by (cases s) (auto simp: challenge_after_def redeemable_def takes_def creates_def inserted_def
        repo_take_challenge_def repo_create_challenge_def find_takeable split: option.splits if_splits)
qed (simp add: takes_def split: stmt.splits)

section \<open>Recovery codes\<close>

definition consumes :: "uuid \<Rightarrow> string \<Rightarrow> stmt \<Rightarrow> resp \<Rightarrow> bool" where
  "consumes u h s r = (s = ConsumeRecoveryCode u h \<and> r = RFlag True)"

definition issues :: "uuid \<Rightarrow> string \<Rightarrow> stmt \<Rightarrow> resp \<Rightarrow> bool" where
  "issues u h s r = (case (s, r) of (ReplaceRecoveryCodes v hs, RDone) \<Rightarrow> v = u \<and> h \<in> set hs | _ \<Rightarrow> False)"

definition usable_code :: "uuid \<Rightarrow> string \<Rightarrow> mfa_db \<Rightarrow> nat" where
  "usable_code u h db = of_bool (\<exists>r\<in>set (db_codes db). live_code u h r)"

lemma codes_simps [simp]:
  "db_codes (set_factor u f db) = db_codes db"
  "db_codes (snd (repo_begin_enrolment u c n db)) = db_codes db"
  "db_codes (snd (repo_confirm now u k n db)) = db_codes db"
  "db_codes (snd (repo_spend_step u k db)) = db_codes db"
  "db_codes (snd (repo_charge_challenge_attempt now h p m db)) = db_codes db"
  "db_codes (snd (repo_take_challenge now h p db)) = db_codes db"
  "db_codes (repo_delete_challenge h db) = db_codes db"
  "db_codes (snd (repo_delete_challenges_for_user u db)) = db_codes db"
  "db_codes (snd (repo_sweep_expired_challenges now m db)) = db_codes db"
  "db_codes (snd (repo_find_active_by_hash now h db)) = db_codes db"
  "db_codes (repo_delete_by_hash h db) = db_codes db"
  "db_codes (repo_delete_for_user u db) = db_codes db"
  "db_codes (snd (repo_delete_for_user_except u keep db)) = db_codes db"
  by (simp_all add: set_factor_def repo_begin_enrolment_def repo_confirm_def repo_spend_step_def Let_def
      repo_charge_challenge_attempt_def repo_take_challenge_def repo_delete_challenge_def repo_delete_challenges_for_user_def
      repo_sweep_expired_challenges_def repo_find_active_by_hash_def repo_delete_by_hash_def repo_delete_for_user_def
      repo_delete_for_user_except_def split: option.splits)

lemma codes_insert_simps [simp]:
  "db_codes (snd (inserted (repo_create_challenge u h e p a db) db)) = db_codes db"
  "db_codes (snd (inserted (repo_create_session now u h e db) db)) = db_codes db"
  by (simp_all add: inserted_def repo_create_challenge_def repo_create_session_def)

lemma codes_disable [simp]: "db_codes (snd (repo_disable u db)) = filter (\<lambda>r. rr_user r \<noteq> u) (db_codes db)"
  by (simp add: repo_disable_def)

lemma live_code_used [simp]: "live_code u h (r\<lparr>rr_used_at := Some now\<rparr>) = False"
  by (simp add: live_code_def)

interpretation recovery: budget "\<lambda>_. True" "usable_code u h" 1 "consumes u h" "issues u h" for u h
proof
  fix db ot now s
  show "usable_code u h (snd (exec_stmt ot now s db)) + of_bool (consumes u h s (fst (exec_stmt ot now s db)))
        \<le> usable_code u h db + 1 * of_bool (issues u h s (fst (exec_stmt ot now s db)))"
  proof (cases s)
    case (ConsumeRecoveryCode v k)
    have "\<not> live_code u h (if live_code u h r then r\<lparr>rr_used_at := Some now\<rparr> else r)" for r by simp
    then have "usable_code u h (snd (repo_consume_recovery_code now u h db)) = 0"
      by (auto simp: usable_code_def repo_consume_recovery_code_def)
    moreover have "usable_code u h (snd (repo_consume_recovery_code now v k db)) \<le> usable_code u h db"
      by (auto simp: usable_code_def repo_consume_recovery_code_def split: if_splits)
    moreover have "fst (repo_consume_recovery_code now u h db) \<Longrightarrow> usable_code u h db = 1"
      by (auto simp: usable_code_def repo_consume_recovery_code_def list_ex_iff)
    ultimately show ?thesis using ConsumeRecoveryCode by (auto simp: consumes_def)
  next
    case (ReplaceRecoveryCodes v hs)
    then show ?thesis
      by (auto simp: usable_code_def consumes_def issues_def inserted_def repo_replace_recovery_codes_def live_code_def
          Let_def split: option.splits if_splits)
  qed (auto simp: usable_code_def consumes_def)
qed (simp_all add: consumes_def)

end
