(* ===== verification/Mfa_Factor.thy ===== *)
theory Mfa_Factor
  imports Mfa_Runs
begin

text \<open>
  The factor row over any run: what each statement makes of it, and from that that steps are spent in
  order, that an armed factor stays what it is, and that what is armed is what was proved.
\<close>

section \<open>What a statement makes of a factor\<close>

fun factor_after :: "timestamp \<Rightarrow> stmt \<Rightarrow> uuid \<Rightarrow> sealed_factor option \<Rightarrow> sealed_factor option" where
  "factor_after now (BeginEnrolment v c n) u f =
     (if v = u \<and> (case f of None \<Rightarrow> True | Some f \<Rightarrow> sf_confirmed_at f = None) then Some (pending_factor c n) else f)"
| "factor_after now (Confirm v k n) u f =
     (if v = u then
        map_option (\<lambda>f. if sf_nonce f = n
          then f\<lparr>sf_confirmed_at := Some (case sf_confirmed_at f of Some t \<Rightarrow> t | None \<Rightarrow> now), sf_last_used_step := Some k\<rparr>
          else f) f
      else f)"
| "factor_after now (SpendStep v k) u f =
     (if v = u then
        map_option (\<lambda>f. if (case sf_last_used_step f of None \<Rightarrow> True | Some l \<Rightarrow> l < k)
          then f\<lparr>sf_last_used_step := Some k\<rparr> else f) f
      else f)"
| "factor_after now (Disable v) u f = (if v = u then None else f)"
| "factor_after now (DeleteUser v) u f = (if v = u then None else f)"
| "factor_after now s u f = f"

lemma factor_of_set [simp]: "factor_of (set_factor v f db) u = (if u = v then Some f else factor_of db u)"
  by (simp add: factor_of_def set_factor_def)

lemma factors_simps [simp]:
  "factor_of (snd (inserted (repo_replace_recovery_codes v hs db) db)) u = factor_of db u"
  "factor_of (snd (repo_consume_recovery_code now v h db)) u = factor_of db u"
  "factor_of (snd (inserted (repo_create_challenge v h e p a db) db)) u = factor_of db u"
  "factor_of (snd (repo_charge_challenge_attempt now h p m db)) u = factor_of db u"
  "factor_of (snd (repo_take_challenge now h p db)) u = factor_of db u"
  "factor_of (repo_delete_challenge h db) u = factor_of db u"
  "factor_of (snd (repo_delete_challenges_for_user v db)) u = factor_of db u"
  "factor_of (snd (repo_sweep_expired_challenges now m db)) u = factor_of db u"
  "factor_of (snd (inserted (repo_create_session now v h e db) db)) u = factor_of db u"
  "factor_of (snd (repo_find_active_by_hash now h db)) u = factor_of db u"
  "factor_of (repo_delete_by_hash h db) u = factor_of db u"
  "factor_of (repo_delete_for_user v db) u = factor_of db u"
  "factor_of (snd (repo_delete_for_user_except v keep db)) u = factor_of db u"
  "factor_of (snd (repo_disable v db)) u = (if u = v then None else factor_of db u)"
  by (simp_all add: factor_of_def inserted_def repo_replace_recovery_codes_def repo_consume_recovery_code_def
      repo_create_challenge_def repo_charge_challenge_attempt_def repo_take_challenge_def repo_delete_challenge_def
      repo_delete_challenges_for_user_def repo_sweep_expired_challenges_def repo_create_session_def
      repo_find_active_by_hash_def repo_delete_by_hash_def repo_delete_for_user_def repo_delete_for_user_except_def
      repo_disable_def Let_def split: option.splits)

lemma factor_step: "factor_of (snd (exec_stmt ot now s db)) u = factor_after now s u (factor_of db u)"
  by (cases s) (auto simp: repo_begin_enrolment_def repo_confirm_def repo_spend_step_def factor_of_def [of "db\<lparr>db_audit := a\<rparr>" for a]
      factor_of_def [of db, symmetric] split: option.splits)

text \<open>A property of a user's factor that no statement of a run upsets holds at its end.\<close>

lemma traced_factor:
  assumes "traced db evs db'" "P (factor_of db u)"
    and "\<And>t s r now f. (t, s, r) \<in> set evs \<Longrightarrow> P f \<Longrightarrow> P (factor_after now s u f)"
  shows "P (factor_of db' u)"
  using assms
proof (induction rule: traced.induct)
  case (traced_ok ot now s db r db1 evs db2 t)
  then have "P (factor_of db1 u)" using factor_step [of ot now s db u] by (metis list.set_intros(1) snd_conv)
  with traced_ok show ?case by (meson list.set_intros(2))
next
  case (traced_fail db evs db2 t s)
  then show ?case by (meson list.set_intros(2))
qed

section \<open>Steps are spent in order\<close>

definition rewrites_factor :: "uuid \<Rightarrow> stmt \<Rightarrow> bool" where
  "rewrites_factor u s =
     (case s of BeginEnrolment v c n \<Rightarrow> v = u | Confirm v k n \<Rightarrow> v = u | Disable v \<Rightarrow> v = u | DeleteUser v \<Rightarrow> v = u
      | _ \<Rightarrow> False)"

definition spent_at_least :: "nat \<Rightarrow> sealed_factor option \<Rightarrow> bool" where
  "spent_at_least k f = (case f of None \<Rightarrow> False | Some f \<Rightarrow> (case sf_last_used_step f of None \<Rightarrow> False | Some l \<Rightarrow> k \<le> l))"

lemma spent_at_least_step:
  "spent_at_least k f \<Longrightarrow> \<not> rewrites_factor u s \<Longrightarrow> spent_at_least k (factor_after now s u f)"
  by (cases s) (auto simp: spent_at_least_def rewrites_factor_def split: option.splits)

lemma traced_split:
  assumes "traced db (pre @ (t, s, r) # post) db'" "r \<noteq> RFailed"
  obtains ot now db1 db2 where "traced db pre db1" "exec_stmt ot now s db1 = (r, db2)" "traced db2 post db'"
  using assms by (auto simp: traced_append elim!: traced_ConsE)

lemma spend_succeeds:
  assumes "exec_stmt ot now (SpendStep u k) db = (RFlag True, db')"
  shows "spent_at_least k (factor_of db' u)" "\<not> spent_at_least k (factor_of db u)"
  using assms factor_step [of ot now "SpendStep u k" db u]
  by (auto simp: repo_spend_step_def spent_at_least_def split: option.splits if_splits)

text \<open>
  C12: A step of the code clock is spent once. Of two successful spends for one account the later one is of
  a strictly later step, unless the factor was confirmed, replaced or removed between them: in every
  interleaving of any requests, at most one of those presenting one code gets past it.
\<close>

theorem step_spent_once:
  assumes "run picks (db, ps) =
      (pre @ (t1, SpendStep u k1, RFlag True) # mid @ (t2, SpendStep u k2, RFlag True) # post, cfg)"
    and "\<forall>(t, s, r) \<in> set mid. \<not> rewrites_factor u s"
  shows "k1 < k2"
proof -
  obtain db' ps' where "cfg = (db', ps')" by (cases cfg)
  with run_traced assms(1) have
    "traced db (pre @ (t1, SpendStep u k1, RFlag True) # mid @ (t2, SpendStep u k2, RFlag True) # post) db'" by blast
  then obtain ot1 now1 db1 db2 where 1: "exec_stmt ot1 now1 (SpendStep u k1) db1 = (RFlag True, db2)"
    "traced db2 (mid @ (t2, SpendStep u k2, RFlag True) # post) db'" by (rule traced_split) auto
  from 1(2) obtain ot2 now2 db3 db4 where 2: "traced db2 mid db3"
    "exec_stmt ot2 now2 (SpendStep u k2) db3 = (RFlag True, db4)" by (rule traced_split) auto
  have "spent_at_least k1 (factor_of db3 u)"
    using 2(1) spend_succeeds(1) [OF 1(1)] by (rule traced_factor) (use assms(2) in \<open>auto intro: spent_at_least_step\<close>)
  with spend_succeeds(2) [OF 2(2)] show ?thesis by (auto simp: spent_at_least_def split: option.splits)
qed

section \<open>An armed factor stays\<close>

definition armed_as :: "nat list \<Rightarrow> nat list \<Rightarrow> timestamp \<Rightarrow> sealed_factor option \<Rightarrow> bool" where
  "armed_as c n since f =
     (case f of None \<Rightarrow> False | Some f \<Rightarrow> sf_ciphertext f = c \<and> sf_nonce f = n \<and> sf_confirmed_at f = Some since)"

definition removes_factor :: "uuid \<Rightarrow> stmt \<Rightarrow> bool" where
  "removes_factor u s = (s = Disable u \<or> s = DeleteUser u)"

lemma armed_as_step: "armed_as c n since f \<Longrightarrow> \<not> removes_factor u s \<Longrightarrow> armed_as c n since (factor_after now s u f)"
  by (cases s) (auto simp: armed_as_def removes_factor_def split: option.splits)

text \<open>
  C36: An armed factor is never replaced or disarmed. Whatever enrolments, confirmations and sign-ins
  run against the account, and however they interleave, the factor stays armed with the same sealed secret
  until it is removed.
\<close>

theorem armed_factor_stays:
  assumes "run picks (db, ps) = (evs, (db', ps'))"
    and "factor_of db u = Some f" "sf_confirmed_at f = Some since"
    and "\<forall>(t, s, r) \<in> set evs. \<not> removes_factor u s"
  shows "\<exists>f'. factor_of db' u = Some f' \<and> sf_ciphertext f' = sf_ciphertext f \<and> sf_nonce f' = sf_nonce f \<and>
    sf_confirmed_at f' = Some since"
proof -
  have "armed_as (sf_ciphertext f) (sf_nonce f) since (factor_of db' u)"
    by (rule traced_factor [OF run_traced [OF assms(1)]]) (use assms(2-4) in \<open>auto simp: armed_as_def [of _ _ _ "Some f"] intro: armed_as_step\<close>)
  then show ?thesis by (auto simp: armed_as_def split: option.splits)
qed

end
