(* ===== verification/Mfa_Props.thy ===== *)
theory Mfa_Props
  imports Mfa_Budgets Mfa_Factor
begin

text \<open>
  What the second factor promises, over every interleaving of any requests: who gets a session, what a
  factor's removal takes, which secret is armed, how often a challenge, an enrolment token or a recovery
  code can be used, and that every request is answered.
\<close>

section \<open>What a request has seen before each statement\<close>

definition opened_secret :: "mfa_env \<Rightarrow> sealed_factor \<Rightarrow> nat list option" where
  "opened_secret x f =
     (case kek_of x of
        None \<Rightarrow> None
      | Some k \<Rightarrow>
          (case kk_decrypt k (sf_ciphertext f) (sf_nonce f) of
             None \<Rightarrow> None
           | Some hex \<Rightarrow> (case hex_decode hex of Some (Some secret) \<Rightarrow> Some secret | _ \<Rightarrow> None)))"

text \<open>
  What a request has seen the database answer: a code of the stored secret whose step it then spent; a
  recovery code it consumed; a code of the stored secret, which it then armed; no armed factor and
  no policy in force that asks for one.
\<close>

definition proved_by_code :: "mfa_env \<Rightarrow> uuid \<Rightarrow> string \<Rightarrow> (stmt \<times> resp) list \<Rightarrow> bool" where
  "proved_by_code x u code past \<longleftrightarrow>
     (\<exists>f secret step. (OpenSecret u, RFactor (Some f)) \<in> set past \<and> opened_secret x f = Some secret \<and>
        verify_at (mx_hmac x) secret (trim code) (mx_now_seconds x) = Some step \<and>
        (SpendStep u step, RFlag True) \<in> set past)"

definition proved_by_recovery :: "mfa_env \<Rightarrow> uuid \<Rightarrow> string \<Rightarrow> (stmt \<times> resp) list \<Rightarrow> bool" where
  "proved_by_recovery x u code past \<longleftrightarrow>
     (ConsumeRecoveryCode u (mx_hash_key x (trim code)), RFlag True) \<in> set past"

definition checked_by_code :: "mfa_env \<Rightarrow> uuid \<Rightarrow> string \<Rightarrow> nat \<Rightarrow> nat list \<Rightarrow> (stmt \<times> resp) list \<Rightarrow> bool" where
  "checked_by_code x u code step nonce past \<longleftrightarrow>
     (\<exists>f secret. (OpenSecret u, RFactor (Some f)) \<in> set past \<and> sf_nonce f = nonce \<and>
        opened_secret x f = Some secret \<and> verify_at (mx_hmac x) secret code (mx_now_seconds x) = Some step)"

definition excused :: "mfa_env \<Rightarrow> uuid \<Rightarrow> (stmt \<times> resp) list \<Rightarrow> bool" where
  "excused x u past \<longleftrightarrow>
     (HasArmedFactor u, RFlag False) \<in> set past \<and>
     (\<exists>user bindings. (GetUser u, RUser (Some user)) \<in> set past \<and>
        (MfaPoliciesForUser u, RPolicies bindings) \<in> set past \<and>
        \<not> enforced (resolve_policy bindings (cu_is_superadmin user) (mx_utc_now x)))"

fun licensed :: "mfa_env \<Rightarrow> mfa_request \<Rightarrow> uuid \<Rightarrow> (stmt \<times> resp) list \<Rightarrow> bool" where
  "licensed x (ReqLoginProved v after_lock) u past \<longleftrightarrow> u = v \<and> excused x u past"
| "licensed x (ReqVerify token code) u past \<longleftrightarrow>
     (\<exists>c. (ChargeChallengeAttempt (mx_hash_key x (trim token)) Verify MAX_CHALLENGE_ATTEMPTS, RChallenge (Some c))
        \<in> set past \<and> mc_user c = u) \<and>
     (proved_by_code x u code past \<or> proved_by_recovery x u code past)"
| "licensed x (ReqSignInConfirm token code) u past \<longleftrightarrow>
     (\<exists>c. (ChargeChallengeAttempt (mx_hash_key x (trim token)) Enrol MAX_ENROLMENT_ATTEMPTS, RChallenge (Some c))
        \<in> set past \<and> mc_user c = u) \<and>
     (HasArmedFactor u, RFlag False) \<in> set past \<and>
     (\<exists>c. (TakeChallenge (mx_hash_key x (trim token)) Enrol, RChallenge (Some c)) \<in> set past) \<and>
     (\<exists>step nonce. checked_by_code x u code step nonce past \<and> (Confirm u step nonce, RFlag True) \<in> set past)"
| "licensed x _ u past \<longleftrightarrow> False"

fun may_remove :: "mfa_env \<Rightarrow> mfa_request \<Rightarrow> uuid \<Rightarrow> (stmt \<times> resp) list \<Rightarrow> bool" where
  "may_remove x (ReqReset v) u past \<longleftrightarrow> u = v"
| "may_remove x (ReqDisable bearer code) u past \<longleftrightarrow>
     (\<exists>token s. bearer = Some token \<and> (FindActiveByHash (mx_hash_key x token), RSession (Some s)) \<in> set past \<and> sr_user s = u) \<and>
     (\<exists>user bindings. (GetUser u, RUser (Some user)) \<in> set past \<and> (MfaPoliciesForUser u, RPolicies bindings) \<in> set past \<and>
        \<not> ep_required (resolve_policy bindings (cu_is_superadmin user) (mx_utc_now x))) \<and>
     (proved_by_code x u code past \<or> proved_by_recovery x u code past)"
| "may_remove x _ u past \<longleftrightarrow> False"

fun code_of :: "mfa_request \<Rightarrow> string option" where
  "code_of (ReqConfirm bearer code) = Some code"
| "code_of (ReqSignInConfirm token code) = Some code"
| "code_of _ = None"

definition seals :: "mfa_env \<Rightarrow> nat list \<Rightarrow> nat list \<Rightarrow> bool" where
  "seals x nonce ciphertext \<longleftrightarrow>
     nonce = mx_nonce x \<and> (\<exists>k. kek_of x = Some k \<and> kk_encrypt k nonce (hex_encode (mx_secret x)) = Some ciphertext)"

definition stmt_guard :: "mfa_env \<Rightarrow> mfa_request \<Rightarrow> (stmt \<times> resp) list \<Rightarrow> stmt \<Rightarrow> bool" where
  "stmt_guard x q past s \<longleftrightarrow>
     (case s of
        CreateSession u h e \<Rightarrow> licensed x q u past
      | Disable u \<Rightarrow> may_remove x q u past
      | Confirm u step nonce \<Rightarrow> (\<exists>code. code_of q = Some code \<and> checked_by_code x u code step nonce past)
      | BeginEnrolment u c n \<Rightarrow> seals x n c
      | DeleteUser u \<Rightarrow> False
      | _ \<Rightarrow> True)"

lemmas ask_defs = ask_flag_def ask_done_def ask_count_def ask_factor_def ask_challenge_def ask_session_def
  ask_policies_def get_user_def audit_def of_opt_def need_kek_def

lemmas mfa_parts = effective_policy_def unseal_def open_secret_def issue_session_def current_user_def
  mint_secret_def mint_recovery_codes_def prove_factor_def mint_challenge_def issue_challenge_def
  issue_enrolment_challenge_def enrolling_user_def status_for_def

lemmas mfa_handlers = login_proved_def verify_challenge_def sign_in_enrol_def sign_in_confirm_def my_status_def
  begin_enrolment_def confirm_enrolment_def regenerate_codes_def disable_factor_def logout_def
  break_glass_reset_def

lemma stmts_guarded: "guarded (stmt_guard x q) (serve x q) []"
  by (cases q) (simp_all add: mfa_handlers mfa_parts ask_defs Let_def stmt_guard_def seals_def
      excused_def proved_by_code_def proved_by_recovery_def checked_by_code_def opened_secret_def
      split: resp.splits option.splits prod.splits if_splits mfa_answer.splits)

lemma ends_soon: "ends_within 10 (serve x q)"
  by (cases q) (simp_all add: mfa_handlers mfa_parts ask_defs Let_def numeral_eq_Suc
      split: resp.splits option.splits prod.splits if_splits mfa_answer.splits)

section \<open>Requests in a run\<close>

abbreviation serving :: "(mfa_env \<times> mfa_request) list \<Rightarrow> (mfa_error + mfa_answer) prog list" where
  "serving reqs \<equiv> map (\<lambda>(x, q). serve x q) reqs"

lemma run_thread:
  "run picks (db, ps) = (evs, cfg) \<Longrightarrow> (t, s, r) \<in> set evs \<Longrightarrow> t < length ps"
proof (induction picks arbitrary: db ps evs)
  case (Cons p picks)
  obtain e db1 ps1 where st: "step_pool p (db, ps) = (e, (db1, ps1))" by (metis surj_pair)
  with Cons.prems obtain es where "run picks (db1, ps1) = (es, cfg)" "evs = e @ es"
    by (auto simp: Let_def split: prod.splits)
  with Cons.IH [of db1 ps1 es] Cons.prems(2) st show ?case by (elim step_pool_cases) auto
qed simp

lemma run_guard:
  assumes "run picks (db, serving reqs) = (pre @ (t, s, r) # post, cfg)"
  shows "t < length reqs" "stmt_guard (fst (reqs ! t)) (snd (reqs ! t)) (events_of t pre) s"
proof -
  show t: "t < length reqs" using run_thread [OF assms, of t s r] by simp
  have "guarded (stmt_guard (fst (reqs ! t)) (snd (reqs ! t))) (serving reqs ! t) []"
    using t stmts_guarded by (simp add: case_prod_beta)
  with guarded_run [OF assms] t show "stmt_guard (fst (reqs ! t)) (snd (reqs ! t)) (events_of t pre) s" by simp
qed



section \<open>What is armed is what was proved\<close>

lemma run_split:
  assumes "run picks cfg = (pre @ e # post, cfg')"
  shows "\<exists>picks1 p picks2 cfg1. picks = picks1 @ p # picks2 \<and> run picks1 cfg = (pre, cfg1) \<and> fst (step_pool p cfg1) = [e]"
  using assms
proof (induction picks arbitrary: cfg pre)
  case (Cons p picks)
  obtain e1 cfg1 where st: "step_pool p cfg = (e1, cfg1)" by (metis surj_pair)
  obtain es cfg2 where r: "run picks cfg1 = (es, cfg2)" by (metis surj_pair)
  have eq: "e1 @ es = pre @ e # post" "cfg2 = cfg'" using Cons.prems st r by simp_all
  have "e1 = [] \<or> (\<exists>a. e1 = [a])" using st by (cases cfg) (auto elim: step_pool_cases)
  then consider "e1 = []" | a where "e1 = [a]" by blast
  then show ?case
  proof cases
    case 1
    with eq r Cons.IH [of cfg1 pre] obtain picks1 p' picks2 c where
      "picks = picks1 @ p' # picks2" "run picks1 cfg1 = (pre, c)" "fst (step_pool p' c) = [e]" by auto
    with st 1 show ?thesis by (intro exI [of _ "p # picks1"]) auto
  next
    case 2
    show ?thesis
    proof (cases pre)
      case Nil
      with eq 2 st show ?thesis by (intro exI [of _ "[]"]) auto
    next
      case (Cons b pre')
      with eq 2 have "run picks cfg1 = (pre' @ e # post, cfg')" using r by simp
      from Cons.IH [OF this] obtain picks1 p' picks2 c where
        "picks = picks1 @ p' # picks2" "run picks1 cfg1 = (pre', c)" "fst (step_pool p' c) = [e]" by auto
      with st 2 Cons eq show ?thesis by (intro exI [of _ "p # picks1"]) auto
    qed
  qed
qed simp

definition sealed_pairs :: "mfa_db \<Rightarrow> mfa_env list \<Rightarrow> (nat list \<times> nat list) set" where
  "sealed_pairs db xs =
     {(sf_nonce f, sf_ciphertext f) | u f. factor_of db u = Some f} \<union> {(n, c) | x n c. x \<in> set xs \<and> seals x n c}"

definition fresh_nonces :: "mfa_db \<Rightarrow> mfa_env list \<Rightarrow> bool" where
  "fresh_nonces db xs \<longleftrightarrow>
     distinct (map mx_nonce xs) \<and>
     (\<forall>f \<in> snd ` set (db_factors db). sf_nonce f \<notin> mx_nonce ` set xs) \<and>
     (\<forall>f \<in> snd ` set (db_factors db). \<forall>g \<in> snd ` set (db_factors db).
        sf_nonce f = sf_nonce g \<longrightarrow> sf_ciphertext f = sf_ciphertext g)"

lemma opened_secret_cong:
  "sf_ciphertext f = sf_ciphertext g \<Longrightarrow> sf_nonce f = sf_nonce g \<Longrightarrow> opened_secret x f = opened_secret x g"
  by (simp add: opened_secret_def cong: option.case_cong)

lemma seals_unique: "seals x n c \<Longrightarrow> seals x n c' \<Longrightarrow> c = c'"
  by (auto simp: seals_def)

lemma sealed_pairs_unique:
  assumes "fresh_nonces db xs" "(n, c) \<in> sealed_pairs db xs" "(n, c') \<in> sealed_pairs db xs"
  shows "c = c'"
proof -
  have row: "factor_of db u = Some f \<Longrightarrow> f \<in> snd ` set (db_factors db)" for u f
    by (force simp: factor_of_def hm_get_def dest: map_of_SomeD)
  have old: "\<forall>f\<in>snd ` set (db_factors db). \<forall>g\<in>snd ` set (db_factors db). sf_nonce f = sf_nonce g \<longrightarrow> sf_ciphertext f = sf_ciphertext g"
    and new: "\<forall>f\<in>snd ` set (db_factors db). sf_nonce f \<notin> mx_nonce ` set xs"
    and dist: "inj_on mx_nonce (set xs)"
    using assms(1) unfolding fresh_nonces_def distinct_map by blast+
  have old_new: "c = c'" if "factor_of db u = Some f" "(n, c) = (sf_nonce f, sf_ciphertext f)" "x \<in> set xs" "seals x n c'" for u f x c c'
  proof -
    have "sf_nonce f \<notin> mx_nonce ` set xs" using new row [OF that(1)] by blast
    with that show ?thesis by (auto simp: seals_def)
  qed
  from assms(2) consider u f where "factor_of db u = Some f" "(n, c) = (sf_nonce f, sf_ciphertext f)"
    | x where "x \<in> set xs" "seals x n c" by (auto simp: sealed_pairs_def)
  then show ?thesis
  proof cases
    case 1
    from assms(3) consider v g where "factor_of db v = Some g" "(n, c') = (sf_nonce g, sf_ciphertext g)"
      | x where "x \<in> set xs" "seals x n c'" by (auto simp: sealed_pairs_def)
    with 1 old row old_new show ?thesis by cases (metis Pair_inject)+
  next
    case x: 2
    from assms(3) consider v g where "factor_of db v = Some g" "(n, c') = (sf_nonce g, sf_ciphertext g)"
      | y where "y \<in> set xs" "seals y n c'" by (auto simp: sealed_pairs_def)
    then show ?thesis
    proof cases
      case 1
      with x old_new show ?thesis by metis
    next
      case (2 y)
      with x dist have "x = y" by (metis inj_onD seals_def)
      with x 2 seals_unique show ?thesis by blast
    qed
  qed
qed

text \<open>Every factor of a run is one of those pairs.\<close>

lemma run_sealed:
  assumes "run picks (db, serving reqs) = (evs, (db', ps'))" "factor_of db' u = Some f"
  shows "(sf_nonce f, sf_ciphertext f) \<in> sealed_pairs db (map fst reqs)"
proof -
  let ?P = "\<lambda>f. case f of None \<Rightarrow> True | Some f \<Rightarrow> (sf_nonce f, sf_ciphertext f) \<in> sealed_pairs db (map fst reqs)"
  have "?P (factor_of db' u)"
  proof (rule traced_factor [OF run_traced [OF assms(1)]])
    show "?P (factor_of db u)" by (auto simp: sealed_pairs_def split: option.splits)
    fix t s r now and f :: "sealed_factor option" assume e: "(t, s, r) \<in> set evs" and f: "?P f"
    then obtain pre post where "evs = pre @ (t, s, r) # post" by (auto dest: split_list)
    with run_guard assms(1) have g: "t < length reqs" "stmt_guard (fst (reqs ! t)) (snd (reqs ! t)) (events_of t pre) s" by auto
    have "(n, c) \<in> sealed_pairs db (map fst reqs)" if "s = BeginEnrolment v c n" for v c n
      using g that by (auto simp: stmt_guard_def sealed_pairs_def)
    with f show "?P (factor_after now s u f)" by (cases s) (auto simp: pending_factor_def split: option.splits)
  qed
  with assms(2) show ?thesis by simp
qed

text \<open>
  C15: The secret that is armed is the one the code was checked against. If every secret is sealed under a
  fresh nonce, then whenever a request arms a factor, the row at that moment holds a secret of which the code
  that very request presented is a valid code: no enrolment that lands between the check and the write
  gets its own secret armed.
\<close>

theorem armed_secret_was_proved:
  assumes "run picks (db, serving reqs) = (pre @ (t, Confirm u step nonce, RFlag True) # post, cfg)"
    and "fresh_nonces db (map fst reqs)"
  shows "\<exists>picks1 db1 ps1 f secret code.
    prefix picks1 picks \<and> run picks1 (db, serving reqs) = (pre, (db1, ps1)) \<and>
    factor_of db1 u = Some f \<and> opened_secret (fst (reqs ! t)) f = Some secret \<and>
    code_of (snd (reqs ! t)) = Some code \<and>
    verify_at (mx_hmac (fst (reqs ! t))) secret code (mx_now_seconds (fst (reqs ! t))) = Some step"
proof -
  define x where "x = fst (reqs ! t)"
  obtain picks1 p picks2 db1 ps1 where at: "picks = picks1 @ p # picks2" "run picks1 (db, serving reqs) = (pre, (db1, ps1))"
    "fst (step_pool p (db1, ps1)) = [(t, Confirm u step nonce, RFlag True)]"
    using run_split [OF assms(1)] by (metis surj_pair)
  have "fst (repo_confirm (pk_now p) u step nonce db1)"
    using at(3) by (cases "repo_confirm (pk_now p) u step nonce db1") (auto simp: step_pool_def Let_def perform_def split: if_splits prog.splits prod.splits)
  then obtain f where f: "factor_of db1 u = Some f" "sf_nonce f = nonce"
    by (auto simp: repo_confirm_def split: option.splits if_splits)
  obtain g secret code where g: "(OpenSecret u, RFactor (Some g)) \<in> set (events_of t pre)" "sf_nonce g = nonce"
    "opened_secret x g = Some secret" "verify_at (mx_hmac x) secret code (mx_now_seconds x) = Some step"
    "code_of (snd (reqs ! t)) = Some code"
    using run_guard(2) [OF assms(1)] by (auto simp: stmt_guard_def checked_by_code_def x_def)
  from g(1) have "(t, OpenSecret u, RFactor (Some g)) \<in> set pre" by (auto simp: events_of_def)
  then obtain pre1 pre2 where "pre = pre1 @ (t, OpenSecret u, RFactor (Some g)) # pre2" by (auto dest: split_list)
  with run_split [OF at(2) [unfolded this]] obtain picks3 q db2 ps2 where o: "run picks3 (db, serving reqs) = (pre1, (db2, ps2))"
    "fst (step_pool q (db2, ps2)) = [(t, OpenSecret u, RFactor (Some g))]" by (metis surj_pair)
  have "factor_of db2 u = Some g"
    using o(2) by (auto simp: step_pool_def Let_def perform_def split: if_splits prog.splits prod.splits)
  with run_sealed [OF o(1)] run_sealed [OF at(2) f(1)] f(2) g(2) sealed_pairs_unique [OF assms(2)]
  have "sf_ciphertext f = sf_ciphertext g" by metis
  moreover have "sf_nonce f = sf_nonce g" using f(2) g(2) by simp
  ultimately have "opened_secret x f = Some secret" using g(3) opened_secret_cong by metis
  moreover have "prefix picks1 picks" using at(1) by simp
  ultimately show ?thesis using at(2) f(1) g(4,5) unfolding x_def by blast
qed

end
