(* ===== verification/Mfa_Spec.thy ===== *)
theory Mfa_Spec
  imports Mfa_Props
begin

text \<open>
  The remaining claims on the second factor, runs that witness the claims, and runs that show where the
  code and its comments part.
\<close>

section \<open>A small deployment\<close>

definition demo_hmac :: "nat list \<Rightarrow> nat list \<Rightarrow> nat list" where
  "demo_hmac key msg = replicate 19 ((last msg + last key) mod 256) @ [3]"

definition demo_kek :: kek where
  "demo_kek = \<lparr>kk_encrypt = \<lambda>n t. Some (map of_char t), kk_decrypt = \<lambda>c n. Some (map char_of c)\<rparr>"

definition demo_env :: "nat \<Rightarrow> nat \<Rightarrow> mfa_env" where
  "demo_env tag seconds =
     \<lparr>mx_hmac = demo_hmac, mx_hash_key = (\<lambda>s. CHR ''#'' # s), mx_kek_env = Some demo_kek, mx_without_kek = False,
      mx_issuer_env = None, mx_open_mode = False, mx_secret = [tag], mx_nonce = [tag], mx_token = [tag],
      mx_codes = [[tag, 1], [tag, 2]], mx_now_seconds = seconds, mx_utc_now = 0\<rparr>"

lemma demo_env_sel [simp]:
  "mx_hmac (demo_env tag seconds) = demo_hmac" "mx_hash_key (demo_env tag seconds) = (\<lambda>s. CHR ''#'' # s)"
  "kek_of (demo_env tag seconds) = Some demo_kek" "mx_issuer_env (demo_env tag seconds) = None"
  "mx_open_mode (demo_env tag seconds) = False" "mx_secret (demo_env tag seconds) = [tag]"
  "mx_nonce (demo_env tag seconds) = [tag]" "mx_token (demo_env tag seconds) = [tag]"
  "mx_codes (demo_env tag seconds) = [[tag, 1], [tag, 2]]" "mx_now_seconds (demo_env tag seconds) = seconds"
  "mx_utc_now (demo_env tag seconds) = 0"
  "kk_encrypt demo_kek n t = Some (map of_char t)" "kk_decrypt demo_kek c n = Some (map char_of c)"
  by (simp_all add: demo_env_def demo_kek_def kek_of_def)

definition demo_tables :: "mfa_policy_binding list \<Rightarrow> other_tables" where
  "demo_tables bindings =
     \<lparr>ot_users = \<lambda>_. Some \<lparr>cu_email = ''ada'', cu_is_superadmin = False, cu_deactivated_at = None\<rparr>,
      ot_policies = \<lambda>_. bindings\<rparr>"

definition demo_pick :: "nat \<Rightarrow> pick" where
  "demo_pick t = \<lparr>pk_thread = t, pk_now = 0, pk_fails = False, pk_other = demo_tables []\<rparr>"

lemma demo_pick_sel [simp]:
  "pk_thread (demo_pick t) = t" "pk_now (demo_pick t) = 0" "pk_fails (demo_pick t) = False"
  "pk_other (demo_pick t) = demo_tables []" "ot_policies (demo_tables bs) u = bs"
  "ot_users (demo_tables bs) u = Some \<lparr>cu_email = ''ada'', cu_is_superadmin = False, cu_deactivated_at = None\<rparr>"
  by (simp_all add: demo_pick_def demo_tables_def)

definition demo_factor :: "nat \<Rightarrow> timestamp option \<Rightarrow> sealed_factor" where
  "demo_factor tag since =
     \<lparr>sf_ciphertext = map of_char (hex_encode [tag]), sf_nonce = [100 + tag], sf_confirmed_at = since, sf_last_used_step = None\<rparr>"

definition demo_challenge :: "string \<Rightarrow> challenge_purpose \<Rightarrow> mfa_challenge" where
  "demo_challenge token purpose =
     \<lparr>mc_user = 7, mc_token_hash = CHR ''#'' # token, mc_attempts = 0, mc_expires_at = 1000, mc_purpose = purpose,
      mc_after_lock = False\<rparr>"

text \<open>One account with an armed factor, a session, two step-ups and an enrolment token in flight.\<close>

definition demo_db :: mfa_db where
  "demo_db =
     \<lparr>db_factors = [(7, demo_factor 3 (Some 0))], db_codes = [\<lparr>rr_user = 7, rr_code_hash = ''#SPARE'', rr_used_at = None\<rparr>],
      db_challenges = [demo_challenge ''one'' Verify, demo_challenge ''two'' Verify, demo_challenge ''enrol'' Enrol],
      db_sessions = [\<lparr>sr_user = 7, sr_token_hash = ''#tab'', sr_expires_at = 1000, sr_last_seen_at = 0\<rparr>], db_audit = []\<rparr>"

definition demo_code :: "nat \<Rightarrow> nat \<Rightarrow> string" where
  "demo_code tag step = code_at_step demo_hmac [tag] step"

abbreviation picks_of :: "(nat \<times> nat) list \<Rightarrow> pick list" where
  "picks_of plan \<equiv> concat (map (\<lambda>(t, n). replicate n (demo_pick t)) plan)"

fun answer_of :: "'a prog \<Rightarrow> 'a option" where
  "answer_of (Ret x) = Some x"
| "answer_of (Do s k) = None"

lemma run_at:
  assumes "i < length (fst r)" "fst r ! i = e"
  shows "r = (take i (fst r) @ e # drop (Suc i) (fst r), snd r)"
  using assms by (auto simp: id_take_nth_drop [symmetric] intro: prod_eqI)


section \<open>Evaluating runs\<close>

text \<open>Programs are evaluated statement by statement: nothing is rewritten behind a reply that is not there yet.\<close>

lemma Do_cong: "s = s' \<Longrightarrow> Do s k = Do s' k" by simp
lemma and_then_cong: "p = p' \<Longrightarrow> and_then p f = and_then p' f" by simp
lemma map_err_cong: "p = p' \<Longrightarrow> map_err g p = map_err g p'" by simp

lemma replicate_num: "replicate (numeral k) x = x # replicate (pred_numeral k) x"
  by (simp add: numeral_eq_Suc)

lemmas store_ops = set_factor_def factor_of_def repo_begin_enrolment_def repo_has_armed_factor_def repo_confirm_def repo_spend_step_def
  repo_disable_def repo_replace_recovery_codes_def live_code_def repo_consume_recovery_code_def repo_remaining_recovery_codes_def
  repo_create_challenge_def live_row_def charged_def repo_charge_challenge_attempt_def repo_live_challenge_def takeable_def
  repo_take_challenge_def repo_delete_challenge_def repo_delete_challenges_for_user_def repo_create_session_def active_session_def
  repo_find_active_by_hash_def repo_delete_by_hash_def repo_delete_for_user_def inserted_def pending_factor_def
  hm_get_def hm_insert_def hm_remove_def

lemmas run_ops = step_pool_def perform_def Let_def store_ops demo_db_def demo_factor_def demo_challenge_def
  mfa_handlers mfa_parts ask_defs MAX_CHALLENGE_ATTEMPTS_def MAX_ENROLMENT_ATTEMPTS_def minutes_def SESSION_TTL_HOURS_def
  generate_token_def replicate_num

lemmas run_congs = Do_cong and_then_cong map_err_cong

lemma demo_texts:
  "hex_encode [3] = ''03''" "hex_encode [20] = ''14''" "hex_encode [21] = ''15''" "hex_encode [22] = ''16''" "hex_encode [30] = ''1e''"
  "hex_decode ''03'' = Some (Some [3])" "hex_decode ''15'' = Some (Some [21])" "hex_decode ''14'' = Some (Some [20])"
  "trim ''one'' = ''one''" "trim ''two'' = ''two''" "trim ''enrol'' = ''enrol''" "trim ''SPARE'' = ''SPARE''"
  "trim ''rolter_mfa_1e'' = ''rolter_mfa_1e''"
  by code_simp+

lemma demo_chars:
  "char_of (48::nat) = CHR ''0''" "char_of (49::nat) = CHR ''1''" "char_of (51::nat) = CHR ''3''" "char_of (52::nat) = CHR ''4''"
  "char_of (53::nat) = CHR ''5''" "char_of (65::nat) = CHR ''A''" "char_of (66::nat) = CHR ''B''" "char_of (67::nat) = CHR ''C''"
  "char_of (81::nat) = CHR ''Q''" "char_of (85::nat) = CHR ''U''" "char_of (89::nat) = CHR ''Y''"
  by code_simp+

lemma demo_codes:
  "demo_code 3 4 = ''901063''" "demo_code 3 5 = ''744072''" "demo_code 3 6 = ''587081''" "demo_code 20 5 = ''075225''"
  "demo_code 21 5 = ''918234''"
  by code_simp+

lemma demo_shapes:
  "trim ''744072'' = ''744072''" "trim ''587081'' = ''587081''" "trim ''918234'' = ''918234''" "trim ''000000'' = ''000000''"
  "is_totp_shaped ''744072''" "is_totp_shaped ''587081''" "is_totp_shaped ''918234''" "is_totp_shaped ''000000''"
  "\<not> is_totp_shaped ''SPARE''"
  by code_simp+

lemma demo_checks:
  "verify_at demo_hmac [3] ''744072'' 150 = Some 5" "verify_at demo_hmac [3] ''587081'' 180 = Some 6"
  "verify_at demo_hmac [3] ''901063'' 150 = Some 4" "verify_at demo_hmac [20] ''075225'' 150 = Some 5"
  "verify_at demo_hmac [21] ''918234'' 150 = Some 5" "verify_at demo_hmac [3] ''000000'' 150 = None"
  by code_simp+

lemmas demo_ops = run_ops demo_texts demo_chars demo_codes demo_shapes demo_checks enforced_def resolve_policy_def map_filter_simps
  can_enrol_def CHALLENGE_TTL_MINUTES_def removes_factor_def rewrites_factor_def

text \<open>The step-up: one request redeems a challenge with a code of the armed secret.\<close>

definition step_up_reqs :: "(mfa_env \<times> mfa_request) list" where
  "step_up_reqs = [(demo_env 20 150, ReqVerify ''one'' (demo_code 3 5))]"

definition step_up_run :: "event list \<times> (mfa_error + mfa_answer) pool" where
  "step_up_run = run (picks_of [(0, 7)]) (demo_db, serving step_up_reqs)"


text \<open>The owner turns the factor off with a recovery code.\<close>

definition turn_off_reqs :: "(mfa_env \<times> mfa_request) list" where
  "turn_off_reqs = [(demo_env 20 150, ReqDisable (Some ''tab'') ''SPARE'')]"

definition turn_off_run :: "event list \<times> (mfa_error + mfa_answer) pool" where
  "turn_off_run = run (picks_of [(0, 9)]) (demo_db, serving turn_off_reqs)"


text \<open>An enrolment from a session, with a second one between the check and the confirmation.\<close>

definition enrol_db :: mfa_db where
  "enrol_db = demo_db\<lparr>db_factors := []\<rparr>"

definition enrol_reqs :: "(mfa_env \<times> mfa_request) list" where
  "enrol_reqs = [(demo_env 20 150, ReqBeginEnrolment (Some ''tab'')), (demo_env 21 150, ReqConfirm (Some ''tab'') (demo_code 20 5)),
     (demo_env 22 150, ReqBeginEnrolment (Some ''tab''))]"

definition enrol_run :: "event list \<times> (mfa_error + mfa_answer) pool" where
  "enrol_run = run (picks_of [(0, 4), (1, 4), (2, 4)]) (enrol_db, serving enrol_reqs)"

lemma armed_secret_was_proved_witness:
  "\<exists>picks1 db1 ps1 f secret code.
    prefix picks1 (picks_of [(0, 4), (1, 4), (2, 4)]) \<and>
    run picks1 (enrol_db, serving enrol_reqs) = (take 7 (fst enrol_run), (db1, ps1)) \<and>
    factor_of db1 7 = Some f \<and> opened_secret (fst (enrol_reqs ! 1)) f = Some secret \<and>
    code_of (snd (enrol_reqs ! 1)) = Some code \<and>
    verify_at (mx_hmac (fst (enrol_reqs ! 1))) secret code (mx_now_seconds (fst (enrol_reqs ! 1))) = Some 5"
proof -
  have e: "7 < length (fst enrol_run)" "fst enrol_run ! 7 = (1, Confirm 7 5 [20], RFlag True)"
    by (simp_all add: enrol_run_def enrol_reqs_def enrol_db_def demo_ops cong: run_congs)
  have "fresh_nonces enrol_db (map fst enrol_reqs)"
    by (simp add: fresh_nonces_def enrol_db_def enrol_reqs_def)
  from armed_secret_was_proved [OF run_at [OF e, unfolded enrol_run_def] this]
  show ?thesis unfolding enrol_run_def .
qed

text \<open>Two codes of successive steps, each redeeming its own challenge.\<close>

definition two_reqs :: "(mfa_env \<times> mfa_request) list" where
  "two_reqs = [(demo_env 20 150, ReqVerify ''one'' (demo_code 3 5)), (demo_env 21 180, ReqVerify ''two'' (demo_code 3 6))]"

definition two_run :: "event list \<times> (mfa_error + mfa_answer) pool" where
  "two_run = run (picks_of [(0, 7), (1, 7)]) (demo_db, serving two_reqs)"

lemma step_spent_once_witness:
  "fst two_run ! 2 = (0, SpendStep 7 5, RFlag True) \<and> fst two_run ! 9 = (1, SpendStep 7 6, RFlag True) \<and> (5::nat) < 6"
proof -
  let ?evs = "fst two_run"
  have at: "9 < length ?evs" "?evs ! 2 = (0, SpendStep 7 5, RFlag True)" "?evs ! 9 = (1, SpendStep 7 6, RFlag True)"
    by (simp_all add: two_run_def two_reqs_def demo_ops cong: run_congs)
  have split: "?evs = take 2 ?evs @ (0, SpendStep 7 5, RFlag True) # take 6 (drop 3 ?evs) @ (1, SpendStep 7 6, RFlag True) # drop 10 ?evs"
    by (simp_all add: two_run_def two_reqs_def demo_ops cong: run_congs)
  have quiet: "\<forall>(t, s, r) \<in> set (take 6 (drop 3 ?evs)). \<not> rewrites_factor 7 s"
    by (simp_all add: two_run_def two_reqs_def demo_ops cong: run_congs)
  have "run (picks_of [(0, 7), (1, 7)]) (demo_db, serving two_reqs) =
      (take 2 ?evs @ (0, SpendStep 7 5, RFlag True) # take 6 (drop 3 ?evs) @ (1, SpendStep 7 6, RFlag True) # drop 10 ?evs, snd two_run)"
    unfolding split [symmetric] by (simp add: two_run_def)
  from step_spent_once [OF this quiet] at show ?thesis by blast
qed

lemma armed_factor_stays_witness:
  "\<exists>f'. factor_of (fst (snd two_run)) 7 = Some f' \<and> sf_ciphertext f' = sf_ciphertext (demo_factor 3 (Some 0)) \<and>
     sf_nonce f' = sf_nonce (demo_factor 3 (Some 0)) \<and> sf_confirmed_at f' = Some 0"
proof -
  have "run (picks_of [(0, 7), (1, 7)]) (demo_db, serving two_reqs) = (fst two_run, (fst (snd two_run), snd (snd two_run)))"
    by (simp add: two_run_def)
  moreover have "factor_of demo_db 7 = Some (demo_factor 3 (Some 0))" by (simp add: demo_db_def factor_of_def hm_get_def)
  moreover have "sf_confirmed_at (demo_factor 3 (Some 0)) = Some 0" by (simp add: demo_factor_def)
  moreover have "\<forall>(t, s, r) \<in> set (fst two_run). \<not> removes_factor 7 s"
    by (simp_all add: two_run_def two_reqs_def demo_ops cong: run_congs)
  ultimately show ?thesis by (rule armed_factor_stays)
qed

section \<open>How often\<close>

text \<open>
  C18: The guesses one password buys. In any interleaving of any requests, the attempts that a challenge's
  token lets through to a code check are at most the limit of its kind (three for a step-up, five for an
  enrolment) for each time the database stored a challenge under that token, however many
  requests present it in parallel.
\<close>

theorem challenge_guesses_bounded:
  assumes "run picks (db, serving reqs) = (evs, cfg)" "unique_tokens db" "challenge_of db h = None"
  shows "count_events (charges h m) evs \<le> m * count_events (creates h) evs"
  using guesses.run_budget [OF assms(1,2), of h m] assms(3) by (simp add: guesses_left_def)

definition guess_reqs :: "(mfa_env \<times> mfa_request) list" where
  "guess_reqs = [(demo_env 30 150, ReqLoginProved 7 False), (demo_env 31 150, ReqVerify ''rolter_mfa_1e'' ''000000'')]"

definition guess_run :: "event list \<times> (mfa_error + mfa_answer) pool" where
  "guess_run = run (picks_of [(0, 4), (1, 3)]) (demo_db, serving guess_reqs)"

lemma challenge_guesses_bounded_witness:
  "count_events (charges ''#rolter_mfa_1e'' 3) (fst guess_run) = 1 \<and> count_events (creates ''#rolter_mfa_1e'') (fst guess_run) = 1 \<and>
   count_events (charges ''#rolter_mfa_1e'' 3) (fst guess_run) \<le> 3 * count_events (creates ''#rolter_mfa_1e'') (fst guess_run)"
proof (intro conjI)
  show "count_events (charges ''#rolter_mfa_1e'' 3) (fst guess_run) = 1" "count_events (creates ''#rolter_mfa_1e'') (fst guess_run) = 1"
    by (simp_all add: guess_run_def guess_reqs_def charges_def creates_def demo_ops cong: run_congs)
  have "unique_tokens demo_db" "challenge_of demo_db ''#rolter_mfa_1e'' = None" by code_simp+
  then show "count_events (charges ''#rolter_mfa_1e'' 3) (fst guess_run) \<le> 3 * count_events (creates ''#rolter_mfa_1e'') (fst guess_run)"
    using challenge_guesses_bounded [of "picks_of [(0, 4), (1, 3)]" demo_db guess_reqs "fst guess_run" "snd guess_run"]
    by (simp add: guess_run_def)
qed

text \<open>
  Enrolment tokens and recovery codes are good once. In any interleaving, the requests that win
  a challenge by its token are at most as many as the times it was stored, and the
  requests a recovery code gets past the factor at most as many as the batches it was issued in, counting
  what the tables held before.
\<close>

theorem single_use:
  assumes "run picks (db, serving reqs) = (evs, cfg)" "unique_tokens db"
  shows "count_events (takes h) evs \<le> redeemable h db + count_events (creates h) evs \<and>
    count_events (consumes u k) evs \<le> usable_code u k db + count_events (issues u k) evs"
  using redemptions.run_budget [OF assms, of h] recovery.run_budget [OF assms(1) TrueI, of u k] by simp

lemma single_use_witness:
  "let evs = fst turn_off_run
   in count_events (consumes 7 ''#SPARE'') evs = 1 \<and> usable_code 7 ''#SPARE'' demo_db = 1 \<and>
     count_events (takes ''#enrol'') evs \<le> redeemable ''#enrol'' demo_db + count_events (creates ''#enrol'') evs"
proof -
  have "unique_tokens demo_db" by code_simp
  from single_use [OF prod.collapse [symmetric] this, where picks = "picks_of [(0, 9)]" and reqs = turn_off_reqs]
  have "count_events (takes ''#enrol'') (fst turn_off_run) \<le> redeemable ''#enrol'' demo_db + count_events (creates ''#enrol'') (fst turn_off_run)"
    by (simp add: turn_off_run_def)
  moreover have "count_events (consumes 7 ''#SPARE'') (fst turn_off_run) = 1" "usable_code 7 ''#SPARE'' demo_db = 1"
    by (simp_all add: turn_off_run_def turn_off_reqs_def consumes_def usable_code_def demo_ops cong: run_congs)
  ultimately show ?thesis by (simp add: Let_def)
qed

section \<open>Every request is answered\<close>

lemma step_pool_thread:
  assumes "step_pool p (db, ps) = (e, (db1, ps1))" "t < length ps" "ends_within n (ps ! t)"
  shows "t < length ps1 \<and> ends_within (if pk_thread p = t then n - 1 else n) (ps1 ! t)"
  using assms(1)
proof (cases rule: step_pool_cases)
  case idle
  then have "pk_thread p = t \<Longrightarrow> \<exists>x. ps ! t = Ret x"
    using assms by (auto simp: step_pool_def Let_def split: if_splits prog.splits prod.splits)
  with idle assms show ?thesis by auto
next
  case (acted s k r db')
  with assms show ?thesis by (cases n) (auto simp: nth_list_update)
qed

lemma run_ends:
  assumes "run picks (db, ps) = (evs, (db', ps'))" "t < length ps" "ends_within n (ps ! t)"
  shows "ends_within (n - length (filter (\<lambda>p. pk_thread p = t) picks)) (ps' ! t)"
  using assms
proof (induction picks arbitrary: db ps evs n)
  case (Cons p picks)
  obtain e db1 ps1 where s: "step_pool p (db, ps) = (e, (db1, ps1))" by (metis surj_pair)
  with Cons.prems(1) obtain es where r: "run picks (db1, ps1) = (es, (db', ps'))"
    by (auto simp: Let_def split: prod.splits)
  from step_pool_thread [OF s Cons.prems(2,3)] Cons.IH [OF r] show ?case by (auto split: if_splits) fastforce+
qed simp



section \<open>Where the code and its comments part\<close>

lemma demo_batch: "encode_chunk [22, Suc 0] = [67, 89, 65, 81]" "encode_chunk [22, 2] = [67, 89, 66, 65]"
  "encode_chunk [21, Suc 0] = [67, 85, 65, 81]" "encode_chunk [21, 2] = [67, 85, 66, 65]"
  by code_simp+

definition outcome :: "event list \<times> 'a pool \<Rightarrow> 'a option list" where
  "outcome r = map answer_of (snd (snd r))"

text \<open>
  A confirmation re-stamps an armed factor with the step of its own code, without comparing: replaying
  the previous code against \<open>/me/mfa/confirm\<close> takes the last spent step back, and a code that has been used
  once gets a second session.
\<close>

lemma confirm_reopens_step:
  "let r = run (picks_of [(0, 7), (1, 6), (2, 7)]) (demo_db, serving
      [(demo_env 20 150, ReqVerify ''one'' (demo_code 3 5)), (demo_env 21 150, ReqConfirm (Some ''tab'') (demo_code 3 4)),
       (demo_env 22 150, ReqVerify ''two'' (demo_code 3 5))])
   in outcome r ! 0 = Some (Inr (AnsSession ''rolter_sess_14'' 7 False None)) \<and>
      outcome r ! 2 = Some (Inr (AnsSession ''rolter_sess_16'' 7 False None))"
  by (simp add: outcome_def recovery_codes_def RECOVERY_CODE_COUNT_def demo_batch demo_ops cong: run_congs)

text \<open>
  The break-glass reset deletes the sessions before the challenges. An enrolment token minted before the
  reset can be redeemed between the two: when the reset has returned, the account carries
  the redeemer's secret, armed, and a live session.
\<close>

lemma reset_can_be_outrun:
  "let r = run (picks_of [(0, 2), (1, 4), (2, 10), (0, 2)]) (demo_db, serving
      [(demo_env 20 150, ReqReset 7), (demo_env 21 150, ReqSignInEnrol ''enrol''),
       (demo_env 22 150, ReqSignInConfirm ''enrol'' (demo_code 21 5))])
   in outcome r ! 0 = Some (Inr (AnsFlag True)) \<and>
      map sr_user (db_sessions (fst (snd r))) = [7] \<and> repo_has_armed_factor 7 (fst (snd r))"
  by (simp add: outcome_def recovery_codes_def RECOVERY_CODE_COUNT_def demo_batch demo_ops cong: run_congs)

text \<open>
  The step-up opens whatever factor row there is: a code of a pending secret redeems a challenge minted
  for the factor it replaced.
\<close>

lemma pending_secret_redeems:
  "let r = run (picks_of [(0, 9), (1, 4), (2, 7)]) (demo_db, serving
      [(demo_env 20 150, ReqDisable (Some ''tab'') ''SPARE''), (demo_env 21 150, ReqBeginEnrolment (Some ''tab'')),
       (demo_env 22 150, ReqVerify ''one'' (demo_code 21 5))])
   in outcome r ! 2 = Some (Inr (AnsSession ''rolter_sess_16'' 7 False None)) \<and> \<not> repo_has_armed_factor 7 (fst (snd r))"
  by (simp add: outcome_def demo_ops cong: run_congs)

end
