(* ===== verification/Mfa_Policy.thy ===== *)
theory Mfa_Policy
  imports Mfa_Spec
begin

text \<open>
  Which policy binds an account, that a sealed secret opens to itself, and that a valid code signs in.
\<close>

section \<open>The policy in force\<close>

lemma max_by_rank_spec:
  "max_by_rank ps best = None \<longleftrightarrow> ps = [] \<and> best = None"
  "max_by_rank ps best = Some p \<Longrightarrow> mfa_policy_rank p = Max (set (map mfa_policy_rank (ps @ (case best of None \<Rightarrow> [] | Some b \<Rightarrow> [b]))))"
proof (induction ps arbitrary: best p)
  case (Cons q ps)
  {
    case 1
    show ?case using Cons.IH(1) by (auto split: option.splits)
  next
    case 2
    let ?best = "case best of None \<Rightarrow> Some q | Some b \<Rightarrow> if mfa_policy_rank b \<le> mfa_policy_rank q then Some q else Some b"
    from 2 have "max_by_rank ps ?best = Some p" by simp
    from Cons.IH(2) [OF this] show ?case
      by (cases best; cases "ps = []") (auto simp: Max_insert max_def split: if_splits)
  }
qed (auto split: option.splits)

lemma earliest_Min: "ts \<noteq> [] \<Longrightarrow> earliest ts = Some (Min (set ts))"
proof (induction ts)
  case (Cons t ts)
  then show ?case by (cases ts) auto
qed simp

definition in_force :: "timestamp \<Rightarrow> mfa_policy_binding \<Rightarrow> bool" where
  "in_force now b = (case pb_enforce_after b of None \<Rightarrow> True | Some t \<Rightarrow> t \<le> now)"

text \<open>
  Which second-factor policy an account is under. A factor is mandatory exactly when some
  organisation's policy binds the account; it is enforced exactly when one of those is past its
  date, so a later date elsewhere never postpones it; otherwise the date shown is the earliest of them.
  The policy shown is the strictest.
\<close>

theorem resolve_policy_spec:
  fixes bindings is_superadmin now
  defines "p \<equiv> resolve_policy bindings is_superadmin now"
    and "bound \<equiv> {b \<in> set bindings. binds (pb_policy b) is_superadmin}"
  shows "ep_required p = (bound \<noteq> {}) \<and>
    enforced p = (\<exists>b \<in> bound. in_force now b) \<and>
    ep_enforce_after p = (if bound = {} \<or> (\<exists>b \<in> bound. in_force now b) then None
      else Some (Min ((the \<circ> pb_enforce_after) ` bound))) \<and>
    mfa_policy_rank (ep_policy p) = Max (insert 0 (mfa_policy_rank ` pb_policy ` set bindings))"
proof -
  define bs where "bs = filter (\<lambda>b. binds (pb_policy b) is_superadmin) bindings"
  have bound: "bound = set bs" by (auto simp: bound_def bs_def)
  have ex: "list_ex (\<lambda>b. case pb_enforce_after b of None \<Rightarrow> True | Some t \<Rightarrow> t \<le> now) bs = (\<exists>b \<in> set bs. in_force now b)"
    by (auto simp: list_ex_iff in_force_def)
  have dates: "List.map_filter pb_enforce_after bs = map (the \<circ> pb_enforce_after) bs" if "\<not> (\<exists>b \<in> set bs. in_force now b)"
    using that by (induction bs) (auto simp: map_filter_simps in_force_def split: option.splits)
  have after: "ep_enforce_after p = (if bs = [] \<or> (\<exists>b \<in> set bs. in_force now b) then None
      else Some (Min ((the \<circ> pb_enforce_after) ` set bs)))"
    using dates by (auto simp: p_def resolve_policy_def Let_def bs_def [symmetric] ex earliest_Min map_filter_simps)
  have req: "ep_required p = (bs \<noteq> [])" by (simp add: p_def resolve_policy_def Let_def bs_def)
  have "mfa_policy_rank (ep_policy p) = Max (insert 0 (mfa_policy_rank ` pb_policy ` set bindings))"
  proof (cases "max_by_rank (map pb_policy bindings) None")
    case None
    then have "bindings = []" using max_by_rank_spec(1) [of "map pb_policy bindings" None] by simp
    then show ?thesis by (simp add: p_def resolve_policy_def Let_def mfa_policy_rank_def)
  next
    case (Some q)
    then have q: "mfa_policy_rank q = Max (mfa_policy_rank ` pb_policy ` set bindings)" "bindings \<noteq> []"
      using max_by_rank_spec(2) [OF Some] by (auto simp: image_image)
    have "ep_policy p = (if 0 < mfa_policy_rank q then q else ''off'')"
      using Some by (simp add: p_def resolve_policy_def Let_def)
    moreover have "mfa_policy_rank ''off'' = 0" by (simp add: mfa_policy_rank_def)
    ultimately show ?thesis using q by (simp add: Max_insert)
  qed
  with after req show ?thesis by (auto simp: bound enforced_def)
qed

section \<open>A sealed secret opens to itself\<close>

lemma hex_val_digit: "n < 16 \<Longrightarrow> hex_val (hex_digit HEX_CHARS n) = Some n \<and> byte (hex_digit HEX_CHARS n) < 128 \<and> hex_digit HEX_CHARS n \<noteq> CHR ''+''"
proof -
  have "\<forall>n\<in>set [0..<16]. hex_val (hex_digit HEX_CHARS n) = Some n \<and> byte (hex_digit HEX_CHARS n) < 128 \<and> hex_digit HEX_CHARS n \<noteq> CHR ''+''"
    by code_simp
  then show "n < 16 \<Longrightarrow> ?thesis" by simp
qed

lemma hex_pair_digits: "b < 256 \<Longrightarrow> hex_pair (hex_digit HEX_CHARS (b div 16)) (hex_digit HEX_CHARS b) = Some b"
  using hex_val_digit [of "b div 16"] hex_val_digit [of "b mod 16"]
  by (simp add: hex_pair_def hex_digit_def less_mult_imp_div_less)

lemma ascii_boundary: "list_all (\<lambda>c. byte c < 128) s \<Longrightarrow> i \<le> length s \<Longrightarrow> is_char_boundary s i"
  by (auto simp: is_char_boundary_def list_all_length)

lemma hex_encode_ascii: "list_all (\<lambda>c. byte c < 128) (hex_encode bs)"
proof -
  have "byte (hex_digit HEX_CHARS n) < 128" for n using hex_val_digit [of "n mod 16"] by (simp add: hex_digit_def)
  then show ?thesis by (auto simp: hex_encode_def list_all_iff)
qed

lemma hex_encode_length: "length (hex_encode bs) = 2 * length bs"
  by (induction bs) (auto simp: hex_encode_def)

lemma hex_decode_encoded:
  assumes "list_all (\<lambda>c. byte c < 128) whole" "i + 2 * length bs = length whole" "list_all (\<lambda>b. b < 256) bs"
  shows "hex_decode_loop whole (hex_encode bs) i out = Some (Some (out @ bs))"
  using assms(2,3)
proof (induction bs arbitrary: i out)
  case (Cons b bs)
  have "hex_encode (b # bs) = hex_digit HEX_CHARS (b div 16) # hex_digit HEX_CHARS b # hex_encode bs"
    by (simp add: hex_encode_def)
  moreover have "is_char_boundary whole i" "is_char_boundary whole (i + 2)"
    using Cons.prems(1) by (auto intro: ascii_boundary [OF assms(1)])
  ultimately show ?case using Cons.IH [of "i + 2" "out @ [b]"] Cons.prems by (simp add: hex_pair_digits)
qed (simp add: hex_encode_def)

lemma hex_roundtrip: "list_all (\<lambda>b. b < 256) bs \<Longrightarrow> hex_decode (hex_encode bs) = Some (Some bs)"
  using hex_decode_encoded [OF hex_encode_ascii, of 0 bs bs "[]"] by (simp add: hex_decode_def hex_encode_length)

text \<open>
  A sealed secret opens to itself. What an enrolment writes for its secret is opened, under the
  same key, as that secret, if the cipher decrypts what it encrypted.
\<close>

theorem sealed_secret_opens:
  assumes "kek_of x = Some k" "\<forall>n t c. kk_encrypt k n t = Some c \<longrightarrow> kk_decrypt k c n = Some t"
    and "seals x nonce ciphertext" "list_all (\<lambda>b. b < 256) (mx_secret x)"
  shows "opened_secret x (pending_factor ciphertext nonce) = Some (mx_secret x)"
  using assms by (auto simp: seals_def opened_secret_def pending_factor_def hex_roundtrip)

lemma sealed_secret_opens_witness:
  "opened_secret (demo_env 20 150) (pending_factor (map of_char (hex_encode [20])) [20]) = Some [20]"
proof -
  have "opened_secret (demo_env 20 150) (pending_factor (map of_char (hex_encode [20])) [20]) = Some (mx_secret (demo_env 20 150))"
    by (rule sealed_secret_opens [of _ demo_kek]) (simp_all add: seals_def)
  then show ?thesis by simp
qed

section \<open>A valid code signs in\<close>

lemma sessions_simps [simp]:
  "db_sessions (repo_delete_challenge h db) = db_sessions db"
  "db_sessions (snd (repo_spend_step u k db)) = db_sessions db"
  by (simp_all add: repo_delete_challenge_def repo_spend_step_def set_factor_def split: option.splits)

text \<open>The next statement of a request that runs alone.\<close>

lemma run_alone:
  "pk_thread p = 0 \<Longrightarrow> \<not> pk_fails p \<Longrightarrow>
     snd (run (p # picks) (db, [Do s k])) =
       snd (run picks (snd (exec_stmt (pk_other p) (pk_now p) s db), [k (fst (exec_stmt (pk_other p) (pk_now p) s db))]))"
  by (simp add: step_pool_def perform_def Let_def split: prod.splits)

lemma opened_secretD:
  assumes "opened_secret x f = Some secret"
  obtains k where "kek_of x = Some k"
    "unseal k f = ok \<lparr>of_secret = secret, of_confirmed = (sf_confirmed_at f \<noteq> None), of_last_used_step = sf_last_used_step f,
      of_nonce = sf_nonce f\<rparr>"
  using assms by (auto simp: opened_secret_def unseal_def split: option.splits)

lemma run_done: "snd (run picks (db, [Ret v])) = (db, [Ret v])"
proof (induction picks)
  case (Cons p picks)
  have "step_pool p (db, [Ret v]) = ([], (db, [Ret v]))" by (simp add: step_pool_def Let_def)
  with Cons show ?case by (simp add: Let_def split: prod.splits)
qed simp

text \<open>
  A valid code signs in. A step-up that presents a live challenge of an account and a code of its
  stored secret, of a step later than the last one spent, gets a session of that account when it runs
  undisturbed.
\<close>

theorem valid_code_signs_in:
  assumes "pk_thread p = 0" "\<not> pk_fails p"
    and "repo_live_challenge (pk_now p) (mx_hash_key x (trim token)) Verify MAX_CHALLENGE_ATTEMPTS db = Some c"
    and "factor_of db (mc_user c) = Some f" "opened_secret x f = Some secret"
    and "is_totp_shaped (trim code)" "verify_at (mx_hmac x) secret (trim code) (mx_now_seconds x) = Some step"
    and "\<forall>l. sf_last_used_step f = Some l \<longrightarrow> l < step"
    and "ot_users (pk_other p) (mc_user c) = Some user"
    and "snd (generate_token x ''rolter_sess'') \<notin> sr_token_hash ` set (db_sessions db)"
  shows "outcome (run (replicate 7 p) (db, [serve x (ReqVerify token code)])) =
    [Some (Inr (AnsSession (fst (generate_token x ''rolter_sess'')) (mc_user c) (mc_after_lock c) None))]"
proof -
  obtain k where k: "kek_of x = Some k"
    "unseal k f = ok \<lparr>of_secret = secret, of_confirmed = (sf_confirmed_at f \<noteq> None), of_last_used_step = sf_last_used_step f,
      of_nonce = sf_nonce f\<rparr>"
    using assms(5) by (rule opened_secretD)
  obtain tok hash where tok: "generate_token x ''rolter_sess'' = (tok, hash)" by (metis surj_pair)
  let ?h = "mx_hash_key x (trim token)"
  have found: "find (live_row (pk_now p) ?h Verify MAX_CHALLENGE_ATTEMPTS) (db_challenges db) = Some c"
    using assms(3) by (simp add: repo_live_challenge_def)
  have spend: "fst (repo_spend_step u step d)" if "factor_of d u = Some f" for d u
    using assms(8) that by (auto simp: repo_spend_step_def split: option.splits)
  show ?thesis
    using assms(1,2,4,6,7,9,10)
    by (simp add: outcome_def replicate_num run_alone run_done verify_challenge_def prove_factor_def open_secret_def ask_defs issue_session_def
        repo_charge_challenge_attempt_def found Let_def k tok spend factor_of_def [of "db\<lparr>db_challenges := a\<rparr>" for a]
        factor_of_def [of db, symmetric] charged_def inserted_def repo_create_session_def del: run.simps(2) cong: run_congs)
qed

lemma valid_code_signs_in_witness:
  "outcome (run (replicate 7 (demo_pick 0)) (demo_db, [serve (demo_env 20 150) (ReqVerify ''one'' (demo_code 3 5))])) =
    [Some (Inr (AnsSession ''rolter_sess_14'' 7 False None))]"
proof -
  have "outcome (run (replicate 7 (demo_pick 0)) (demo_db, [serve (demo_env 20 150) (ReqVerify ''one'' (demo_code 3 5))])) =
    [Some (Inr (AnsSession (fst (generate_token (demo_env 20 150) ''rolter_sess'')) (mc_user (demo_challenge ''one'' Verify))
      (mc_after_lock (demo_challenge ''one'' Verify)) None))]"
    by (rule valid_code_signs_in [where f = "demo_factor 3 (Some 0)" and secret = "[3]" and step = 5])
      (simp_all add: opened_secret_def demo_ops)
  then show ?thesis by (simp add: demo_challenge_def generate_token_def demo_texts Let_def)
qed

end
