(* ===== verification/Mfa_Schema.thy ===== *)
theory Mfa_Schema
  imports Mfa_Spec
begin

text \<open>The constraints of the tables, kept by every run.\<close>

definition attempt_limit :: "challenge_purpose \<Rightarrow> nat" where
  "attempt_limit p = (case p of Verify \<Rightarrow> MAX_CHALLENGE_ATTEMPTS | Enrol \<Rightarrow> MAX_ENROLMENT_ATTEMPTS)"

definition schema_ok :: "mfa_db \<Rightarrow> bool" where
  "schema_ok db \<longleftrightarrow>
     hm_wf (db_factors db) \<and> distinct (map rr_code_hash (db_codes db)) \<and>
     distinct (map mc_token_hash (db_challenges db)) \<and> distinct (map sr_token_hash (db_sessions db)) \<and>
     list_all (\<lambda>c. mc_attempts c \<le> attempt_limit (mc_purpose c)) (db_challenges db)"

definition known_limit :: "(stmt \<times> resp) list \<Rightarrow> stmt \<Rightarrow> bool" where
  "known_limit past s = (case s of ChargeChallengeAttempt h p m \<Rightarrow> m = attempt_limit p | _ \<Rightarrow> True)"

lemma limits_known: "guarded known_limit (serve x q) []"
  by (cases q) (simp_all add: mfa_handlers mfa_parts ask_defs Let_def known_limit_def attempt_limit_def
      split: resp.splits option.splits prod.splits if_splits mfa_answer.splits)

lemma session_tokens_kept [simp]:
  "sr_token_hash (s\<lparr>sr_last_seen_at := t\<rparr>) = sr_token_hash s" "rr_code_hash (r\<lparr>rr_used_at := v\<rparr>) = rr_code_hash r"
  by simp_all

lemma map_if_same: "(\<And>c. key (f c) = key c) \<Longrightarrow> map (key \<circ> (\<lambda>c. if P c then f c else c)) xs = map key xs"
  by (induction xs) auto

lemma schema_step:
  assumes "schema_ok db" "known_limit past s"
  shows "schema_ok (snd (exec_stmt ot now s db))"
proof (cases s)
  case (ChargeChallengeAttempt h p m)
  then have "m = attempt_limit p" using assms(2) by (simp add: known_limit_def)
  with ChargeChallengeAttempt assms(1) show ?thesis
    by (auto simp: schema_ok_def repo_charge_challenge_attempt_def map_if_same list_all_iff live_row_def)
next
  case (ReplaceRecoveryCodes u hs)
  with assms(1) show ?thesis
    by (auto simp: schema_ok_def inserted_def repo_replace_recovery_codes_def Let_def comp_def split: option.splits if_splits)
next
  case (ConsumeRecoveryCode u h)
  with assms(1) show ?thesis by (simp add: schema_ok_def repo_consume_recovery_code_def map_if_same)
next
  case (FindActiveByHash h)
  with assms(1) show ?thesis by (simp add: schema_ok_def repo_find_active_by_hash_def map_if_same)
qed (use assms(1) in \<open>auto simp: schema_ok_def set_factor_def repo_begin_enrolment_def repo_confirm_def repo_spend_step_def
      repo_disable_def inserted_def repo_create_challenge_def repo_take_challenge_def repo_delete_challenge_def
      repo_delete_challenges_for_user_def repo_sweep_expired_challenges_def repo_create_session_def repo_delete_by_hash_def
      repo_delete_for_user_def repo_delete_for_user_except_def Let_def distinct_map_filter list_all_iff hm.wf_put hm.wf_del
      split: option.splits if_splits\<close>)

text \<open>
  The tables keep their shape. In every run of any requests one account has at most one factor row,
  no two challenges, sessions or recovery codes share a token's digest, and no challenge has been
  charged beyond the limit of its kind.
\<close>

theorem schema_kept:
  assumes "run picks (db, serving reqs) = (evs, (db', ps'))" "schema_ok db"
  shows "schema_ok db'"
proof -
  have "known_limit (events_of t pre) s" if "evs = pre @ (t, s, r) # post" for pre t s r post
  proof (rule guarded_run [OF assms(1) [unfolded that]])
    show "t < length (serving reqs)" using run_thread [OF assms(1)] that by auto
    then show "guarded known_limit (serving reqs ! t) []" using limits_known by (simp add: case_prod_beta)
  qed
  then have "\<exists>past. known_limit past s" if "(t, s, r) \<in> set evs" for t s r using that by (metis split_list)
  with run_traced [OF assms(1)] assms(2) show ?thesis
  proof (induction rule: traced.induct)
    case (traced_ok ot now s db r db1 evs db2 t)
    then obtain past where "known_limit past s" by (meson list.set_intros(1))
    with schema_step [OF traced_ok.prems(1), of past s ot now] traced_ok show ?case by simp (meson)
  next
    case (traced_fail db evs db2 t s)
    then show ?case by simp (meson)
  qed simp
qed

lemma schema_kept_witness: "schema_ok demo_db \<and> schema_ok (fst (snd two_run))"
proof
  show ok: "schema_ok demo_db" by code_simp
  have "run (picks_of [(0, 7), (1, 7)]) (demo_db, serving two_reqs) = (fst two_run, (fst (snd two_run), snd (snd two_run)))"
    by (simp add: two_run_def)
  from schema_kept [OF this ok] show "schema_ok (fst (snd two_run))" .
qed

end
