(* ===== verification/Rbac.thy ===== *)
theory Rbac
  imports Mfa
begin

text \<open>
  Who may do what in the control plane (\<open>rolter-control/src/rbac.rs\<close> and the rules of
  \<open>rbac_matrix.rs\<close>): principals, scope chains, the guard every handler calls, the filter of listings,
  resource-level access profiles, and the answer \<open>rbac/effective\<close> gives a dashboard. The rows the code reads
  from the database are fields of \<open>rbac_db\<close>, each read of which may fail. The check that a guard's
  chain has the shape its row declares (\<open>debug_assertions\<close> only) is a function of its own.
\<close>

section \<open>Roles and requirements\<close>

datatype role = Admin | Member | Viewer

fun can_write :: "role \<Rightarrow> bool" where
  "can_write r = (r = Admin \<or> r = Member)"

fun is_admin :: "role \<Rightarrow> bool" where
  "is_admin r = (r = Admin)"

fun role_rank :: "role \<Rightarrow> nat" where
  "role_rank Viewer = 0"
| "role_rank Member = 1"
| "role_rank Admin = 2"

definition parse_role :: "string \<Rightarrow> role option" where
  "parse_role r =
     (if r = ''admin'' then Some Admin else if r = ''member'' then Some Member
      else if r = ''viewer'' then Some Viewer else None)"

definition parse_base_role :: "string \<Rightarrow> role" where
  "parse_base_role r = (if r = ''admin'' then Admin else if r = ''member'' then Member else Viewer)"

datatype action_kind = Read | Create | Update | Delete

definition ACTIONS :: "action_kind list" where
  "ACTIONS = [Read, Create, Update, Delete]"

fun action_key :: "action_kind \<Rightarrow> string" where
  "action_key Read = ''read''"
| "action_key Create = ''create''"
| "action_key Update = ''update''"
| "action_key Delete = ''delete''"

definition parse_action :: "string \<Rightarrow> action_kind option" where
  "parse_action s = find (\<lambda>a. action_key a = s) ACTIONS"

datatype deployment_role = Operator | SecurityAuditor

fun deployment_key :: "deployment_role \<Rightarrow> string" where
  "deployment_key Operator = ''operator''"
| "deployment_key SecurityAuditor = ''security_auditor''"

definition deployment_parse :: "string \<Rightarrow> deployment_role option" where
  "deployment_parse s = find (\<lambda>r. deployment_key r = s) [Operator, SecurityAuditor]"

datatype authority =
    NeedsRole role
  | NeedsSuperadmin
  | NeedsDeployment "deployment_role list"
  | NeedsRoleOrDeployment role "deployment_role list"
  | NeedsAuthenticated

record requirement =
  rq_resource :: string
  rq_action :: action_kind
  rq_authority :: authority

definition requirement_is_superadmin :: "requirement \<Rightarrow> bool" where
  "requirement_is_superadmin rq = (case rq_authority rq of NeedsSuperadmin \<Rightarrow> True | NeedsDeployment _ \<Rightarrow> True | _ \<Rightarrow> False)"

section \<open>Rows\<close>

record membership =
  mb_org :: "uuid option"
  mb_team :: "uuid option"
  mb_project :: "uuid option"
  mb_role :: string

record effective_grant =
  eg_profile :: uuid
  eg_role :: uuid
  eg_role_slug :: string
  eg_base_role :: string
  eg_org :: "uuid option"
  eg_team :: "uuid option"
  eg_project :: "uuid option"
  eg_resource :: "string option"
  eg_action :: "string option"

record api_token =
  at_id :: uuid
  at_org :: uuid
  at_team :: "uuid option"
  at_project :: "uuid option"
  at_name :: string
  at_role :: "string option"
  at_custom_role :: "uuid option"
  at_token_hash :: string
  at_token_prefix :: string
  at_expires_at :: "nat option"
  at_created_by :: "uuid option"
  at_created_at :: nat
  at_rotated_at :: "nat option"
  at_last_used_at :: "nat option"
  at_revoked_at :: "nat option"

record token_principal =
  tp_token :: api_token
  tp_memberships :: "membership list"
  tp_grants :: "effective_grant list"

record account =
  ac_id :: uuid
  ac_is_superadmin :: bool
  ac_deployment_role :: "string option"

datatype principal = Superadmin "uuid option" | User account | Token token_principal

record scope_chain =
  sc_org :: "uuid option"
  sc_team :: "uuid option"
  sc_project :: "uuid option"

datatype api_error = Forbidden | Unauthenticated | NotFound | BadConfig | StoreFailure | InvalidField string | TokenInactive

type_synonym 'a api = "api_error + 'a"

fun and_ok :: "'a api \<Rightarrow> ('a \<Rightarrow> 'b api) \<Rightarrow> 'b api" where
  "and_ok (Inl e) f = Inl e"
| "and_ok (Inr x) f = f x"

record custom_role =
  cr_org :: uuid
  cr_slug :: string
  cr_base_role :: string
  cr_rows :: "(string \<times> string) list"

record rbac_db =
  rd_memberships :: "uuid \<Rightarrow> membership list api"
  rd_grants :: "uuid \<Rightarrow> effective_grant list api"
  rd_session_user :: "string \<Rightarrow> uuid option api"
  rd_account :: "uuid \<Rightarrow> account api"
  rd_api_token :: "string \<Rightarrow> api_token option api"
  rd_custom_role :: "uuid \<Rightarrow> custom_role api"
  rd_team_org :: "uuid \<Rightarrow> uuid api"
  rd_project_team :: "uuid \<Rightarrow> uuid api"
  rd_virtual_key_project :: "uuid \<Rightarrow> uuid api"
  rd_unit_org :: "uuid \<Rightarrow> uuid api"
  rd_customer_org :: "uuid \<Rightarrow> uuid api"
  rd_org_exists :: "uuid \<Rightarrow> unit api"
  rd_payload_min_role :: "uuid \<Rightarrow> string api"

section \<open>Principals\<close>

definition TOKEN_PREFIX :: string where "TOKEN_PREFIX = ''rolter_api_''"

definition for_user :: "account \<Rightarrow> principal" where
  "for_user user = (if ac_is_superadmin user then Superadmin (Some (ac_id user)) else User user)"

fun api_token_of :: "principal \<Rightarrow> api_token option" where
  "api_token_of (Token held) = Some (tp_token held)"
| "api_token_of _ = None"

fun account_id :: "principal \<Rightarrow> uuid option" where
  "account_id (Superadmin a) = a"
| "account_id (User user) = Some (ac_id user)"
| "account_id (Token _) = None"

fun deployment_role_of :: "principal \<Rightarrow> deployment_role option" where
  "deployment_role_of (User user) = Option.bind (ac_deployment_role user) deployment_parse"
| "deployment_role_of _ = None"

text \<open>A role with no explicit grants still carries its base role.\<close>

definition token_authority :: "rbac_db \<Rightarrow> api_token \<Rightarrow> token_principal api" where
  "token_authority db token =
     (case (at_role token, at_custom_role token) of
        (Some r, _) \<Rightarrow>
          Inr \<lparr>tp_token = token,
               tp_memberships = [\<lparr>mb_org = Some (at_org token), mb_team = at_team token, mb_project = at_project token, mb_role = r\<rparr>],
               tp_grants = []\<rparr>
      | (None, Some role_id) \<Rightarrow>
          and_ok (rd_custom_role db role_id) (\<lambda>role.
            let grant = (\<lambda>resource action.
                  \<lparr>eg_profile = 0, eg_role = role_id, eg_role_slug = cr_slug role, eg_base_role = cr_base_role role,
                   eg_org = Some (at_org token), eg_team = at_team token, eg_project = at_project token,
                   eg_resource = resource, eg_action = action\<rparr>)
            in Inr \<lparr>tp_token = token, tp_memberships = [],
                    tp_grants = (if cr_rows role = [] then [grant None None]
                                 else map (\<lambda>(r, a). grant (Some r) (Some a)) (cr_rows role))\<rparr>)
      | (None, None) \<Rightarrow> Inr \<lparr>tp_token = token, tp_memberships = [], tp_grants = []\<rparr>)"

definition resolve_api_token :: "rbac_db \<Rightarrow> string \<Rightarrow> token_principal option api" where
  "resolve_api_token db token_hash =
     and_ok (rd_api_token db token_hash) (\<lambda>found.
       case found of None \<Rightarrow> Inr None | Some token \<Rightarrow> and_ok (token_authority db token) (\<lambda>held. Inr (Some held)))"

text \<open>\<open>db = None\<close> is a control plane without a store; \<open>bearer_token\<close> never yields an empty token.\<close>

definition principal_from_request ::
  "(string \<Rightarrow> string) \<Rightarrow> string option \<Rightarrow> rbac_db option \<Rightarrow> string option \<Rightarrow> principal api"
where
  "principal_from_request hash_key admin_token db bearer =
     (case admin_token of
        None \<Rightarrow> Inr (Superadmin None)
      | Some expected \<Rightarrow>
          let presented = (case bearer of None \<Rightarrow> [] | Some t \<Rightarrow> t)
          in if presented \<noteq> [] \<and> presented = expected then Inr (Superadmin None)
             else case bearer of
                    None \<Rightarrow> Inl Unauthenticated
                  | Some token \<Rightarrow>
                      (case db of
                         None \<Rightarrow> Inl Unauthenticated
                       | Some db \<Rightarrow>
                           let token_hash = hash_key token
                           in if starts_with token TOKEN_PREFIX then
                                and_ok (resolve_api_token db token_hash) (\<lambda>found.
                                  case found of None \<Rightarrow> Inl Unauthenticated | Some held \<Rightarrow> Inr (Token held))
                              else
                                and_ok (rd_session_user db token_hash) (\<lambda>found.
                                  case found of
                                    None \<Rightarrow> Inl Unauthenticated
                                  | Some u \<Rightarrow> and_ok (rd_account db u) (\<lambda>user. Inr (for_user user)))))"

section \<open>Scope chains\<close>

definition no_chain :: scope_chain where
  "no_chain = \<lparr>sc_org = None, sc_team = None, sc_project = None\<rparr>"

definition chain_org :: "uuid \<Rightarrow> scope_chain" where
  "chain_org o_id = \<lparr>sc_org = Some o_id, sc_team = None, sc_project = None\<rparr>"

definition from_team :: "rbac_db \<Rightarrow> uuid \<Rightarrow> scope_chain api" where
  "from_team db t = and_ok (rd_team_org db t) (\<lambda>og. Inr \<lparr>sc_org = Some og, sc_team = Some t, sc_project = None\<rparr>)"

definition from_project :: "rbac_db \<Rightarrow> uuid \<Rightarrow> scope_chain api" where
  "from_project db p =
     and_ok (rd_project_team db p) (\<lambda>t.
     and_ok (rd_team_org db t) (\<lambda>og. Inr \<lparr>sc_org = Some og, sc_team = Some t, sc_project = Some p\<rparr>))"

definition from_scope :: "rbac_db \<Rightarrow> string \<Rightarrow> uuid \<Rightarrow> scope_chain api" where
  "from_scope db scope_type i =
     (if scope_type = ''org'' then Inr (chain_org i)
      else if scope_type = ''team'' then from_team db i
      else if scope_type = ''project'' then from_project db i
      else if scope_type = ''virtual_key'' then and_ok (rd_virtual_key_project db i) (from_project db)
      else if scope_type = ''business_unit'' then and_ok (rd_unit_org db i) (\<lambda>og. Inr (chain_org og))
      else if scope_type = ''customer'' then and_ok (rd_customer_org db i) (\<lambda>og. Inr (chain_org og))
      else Inl BadConfig)"

definition from_cap :: "rbac_db \<Rightarrow> string \<Rightarrow> uuid \<Rightarrow> uuid option \<Rightarrow> uuid option \<Rightarrow> scope_chain api" where
  "from_cap db scope_type i within_org within_project =
     (if scope_type \<noteq> ''user'' then from_scope db scope_type i
      else and_ok (rd_account db i) (\<lambda>_.
        case (within_project, within_org) of
          (Some p, _) \<Rightarrow> from_project db p
        | (None, Some og) \<Rightarrow> and_ok (rd_org_exists db og) (\<lambda>_. Inr (chain_org og))
        | (None, None) \<Rightarrow> Inr no_chain))"

section \<open>Roles at a scope\<close>

definition scope_specificity ::
  "uuid option \<Rightarrow> uuid option \<Rightarrow> uuid option \<Rightarrow> scope_chain \<Rightarrow> nat option"
where
  "scope_specificity og team project chain =
     (case project of
        Some p \<Rightarrow> if Some p = sc_project chain then Some 3 else None
      | None \<Rightarrow>
          (case team of
             Some t \<Rightarrow> if Some t = sc_team chain then Some 2 else None
           | None \<Rightarrow> (case og of Some i \<Rightarrow> if Some i = sc_org chain then Some 1 else None | None \<Rightarrow> None)))"

definition membership_specificity :: "membership \<Rightarrow> scope_chain \<Rightarrow> nat option" where
  "membership_specificity m chain = scope_specificity (mb_org m) (mb_team m) (mb_project m) chain"

definition grant_applies :: "effective_grant \<Rightarrow> scope_chain \<Rightarrow> bool" where
  "grant_applies g chain = (scope_specificity (eg_org g) (eg_team g) (eg_project g) chain \<noteq> None)"

text \<open>\<open>Iterator::max_by_key\<close>: the last of the highest.\<close>

fun max_role :: "role list \<Rightarrow> role option \<Rightarrow> role option" where
  "max_role [] best = best"
| "max_role (r # rs) best =
     max_role rs (case best of None \<Rightarrow> Some r | Some b \<Rightarrow> if role_rank b \<le> role_rank r then Some r else Some b)"

definition custom_base_role :: "effective_grant list \<Rightarrow> scope_chain \<Rightarrow> role option" where
  "custom_base_role grants chain =
     max_role (List.map_filter (\<lambda>g. parse_role (eg_base_role g)) (filter (\<lambda>g. grant_applies g chain) grants)) None"

definition custom_grants_allow :: "effective_grant list \<Rightarrow> scope_chain \<Rightarrow> requirement \<Rightarrow> bool" where
  "custom_grants_allow grants chain rq =
     (case (case rq_authority rq of NeedsRole r \<Rightarrow> Some r | NeedsRoleOrDeployment r _ \<Rightarrow> Some r | _ \<Rightarrow> None) of
        None \<Rightarrow> False
      | Some required \<Rightarrow>
          list_ex (\<lambda>g. grant_applies g chain \<and>
            ((case parse_role (eg_base_role g) of Some r \<Rightarrow> role_rank required \<le> role_rank r | None \<Rightarrow> False) \<or>
             (eg_resource g = Some (rq_resource rq) \<and> eg_action g = Some (action_key (rq_action rq))))) grants)"

fun resolve_loop :: "membership list \<Rightarrow> scope_chain \<Rightarrow> (nat \<times> role) option \<Rightarrow> (nat \<times> role) option" where
  "resolve_loop [] chain best = best"
| "resolve_loop (m # ms) chain best =
     (case membership_specificity m chain of
        None \<Rightarrow> resolve_loop ms chain best
      | Some specificity \<Rightarrow>
          (case parse_role (mb_role m) of
             None \<Rightarrow> resolve_loop ms chain best
           | Some r \<Rightarrow>
               resolve_loop ms chain
                 (case best of
                    Some (bs, br) \<Rightarrow>
                      if specificity < bs \<or> (bs = specificity \<and> role_rank r \<le> role_rank br) then Some (bs, br)
                      else Some (specificity, r)
                  | None \<Rightarrow> Some (specificity, r))))"

definition resolve_role :: "membership list \<Rightarrow> scope_chain \<Rightarrow> role option" where
  "resolve_role ms chain = map_option snd (resolve_loop ms chain None)"

definition user_authorized :: "membership list \<Rightarrow> scope_chain \<Rightarrow> role \<Rightarrow> bool" where
  "user_authorized ms chain required =
     (case resolve_role ms chain of Some r \<Rightarrow> role_rank required \<le> role_rank r | None \<Rightarrow> False)"

section \<open>The guard\<close>

definition is_superadmin :: "principal \<Rightarrow> bool" where
  "is_superadmin p = (case p of Superadmin _ \<Rightarrow> True | _ \<Rightarrow> False)"

definition holds_deployment_role :: "principal \<Rightarrow> deployment_role list \<Rightarrow> bool" where
  "holds_deployment_role p roles =
     (is_superadmin p \<or> (case deployment_role_of p of Some held \<Rightarrow> held \<in> set roles | None \<Rightarrow> False))"

definition is_deployment_operator :: "principal \<Rightarrow> bool" where
  "is_deployment_operator p = holds_deployment_role p [Operator]"

definition TOKEN_REFUSED_WRITES :: "string list" where
  "TOKEN_REFUSED_WRITES =
     [''access_profile_assignment'', ''api_token'', ''custom_role'', ''invitation'', ''ldap_directory'',
      ''ldap_group_mapping'', ''membership'', ''org_auth_policy'', ''password_reset'', ''scim_group_mapping'',
      ''scim_token'', ''sso_group_mapping'', ''sso_provider'', ''user'']"

definition allow_if :: "bool \<Rightarrow> unit api" where
  "allow_if b = (if b then Inr () else Inl Forbidden)"

definition authorize_token :: "token_principal \<Rightarrow> scope_chain \<Rightarrow> requirement \<Rightarrow> unit api" where
  "authorize_token held chain rq =
     (if rq_action rq \<noteq> Read \<and> rq_resource rq \<in> set TOKEN_REFUSED_WRITES then Inl Forbidden
      else
        let scoped = (\<lambda>required. allow_if (user_authorized (tp_memberships held) chain required \<or>
                                           custom_grants_allow (tp_grants held) chain rq))
        in case rq_authority rq of
             NeedsRole required \<Rightarrow> scoped required
           | NeedsRoleOrDeployment required _ \<Rightarrow> scoped required
           | NeedsAuthenticated \<Rightarrow> Inr ()
           | NeedsSuperadmin \<Rightarrow> Inl Forbidden
           | NeedsDeployment _ \<Rightarrow> Inl Forbidden)"

definition authorize_scoped :: "rbac_db \<Rightarrow> account \<Rightarrow> scope_chain \<Rightarrow> requirement \<Rightarrow> role \<Rightarrow> unit api" where
  "authorize_scoped db user chain rq required =
     and_ok (rd_memberships db (ac_id user)) (\<lambda>memberships.
       if user_authorized memberships chain required then Inr ()
       else and_ok (rd_grants db (ac_id user)) (\<lambda>grants. allow_if (custom_grants_allow grants chain rq)))"

definition authorize :: "rbac_db \<Rightarrow> principal \<Rightarrow> scope_chain \<Rightarrow> requirement \<Rightarrow> unit api" where
  "authorize db p chain rq =
     (case p of
        Superadmin _ \<Rightarrow> Inr ()
      | Token held \<Rightarrow> authorize_token held chain rq
      | User user \<Rightarrow>
          (case rq_authority rq of
             NeedsRole required \<Rightarrow> authorize_scoped db user chain rq required
           | NeedsRoleOrDeployment required roles \<Rightarrow>
               if holds_deployment_role p roles then Inr () else authorize_scoped db user chain rq required
           | NeedsAuthenticated \<Rightarrow> Inr ()
           | NeedsSuperadmin \<Rightarrow> Inl Forbidden
           | NeedsDeployment roles \<Rightarrow> allow_if (holds_deployment_role p roles)))"

definition authorize_cap :: "rbac_db \<Rightarrow> principal \<Rightarrow> scope_chain \<Rightarrow> requirement \<Rightarrow> unit api" where
  "authorize_cap db p chain rq =
     (if sc_org chain = None \<and> sc_team chain = None \<and> sc_project chain = None
      then allow_if (is_superadmin p)
      else authorize db p chain rq)"

definition require_superadmin :: "principal \<Rightarrow> unit api" where
  "require_superadmin p = allow_if (is_superadmin p)"

definition authorize_superadmin :: "principal \<Rightarrow> requirement \<Rightarrow> unit api" where
  "authorize_superadmin p rq =
     (case rq_authority rq of
        NeedsSuperadmin \<Rightarrow> require_superadmin p
      | NeedsDeployment roles \<Rightarrow> allow_if (holds_deployment_role p roles)
      | _ \<Rightarrow> Inl Forbidden)"

section \<open>Listings\<close>

record scope_filter =
  fl_superadmin :: bool
  fl_deployment_role :: "deployment_role option"
  fl_memberships :: "membership list"
  fl_grants :: "effective_grant list"
  fl_requirement :: requirement

definition authority_of :: "rbac_db \<Rightarrow> principal \<Rightarrow> (bool \<times> membership list \<times> effective_grant list) api" where
  "authority_of db p =
     (case p of
        Superadmin _ \<Rightarrow> Inr (True, [], [])
      | Token held \<Rightarrow> Inr (False, tp_memberships held, tp_grants held)
      | User user \<Rightarrow>
          and_ok (rd_memberships db (ac_id user)) (\<lambda>ms.
          and_ok (rd_grants db (ac_id user)) (\<lambda>gs. Inr (False, ms, gs))))"

definition filter_load :: "rbac_db \<Rightarrow> principal \<Rightarrow> requirement \<Rightarrow> scope_filter api" where
  "filter_load db p rq =
     and_ok (authority_of db p) (\<lambda>(super, ms, gs).
       Inr \<lparr>fl_superadmin = super, fl_deployment_role = deployment_role_of p, fl_memberships = ms, fl_grants = gs,
            fl_requirement = rq\<rparr>)"

definition filter_allows_as :: "scope_filter \<Rightarrow> scope_chain \<Rightarrow> requirement \<Rightarrow> bool" where
  "filter_allows_as f chain rq =
     (let held = (\<lambda>roles. case fl_deployment_role f of Some h \<Rightarrow> h \<in> set roles | None \<Rightarrow> False)
      in if fl_superadmin f then True
         else case rq_authority rq of
                NeedsAuthenticated \<Rightarrow> True
              | NeedsSuperadmin \<Rightarrow> False
              | NeedsDeployment roles \<Rightarrow> held roles
              | NeedsRoleOrDeployment required roles \<Rightarrow>
                  held roles \<or> user_authorized (fl_memberships f) chain required \<or> custom_grants_allow (fl_grants f) chain rq
              | NeedsRole required \<Rightarrow>
                  user_authorized (fl_memberships f) chain required \<or> custom_grants_allow (fl_grants f) chain rq)"

definition filter_allows :: "scope_filter \<Rightarrow> scope_chain \<Rightarrow> bool" where
  "filter_allows f chain = filter_allows_as f chain (fl_requirement f)"

fun reach_scopes :: "rbac_db \<Rightarrow> (uuid option \<times> uuid option \<times> uuid option) list \<Rightarrow> scope_chain list api" where
  "reach_scopes db [] = Inr []"
| "reach_scopes db ((og, team, project) # scopes) =
     (case (og, team, project) of
        (None, None, None) \<Rightarrow> reach_scopes db scopes
      | _ \<Rightarrow>
          and_ok (case (og, team, project) of
                    (_, _, Some p) \<Rightarrow> from_project db p
                  | (_, Some t, None) \<Rightarrow> from_team db t
                  | (Some i, None, None) \<Rightarrow> Inr (chain_org i)
                  | (None, None, None) \<Rightarrow> Inr no_chain) (\<lambda>chain.
          and_ok (reach_scopes db scopes) (\<lambda>rest. Inr (chain # rest))))"

definition filter_reach :: "rbac_db \<Rightarrow> scope_filter \<Rightarrow> scope_chain list api" where
  "filter_reach db f =
     reach_scopes db (map (\<lambda>m. (mb_org m, mb_team m, mb_project m)) (fl_memberships f) @
                      map (\<lambda>g. (eg_org g, eg_team g, eg_project g)) (fl_grants f))"

definition reaches_org :: "scope_chain list \<Rightarrow> uuid \<Rightarrow> bool" where
  "reaches_org reach og = list_ex (\<lambda>c. sc_org c = Some og) reach"

section \<open>Effective roles and access profiles\<close>

definition best_role :: "role option \<Rightarrow> role option \<Rightarrow> role option" where
  "best_role a b =
     (case (a, b) of
        (Some x, Some y) \<Rightarrow> if role_rank x < role_rank y then Some y else Some x
      | (Some x, None) \<Rightarrow> Some x
      | (None, b) \<Rightarrow> b)"

definition effective_role_from :: "membership list \<Rightarrow> effective_grant list \<Rightarrow> scope_chain \<Rightarrow> role option" where
  "effective_role_from ms gs chain = best_role (resolve_role ms chain) (custom_base_role gs chain)"

definition effective_role :: "rbac_db \<Rightarrow> account \<Rightarrow> scope_chain \<Rightarrow> role option api" where
  "effective_role db user chain =
     and_ok (rd_memberships db (ac_id user)) (\<lambda>ms.
     and_ok (rd_grants db (ac_id user)) (\<lambda>gs. Inr (effective_role_from ms gs chain)))"

definition at_least_admin :: "role option \<Rightarrow> bool" where
  "at_least_admin r = (case r of Some r \<Rightarrow> role_rank Admin \<le> role_rank r | None \<Rightarrow> False)"

definition holds_admin :: "rbac_db \<Rightarrow> principal \<Rightarrow> scope_chain \<Rightarrow> bool api" where
  "holds_admin db p chain =
     (case p of
        Superadmin _ \<Rightarrow> Inr True
      | Token held \<Rightarrow> Inr (at_least_admin (effective_role_from (tp_memberships held) (tp_grants held) chain))
      | User user \<Rightarrow> and_ok (effective_role db user chain) (\<lambda>r. Inr (at_least_admin r)))"

datatype policy_context = AnyPolicy | HeldPolicy "role option" "uuid list"

text \<open>One query for all of them: projects that are not there are left out.\<close>

fun team_ids_for :: "rbac_db \<Rightarrow> uuid list \<Rightarrow> uuid list api" where
  "team_ids_for db [] = Inr []"
| "team_ids_for db (p # ps) =
     (case rd_project_team db p of
        Inl NotFound \<Rightarrow> team_ids_for db ps
      | Inl e \<Rightarrow> Inl e
      | Inr t \<Rightarrow> and_ok (team_ids_for db ps) (\<lambda>ts. Inr (t # ts)))"

definition policy_load :: "rbac_db \<Rightarrow> principal \<Rightarrow> uuid \<Rightarrow> policy_context api" where
  "policy_load db p og =
     (case p of
        Superadmin _ \<Rightarrow> Inr AnyPolicy
      | _ \<Rightarrow>
          and_ok (authority_of db p) (\<lambda>(_, ms, gs).
            let r = effective_role_from ms gs (chain_org og);
                teams = List.map_filter mb_team ms;
                projects = List.map_filter mb_project ms
            in if (case r of Some r \<Rightarrow> r \<noteq> Admin | None \<Rightarrow> False) \<and> projects \<noteq> []
               then and_ok (team_ids_for db projects) (\<lambda>ts. Inr (HeldPolicy r (teams @ ts)))
               else Inr (HeldPolicy r teams)))"

fun policy_context_allows :: "policy_context \<Rightarrow> uuid list \<Rightarrow> string \<Rightarrow> bool" where
  "policy_context_allows AnyPolicy allowed_teams minimum_role = True"
| "policy_context_allows (HeldPolicy r teams) allowed_teams minimum_role =
     (case r of
        None \<Rightarrow> False
      | Some r \<Rightarrow>
          (case parse_role minimum_role of
             None \<Rightarrow> False
           | Some required \<Rightarrow>
               if role_rank r < role_rank required then False
               else if r = Admin \<or> allowed_teams = [] then True
               else list_ex (\<lambda>t. t \<in> set allowed_teams) teams))"

definition policy_allows :: "rbac_db \<Rightarrow> principal \<Rightarrow> uuid \<Rightarrow> uuid list \<Rightarrow> string \<Rightarrow> bool api" where
  "policy_allows db p og allowed_teams minimum_role =
     and_ok (policy_load db p og) (\<lambda>c. Inr (policy_context_allows c allowed_teams minimum_role))"

section \<open>The shape of the table\<close>

record capability =
  cp_resource :: string
  cp_scope :: string
  cp_read :: "authority option"
  cp_create :: "authority option"
  cp_update :: "authority option"
  cp_delete :: "authority option"
  cp_action_scopes :: "(action_kind \<times> string) list"

definition scope_of :: "capability \<Rightarrow> action_kind \<Rightarrow> string" where
  "scope_of cap a = (case find (\<lambda>(declared, _). declared = a) (cp_action_scopes cap) of Some (_, s) \<Rightarrow> s | None \<Rightarrow> cp_scope cap)"

fun cap_authority :: "capability \<Rightarrow> action_kind \<Rightarrow> authority option" where
  "cap_authority cap Read = cp_read cap"
| "cap_authority cap Create = cp_create cap"
| "cap_authority cap Update = cp_update cap"
| "cap_authority cap Delete = cp_delete cap"

definition chain_at :: "string \<Rightarrow> scope_chain \<Rightarrow> scope_chain" where
  "chain_at scope chain =
     (if scope = ''org'' then chain\<lparr>sc_team := None, sc_project := None\<rparr>
      else if scope = ''team'' then chain\<lparr>sc_project := None\<rparr> else chain)"

text \<open>The first row of the resource; \<open>None\<close> is a pair that does not compile.\<close>

definition requirement_in :: "capability list \<Rightarrow> string \<Rightarrow> action_kind \<Rightarrow> requirement option" where
  "requirement_in table resource a =
     (case find (\<lambda>cap. cp_resource cap = resource) table of
        None \<Rightarrow> None
      | Some cap \<Rightarrow>
          map_option (\<lambda>au. \<lparr>rq_resource = resource, rq_action = a, rq_authority = au\<rparr>) (cap_authority cap a))"

definition pair_name :: "string \<Rightarrow> action_kind \<Rightarrow> string" where
  "pair_name resource a = resource @ '':'' @ action_key a"

definition permitted ::
  "bool \<Rightarrow> deployment_role option \<Rightarrow> membership list \<Rightarrow> effective_grant list \<Rightarrow> scope_chain \<Rightarrow> requirement \<Rightarrow> bool"
where
  "permitted super held ms gs at_chain rq =
     (let has = (\<lambda>roles. case held of Some h \<Rightarrow> h \<in> set roles | None \<Rightarrow> False)
      in case rq_authority rq of
           NeedsSuperadmin \<Rightarrow> super
         | NeedsDeployment roles \<Rightarrow> super \<or> has roles
         | NeedsAuthenticated \<Rightarrow> True
         | NeedsRoleOrDeployment required roles \<Rightarrow>
             super \<or> has roles \<or> user_authorized ms at_chain required \<or> custom_grants_allow gs at_chain rq
         | NeedsRole required \<Rightarrow> super \<or> user_authorized ms at_chain required \<or> custom_grants_allow gs at_chain rq)"

definition allowed_in ::
  "capability list \<Rightarrow> bool \<Rightarrow> deployment_role option \<Rightarrow> membership list \<Rightarrow> effective_grant list \<Rightarrow> scope_chain \<Rightarrow> string list"
where
  "allowed_in table super held ms gs chain =
     concat (map (\<lambda>cap. List.map_filter (\<lambda>a.
       case cap_authority cap a of
         None \<Rightarrow> None
       | Some au \<Rightarrow>
           if permitted super held ms gs (chain_at (scope_of cap a) chain)
                \<lparr>rq_resource = cp_resource cap, rq_action = a, rq_authority = au\<rparr>
           then Some (pair_name (cp_resource cap) a) else None) ACTIONS) table)"

fun held_roles :: "effective_grant list \<Rightarrow> (uuid \<times> uuid) list \<Rightarrow> (uuid \<times> uuid \<times> string \<times> role) list" where
  "held_roles [] seen = []"
| "held_roles (g # gs) seen =
     (if (eg_profile g, eg_role g) \<in> set seen then held_roles gs seen
      else (eg_profile g, eg_role g, eg_role_slug g, parse_base_role (eg_base_role g)) #
           held_roles gs ((eg_profile g, eg_role g) # seen))"

definition project_opens_payloads_to :: "rbac_db \<Rightarrow> membership list \<Rightarrow> effective_grant list \<Rightarrow> uuid \<Rightarrow> bool" where
  "project_opens_payloads_to db ms gs project =
     (case from_project db project of
        Inl _ \<Rightarrow> False
      | Inr chain \<Rightarrow>
          best_role (resolve_role ms chain) (custom_base_role gs chain) \<noteq> None \<and>
          rd_payload_min_role db project = Inr ''viewer'')"

record effective_view =
  ev_superadmin :: bool
  ev_deployment_role :: "deployment_role option"
  ev_role :: "role option"
  ev_allowed :: "string list"
  ev_custom_roles :: "(uuid \<times> uuid \<times> string \<times> role) list"

definition get_effective_in :: "capability list \<Rightarrow> rbac_db \<Rightarrow> principal \<Rightarrow> scope_chain \<Rightarrow> effective_view api" where
  "get_effective_in table db p chain =
     and_ok (authority_of db p) (\<lambda>(super, ms, gs).
       let r = best_role (resolve_role ms chain) (custom_base_role gs chain);
           allowed = allowed_in table super (deployment_role_of p) ms gs chain;
           pair = pair_name ''request_payload'' Read;
           allowed = (case (super, sc_project chain, r) of
                        (False, Some project, Some _) \<Rightarrow>
                          if pair \<notin> set allowed \<and> project_opens_payloads_to db ms gs project
                          then allowed @ [pair] else allowed
                      | _ \<Rightarrow> allowed)
       in Inr \<lparr>ev_superadmin = super, ev_deployment_role = deployment_role_of p, ev_role = r, ev_allowed = allowed,
               ev_custom_roles = held_roles (filter (\<lambda>g. grant_applies g chain) gs) []\<rparr>)"

section \<open>The shape of a guard\<close>

definition MULTI_SCOPE :: "string list" where
  "MULTI_SCOPE = [''provider'', ''provider_group'', ''budget'', ''rate_limit'', ''alert_rule'', ''alert_history'',
     ''membership'', ''invitation'', ''api_token'']"

definition chain_depth :: "scope_chain \<Rightarrow> nat" where
  "chain_depth chain =
     (case (sc_org chain, sc_team chain, sc_project chain) of
        (_, _, Some _) \<Rightarrow> 3 | (_, Some _, None) \<Rightarrow> 2 | (Some _, None, None) \<Rightarrow> 1 | (None, None, None) \<Rightarrow> 0)"

definition scope_depth :: "string \<Rightarrow> nat option" where
  "scope_depth scope =
     (if scope = ''org'' then Some 1 else if scope = ''team'' then Some 2
      else if scope = ''project'' then Some 3 else None)"

definition guard_shape_mismatch :: "capability list \<Rightarrow> requirement \<Rightarrow> scope_chain \<Rightarrow> bool" where
  "guard_shape_mismatch table rq chain =
     (case find (\<lambda>cap. cp_resource cap = rq_resource rq) table of
        None \<Rightarrow> False
      | Some cap \<Rightarrow>
          (case scope_depth (scope_of cap (rq_action rq)) of
             None \<Rightarrow> False
           | Some declared \<Rightarrow>
               let used = chain_depth chain;
                   multi = (cp_resource cap \<in> set MULTI_SCOPE \<or> list_ex (\<lambda>(a, _). a = rq_action rq) (cp_action_scopes cap))
               in \<not> (used = declared \<or> (multi \<and> 1 \<le> used \<and> used < declared))))"

end
