(* ===== verification/Rbac_Table.thy ===== *)
theory Rbac_Table
  imports Rbac
begin

text \<open>The capability table of \<open>rbac_matrix.rs\<close>, row by row, and what is read from it.\<close>

definition VIEWER :: "authority option" where "VIEWER = Some (NeedsRole Viewer)"
definition MEMBER :: "authority option" where "MEMBER = Some (NeedsRole Member)"
definition ADMIN :: "authority option" where "ADMIN = Some (NeedsRole Admin)"
definition SUPER :: "authority option" where "SUPER = Some NeedsSuperadmin"
definition OPERATOR :: "authority option" where "OPERATOR = Some (NeedsDeployment [Operator])"
definition ADMIN_OR_OPERATOR :: "authority option" where
  "ADMIN_OR_OPERATOR = Some (NeedsRoleOrDeployment Admin [Operator])"
definition AUDITOR :: "authority option" where "AUDITOR = Some (NeedsDeployment [SecurityAuditor])"
definition ANYONE :: "authority option" where "ANYONE = Some NeedsAuthenticated"
definition NA :: "authority option" where "NA = None"

definition row ::
  "string \<Rightarrow> string \<Rightarrow> authority option \<Rightarrow> authority option \<Rightarrow> authority option \<Rightarrow> authority option \<Rightarrow>
    (action_kind \<times> string) list \<Rightarrow> capability"
where
  "row resource scope r c u d scopes =
     \<lparr>cp_resource = resource, cp_scope = scope, cp_read = r, cp_create = c, cp_update = u, cp_delete = d,
      cp_action_scopes = scopes\<rparr>"

definition CAPABILITIES_1 :: "capability list" where
  "CAPABILITIES_1 =
     [row ''org'' ''org'' VIEWER SUPER NA ADMIN [],
      row ''team'' ''org'' VIEWER ADMIN ADMIN ADMIN [(Update, ''team'')],
      row ''project'' ''team'' VIEWER ADMIN NA ADMIN [(Read, ''project'')],
      row ''project_settings'' ''project'' VIEWER NA ADMIN NA [],
      row ''provider'' ''project'' VIEWER ADMIN ADMIN ADMIN [],
      row ''plugin'' ''org'' VIEWER ADMIN ADMIN ADMIN [],
      row ''provider_group'' ''project'' VIEWER ADMIN ADMIN ADMIN [],
      row ''provider_health'' ''org'' VIEWER NA NA NA [],
      row ''label'' ''org'' VIEWER ADMIN ADMIN ADMIN [],
      row ''model_label'' ''deployment'' ANYONE SUPER SUPER SUPER [],
      row ''route'' ''project'' VIEWER ADMIN ADMIN ADMIN [],
      row ''virtual_key'' ''project'' VIEWER ADMIN ADMIN ADMIN []]"

definition CAPABILITIES_2 :: "capability list" where
  "CAPABILITIES_2 =
     [row ''my_virtual_key'' ''project'' NA MEMBER NA NA [],
      row ''analytics'' ''project'' VIEWER NA NA NA [],
      row ''savings'' ''project'' VIEWER NA NA NA [],
      row ''request_payload'' ''project'' MEMBER NA NA NA [],
      row ''budget'' ''project'' VIEWER ADMIN ADMIN ADMIN [],
      row ''rate_limit'' ''project'' VIEWER ADMIN ADMIN ADMIN [],
      row ''model_price'' ''deployment'' ANYONE NA SUPER SUPER [],
      row ''model'' ''deployment'' ANYONE NA NA SUPER [],
      row ''version'' ''deployment'' ANYONE NA NA NA [],
      row ''stability'' ''deployment'' ANYONE NA NA NA [],
      row ''public_url'' ''deployment'' ANYONE NA NA NA []]"

definition CAPABILITIES_3 :: "capability list" where
  "CAPABILITIES_3 =
     [row ''my_password'' ''deployment'' NA NA ANYONE NA [],
      row ''my_budget'' ''deployment'' ANYONE NA NA NA [],
      row ''business_unit'' ''org'' VIEWER ADMIN ADMIN ADMIN [],
      row ''customer'' ''org'' VIEWER ADMIN ADMIN ADMIN [],
      row ''prompt_template'' ''org'' VIEWER ADMIN ADMIN ADMIN [],
      row ''skill'' ''org'' VIEWER ADMIN ADMIN ADMIN [],
      row ''user'' ''org'' VIEWER ADMIN SUPER SUPER [(Read, ''project'')],
      row ''membership'' ''project'' VIEWER ADMIN ADMIN ADMIN [],
      row ''password_reset'' ''org'' NA ADMIN NA NA [],
      row ''scim_token'' ''org'' ADMIN ADMIN NA ADMIN [],
      row ''scim_group_mapping'' ''org'' ADMIN ADMIN NA ADMIN [],
      row ''mcp_server'' ''org'' VIEWER ADMIN ADMIN ADMIN [],
      row ''mcp_tool_group'' ''org'' VIEWER ADMIN ADMIN ADMIN []]"

definition CAPABILITIES_4 :: "capability list" where
  "CAPABILITIES_4 =
     [row ''mcp_tool_group_assignment'' ''org'' VIEWER NA ADMIN NA [],
      row ''mcp_settings'' ''org'' VIEWER NA ADMIN NA [],
      row ''mcp_oauth_client'' ''org'' ADMIN NA ADMIN ADMIN [],
      row ''mcp_oauth_grant'' ''org'' VIEWER MEMBER NA VIEWER [],
      row ''mcp_oauth_session'' ''org'' VIEWER MEMBER MEMBER VIEWER [],
      row ''custom_role'' ''org'' VIEWER ADMIN ADMIN ADMIN [],
      row ''access_profile'' ''org'' VIEWER ADMIN ADMIN ADMIN [],
      row ''access_profile_assignment'' ''org'' VIEWER ADMIN NA ADMIN [],
      row ''audit_log'' ''org'' ADMIN NA NA NA [],
      row ''deployment_audit_log'' ''deployment'' AUDITOR NA NA NA [],
      row ''deployment_user'' ''deployment'' AUDITOR NA NA NA [],
      row ''invitation'' ''project'' ADMIN ADMIN NA ADMIN [],
      row ''sso_provider'' ''org'' ADMIN ADMIN ADMIN ADMIN []]"

definition CAPABILITIES_5 :: "capability list" where
  "CAPABILITIES_5 =
     [row ''sso_group_mapping'' ''org'' ADMIN ADMIN NA ADMIN [],
      row ''ldap_directory'' ''org'' ADMIN ADMIN ADMIN ADMIN [],
      row ''ldap_group_mapping'' ''org'' ADMIN ADMIN NA ADMIN [],
      row ''org_auth_policy'' ''org'' ADMIN NA ADMIN NA [],
      row ''api_token'' ''project'' ADMIN ADMIN ADMIN ADMIN [],
      row ''deployment_role'' ''deployment'' NA NA SUPER NA [],
      row ''feature_flags'' ''deployment'' OPERATOR NA OPERATOR NA [],
      row ''runtime_policy'' ''deployment'' OPERATOR NA OPERATOR NA [],
      row ''logging_settings'' ''deployment'' AUDITOR NA SUPER NA [],
      row ''log_erasure'' ''deployment'' SUPER SUPER NA NA [],
      row ''compatibility_policy'' ''deployment'' AUDITOR NA SUPER NA [],
      row ''client_settings'' ''deployment'' SUPER NA SUPER NA [],
      row ''model_defaults'' ''deployment'' SUPER NA SUPER NA [],
      row ''adaptive_routing_policy'' ''deployment'' SUPER NA SUPER NA []]"

definition CAPABILITIES_6 :: "capability list" where
  "CAPABILITIES_6 =
     [row ''guardrail_rule'' ''deployment'' AUDITOR SUPER SUPER SUPER [],
      row ''guardrail_provider'' ''deployment'' AUDITOR SUPER SUPER SUPER [],
      row ''guardrail_policy'' ''deployment'' AUDITOR SUPER SUPER SUPER [],
      row ''adaptive_routing_telemetry'' ''deployment'' SUPER NA NA NA [],
      row ''breaker_state'' ''deployment'' ANYONE NA NA NA [],
      row ''cluster_node'' ''deployment'' OPERATOR NA OPERATOR OPERATOR [],
      row ''cluster_summary'' ''deployment'' ANYONE NA NA NA [],
      row ''security_settings'' ''deployment'' AUDITOR NA SUPER NA [],
      row ''config_export'' ''deployment'' AUDITOR NA NA NA [],
      row ''connector'' ''deployment'' OPERATOR OPERATOR OPERATOR OPERATOR [],
      row ''alert_channel'' ''org'' ADMIN_OR_OPERATOR ADMIN_OR_OPERATOR ADMIN_OR_OPERATOR ADMIN_OR_OPERATOR [],
      row ''alert_rule'' ''project'' ADMIN_OR_OPERATOR ADMIN_OR_OPERATOR ADMIN_OR_OPERATOR ADMIN_OR_OPERATOR []]"

definition CAPABILITIES_7 :: "capability list" where
  "CAPABILITIES_7 =
     [row ''alert_history'' ''project'' ADMIN_OR_OPERATOR ADMIN_OR_OPERATOR NA NA [],
      row ''mcp_log'' ''project'' VIEWER SUPER NA NA []]"

definition CAPABILITIES :: "capability list" where
  "CAPABILITIES = CAPABILITIES_1 @ CAPABILITIES_2 @ CAPABILITIES_3 @ CAPABILITIES_4 @ CAPABILITIES_5 @ CAPABILITIES_6 @ CAPABILITIES_7"

definition requirement_for :: "string \<Rightarrow> action_kind \<Rightarrow> requirement option" where
  "requirement_for resource a = requirement_in CAPABILITIES resource a"

definition table_defines :: "string \<Rightarrow> action_kind \<Rightarrow> bool" where
  "table_defines resource a = list_ex (\<lambda>cap. cp_resource cap = resource \<and> cap_authority cap a \<noteq> None) CAPABILITIES"

definition allowed_for ::
  "bool \<Rightarrow> deployment_role option \<Rightarrow> membership list \<Rightarrow> effective_grant list \<Rightarrow> scope_chain \<Rightarrow> string list"
where
  "allowed_for super held ms gs chain = allowed_in CAPABILITIES super held ms gs chain"

definition get_effective :: "rbac_db \<Rightarrow> principal \<Rightarrow> scope_chain \<Rightarrow> effective_view api" where
  "get_effective db p chain = get_effective_in CAPABILITIES db p chain"

end
