(* ===== verification/Rbac_Props.thy ===== *)
theory Rbac_Props
  imports Rbac_Table
begin

text \<open>
  What the guard decides: which role a caller holds, that tenants are closed to each other, what a token
  and a deployment role reach, and that listings and the dashboard's answer agree with it.
\<close>

section \<open>The role at a scope\<close>

definition held_at :: "membership \<Rightarrow> scope_chain \<Rightarrow> (nat \<times> role) option" where
  "held_at m chain =
     (case (membership_specificity m chain, parse_role (mb_role m)) of (Some s, Some r) \<Rightarrow> Some (s, r) | _ \<Rightarrow> None)"

definition outranks :: "nat \<times> role \<Rightarrow> nat \<times> role \<Rightarrow> bool" where
  "outranks a b = (fst b < fst a \<or> (fst b = fst a \<and> role_rank (snd b) \<le> role_rank (snd a)))"

lemma outranks_trans: "outranks a b \<Longrightarrow> outranks b c \<Longrightarrow> outranks a c"
  by (auto simp: outranks_def)

lemma outranks_refl [simp]: "outranks a a"
  by (simp add: outranks_def)

lemma outranks_total: "outranks a b \<or> outranks b a"
  by (auto simp: outranks_def)

lemma resolve_loop_held:
  "resolve_loop (m # ms) chain best =
     resolve_loop ms chain (case held_at m chain of None \<Rightarrow> best
       | Some c \<Rightarrow> (case best of None \<Rightarrow> Some c | Some b \<Rightarrow> if outranks b c then Some b else Some c))"
  by (auto simp: held_at_def outranks_def split: option.splits)

lemma resolve_loop_spec:
  "case resolve_loop ms chain best of
     None \<Rightarrow> best = None \<and> (\<forall>m\<in>set ms. held_at m chain = None)
   | Some w \<Rightarrow> (best = Some w \<or> (\<exists>m\<in>set ms. held_at m chain = Some w)) \<and>
       (\<forall>c. best = Some c \<or> (\<exists>m\<in>set ms. held_at m chain = Some c) \<longrightarrow> outranks w c)"
proof (induction ms arbitrary: best)
  case (Cons m ms)
  define b where "b = (case held_at m chain of None \<Rightarrow> best
       | Some c \<Rightarrow> (case best of None \<Rightarrow> Some c | Some d \<Rightarrow> if outranks d c then Some d else Some c))"
  have step: "resolve_loop (m # ms) chain best = resolve_loop ms chain b" by (simp only: resolve_loop_held b_def)
  have dom: "(best = None \<and> held_at m chain = None \<longleftrightarrow> b = None) \<and>
      (\<forall>w. b = Some w \<longrightarrow> (best = Some w \<or> held_at m chain = Some w) \<and>
        (\<forall>c. best = Some c \<or> held_at m chain = Some c \<longrightarrow> outranks w c))"
    using outranks_total by (auto simp: b_def split: option.splits if_splits)
  show ?case
    using Cons.IH [of b] dom unfolding step
    by (cases "resolve_loop ms chain b") (auto, (metis outranks_trans not_Some_eq)+)
qed (simp split: option.splits)

text \<open>
  C25: Which role a caller holds somewhere. The role a guard sees is that of an applicable membership which
  no other outranks: the one of the most specific scope (project before team before organisation), and
  of those the highest. There is none exactly when no membership with a known role applies.
\<close>

theorem resolve_role_spec:
  "case resolve_role ms chain of
     None \<Rightarrow> \<forall>m\<in>set ms. held_at m chain = None
   | Some r \<Rightarrow> \<exists>s. (\<exists>m\<in>set ms. held_at m chain = Some (s, r)) \<and>
       (\<forall>m\<in>set ms. \<forall>c. held_at m chain = Some c \<longrightarrow> outranks (s, r) c)"
  using resolve_loop_spec [where ms = ms and chain = chain and best = None] by (auto simp: resolve_role_def split: option.splits)

section \<open>Nothing applies across tenants\<close>

definition chain_in :: "rbac_db \<Rightarrow> uuid \<Rightarrow> scope_chain \<Rightarrow> bool" where
  "chain_in db og chain \<longleftrightarrow>
     chain = chain_org og \<or> (\<exists>t. from_team db t = Inr chain \<and> sc_org chain = Some og) \<or>
     (\<exists>p. from_project db p = Inr chain \<and> sc_org chain = Some og)"

lemma and_ok_Inr: "and_ok a f = Inr y \<longleftrightarrow> (\<exists>x. a = Inr x \<and> f x = Inr y)"
  by (cases a) auto

lemma chain_in_org: "chain_in db og chain \<Longrightarrow> sc_org chain = Some og"
  by (auto simp: chain_in_def chain_org_def)

lemma chain_in_team: "chain_in db og chain \<Longrightarrow> sc_team chain = Some t \<Longrightarrow> rd_team_org db t = Inr og"
  by (auto simp: chain_in_def chain_org_def from_team_def from_project_def and_ok_Inr)

lemma chain_in_project:
  "chain_in db og chain \<Longrightarrow> sc_project chain = Some p \<Longrightarrow> \<exists>t. rd_project_team db p = Inr t \<and> rd_team_org db t = Inr og"
  by (auto simp: chain_in_def chain_org_def from_team_def from_project_def and_ok_Inr)

lemma reach_scopes_applies:
  assumes "reach_scopes db scopes = Inr reach" "(i, t, p) \<in> set scopes" "scope_specificity i t p chain \<noteq> None" "chain_in db og chain"
  shows "reaches_org reach og"
  using assms(1,2)
proof (induction scopes arbitrary: reach)
  case (Cons s scopes)
  obtain i' t' p' where s: "s = (i', t', p')" by (cases s)
  show ?case
  proof (cases "(i', t', p') = (i, t, p)")
    case False
    then have "(i, t, p) \<in> set scopes" using Cons.prems(2) s by auto
    with Cons s show ?thesis
      by (cases i'; cases t'; cases p') (auto simp: and_ok_Inr reaches_org_def)
  next
    case True
    with Cons.prems(1) s assms(3,4) show ?thesis
      by (auto simp: scope_specificity_def and_ok_Inr reaches_org_def from_team_def from_project_def chain_org_def
          dest: chain_in_org chain_in_team [OF _ sym] chain_in_project [OF _ sym] split: option.splits if_splits)
  qed
qed simp

lemma unreached:
  assumes "filter_reach db f = Inr reach" "\<not> reaches_org reach og" "chain_in db og chain"
  shows "m \<in> set (fl_memberships f) \<Longrightarrow> membership_specificity m chain = None"
    and "g \<in> set (fl_grants f) \<Longrightarrow> \<not> grant_applies g chain"
proof -
  note r = assms(1) [unfolded filter_reach_def]
  show "membership_specificity m chain = None" if "m \<in> set (fl_memberships f)"
    using reach_scopes_applies [OF r, of "mb_org m" "mb_team m" "mb_project m" chain og] that assms(2,3)
    by (force simp: membership_specificity_def)
  show "\<not> grant_applies g chain" if "g \<in> set (fl_grants f)"
    using reach_scopes_applies [OF r, of "eg_org g" "eg_team g" "eg_project g" chain og] that assms(2,3)
    by (force simp: grant_applies_def)
qed

lemma nothing_applies:
  assumes "\<And>m. m \<in> set ms \<Longrightarrow> membership_specificity m chain = None" "\<And>g. g \<in> set gs \<Longrightarrow> \<not> grant_applies g chain"
  shows "\<not> user_authorized ms chain required" "\<not> custom_grants_allow gs chain rq"
proof -
  have "resolve_role ms chain = None"
    using resolve_loop_spec [where ms = ms and chain = chain and best = None] assms(1) by (auto simp: resolve_role_def held_at_def split: option.splits)
  then show "\<not> user_authorized ms chain required" by (simp add: user_authorized_def)
  show "\<not> custom_grants_allow gs chain rq" using assms(2) by (auto simp: custom_grants_allow_def list_ex_iff split: option.splits)
qed

section \<open>What every gate promises\<close>

text \<open>
  Three pieces of code answer the same question: the guard of a handler, the filter of a listing and the
  answer for a dashboard. None of them says yes to more than a caller's authority.
\<close>

locale gate =
  fixes decide :: "rbac_db \<Rightarrow> principal \<Rightarrow> scope_chain \<Rightarrow> requirement \<Rightarrow> bool"
  assumes role_gate:
      "authority_of db p = Inr (super, ms, gs) \<Longrightarrow> \<not> is_superadmin p \<Longrightarrow> decide db p chain rq \<Longrightarrow>
       rq_authority rq = NeedsRole required \<or>
         (rq_authority rq = NeedsRoleOrDeployment required roles \<and> \<not> holds_deployment_role p roles) \<Longrightarrow>
       user_authorized ms chain required \<or> custom_grants_allow gs chain rq"
    and super_gate: "rq_authority rq = NeedsSuperadmin \<Longrightarrow> decide db p chain rq \<Longrightarrow> is_superadmin p"
    and deployment_gate: "rq_authority rq = NeedsDeployment roles \<Longrightarrow> decide db p chain rq \<Longrightarrow> holds_deployment_role p roles"
begin

lemma closed_across_tenants:
  assumes "filter_load db p rq' = Inr f" "filter_reach db f = Inr reach" "\<not> reaches_org reach og" "chain_in db og chain"
    and "rq_authority rq = NeedsRole required \<or>
      (rq_authority rq = NeedsRoleOrDeployment required roles \<and> \<not> holds_deployment_role p roles)"
    and "\<not> is_superadmin p"
  shows "\<not> decide db p chain rq"
proof
  assume yes: "decide db p chain rq"
  obtain super where a: "authority_of db p = Inr (super, fl_memberships f, fl_grants f)"
    using assms(1) by (auto simp: filter_load_def and_ok_Inr)
  show False
    using role_gate [OF a assms(6) yes assms(5)] nothing_applies unreached [OF assms(2-4)] by blast
qed

lemma token_never_operates:
  assumes "decide db (Token held) chain rq"
  shows "rq_authority rq \<noteq> NeedsSuperadmin" "rq_authority rq \<noteq> NeedsDeployment roles"
  using super_gate [OF _ assms] deployment_gate [OF _ assms, of roles]
  by (auto simp: is_superadmin_def holds_deployment_role_def)

end

definition guard_decides :: "rbac_db \<Rightarrow> principal \<Rightarrow> scope_chain \<Rightarrow> requirement \<Rightarrow> bool" where
  "guard_decides db p chain rq \<longleftrightarrow> authorize db p chain rq = Inr ()"

definition listing_decides :: "rbac_db \<Rightarrow> principal \<Rightarrow> scope_chain \<Rightarrow> requirement \<Rightarrow> bool" where
  "listing_decides db p chain rq = (case filter_load db p rq of Inr f \<Rightarrow> filter_allows f chain | Inl _ \<Rightarrow> False)"

definition advice_decides :: "rbac_db \<Rightarrow> principal \<Rightarrow> scope_chain \<Rightarrow> requirement \<Rightarrow> bool" where
  "advice_decides db p chain rq =
     (case authority_of db p of
        Inr (super, ms, gs) \<Rightarrow> permitted super (deployment_role_of p) ms gs chain rq
      | Inl _ \<Rightarrow> False)"

lemmas gate_defs = authority_of_def is_superadmin_def holds_deployment_role_def and_ok_Inr

lemma allow_if_Inr [simp]: "allow_if b = Inr u \<longleftrightarrow> b"
  by (simp add: allow_if_def)

lemma authority_super: "authority_of db p = Inr (super, ms, gs) \<Longrightarrow> super = is_superadmin p"
  by (cases p) (auto simp: gate_defs)

interpretation guard: gate guard_decides
proof (unfold_locales, goal_cases)
  case (1 db p super ms gs chain rq required roles)
  then show ?case
    by (cases p) (auto simp: guard_decides_def authorize_def authorize_token_def authorize_scoped_def gate_defs Let_def
        split: if_splits)
qed (auto simp: guard_decides_def authorize_def authorize_token_def gate_defs split: principal.splits if_splits)

interpretation listing: gate listing_decides
proof (unfold_locales, goal_cases)
  case (1 db p super ms gs chain rq required roles)
  then show ?case
    using authority_super [OF 1(1)]
    by (auto simp: listing_decides_def filter_load_def filter_allows_def filter_allows_as_def holds_deployment_role_def)
next
  case (2 rq db p chain)
  then show ?case
    using authority_super [of db p]
    by (auto simp: listing_decides_def filter_load_def filter_allows_def filter_allows_as_def and_ok_Inr split: sum.splits if_splits)
next
  case (3 rq roles db p chain)
  then show ?case
    using authority_super [of db p]
    by (auto simp: listing_decides_def filter_load_def filter_allows_def filter_allows_as_def and_ok_Inr holds_deployment_role_def
        split: sum.splits if_splits)
qed

interpretation advice: gate advice_decides
proof (unfold_locales, goal_cases)
  case (1 db p super ms gs chain rq required roles)
  then show ?case
    using authority_super [OF 1(1)] by (auto simp: advice_decides_def permitted_def holds_deployment_role_def)
next
  case (2 rq db p chain)
  then show ?case using authority_super [of db p] by (auto simp: advice_decides_def permitted_def split: sum.splits)
next
  case (3 rq roles db p chain)
  then show ?case
    using authority_super [of db p] by (auto simp: advice_decides_def permitted_def holds_deployment_role_def split: sum.splits)
qed

lemma authorize_answers:
  assumes "authority_of db p = Inr a"
  shows "authorize db p chain rq = Inr () \<or> authorize db p chain rq = Inl Forbidden"
proof (cases p)
  case (User user)
  then obtain ms gs where "rd_memberships db (ac_id user) = Inr ms" "rd_grants db (ac_id user) = Inr gs"
    using assms by (auto simp: authority_of_def and_ok_Inr)
  with User show ?thesis by (auto simp: authorize_def authorize_scoped_def allow_if_def split: authority.splits)
qed (auto simp: authorize_def authorize_token_def allow_if_def Let_def split: authority.splits)


end
