(* ===== verification/Rbac_Spec.thy ===== *)
theory Rbac_Spec
  imports Rbac_Props
begin

text \<open>
  The guard as the reference for the other answers, what a token and a deployment role reach, and the
  shape of the capability table. A small deployment at the end evaluates each of them.
\<close>

section \<open>Listings and advice say what the guard says\<close>

definition refused_to_tokens :: "principal \<Rightarrow> requirement \<Rightarrow> bool" where
  "refused_to_tokens p rq \<longleftrightarrow> api_token_of p \<noteq> None \<and> rq_action rq \<noteq> Read \<and> rq_resource rq \<in> set TOKEN_REFUSED_WRITES"

lemma advice_is_guard:
  assumes "authority_of db p = Inr (super, ms, gs)" "\<not> refused_to_tokens p rq"
  shows "permitted super (deployment_role_of p) ms gs chain rq \<longleftrightarrow> authorize db p chain rq = Inr ()"
proof (cases p)
  case (Superadmin a)
  with assms(1) show ?thesis by (auto simp: authority_of_def permitted_def authorize_def split: authority.splits)
next
  case (User user)
  with assms(1) have "rd_memberships db (ac_id user) = Inr ms" "rd_grants db (ac_id user) = Inr gs" "\<not> super"
    by (auto simp: authority_of_def and_ok_Inr)
  with User show ?thesis
    by (auto simp: permitted_def authorize_def authorize_scoped_def holds_deployment_role_def is_superadmin_def Let_def
        split: authority.splits)
next
  case (Token held)
  with assms show ?thesis
    by (auto simp: authority_of_def permitted_def authorize_def authorize_token_def refused_to_tokens_def Let_def
        split: authority.splits)
qed

lemma filter_is_permitted:
  "filter_load db p rq = Inr f \<Longrightarrow>
   filter_allows f chain = permitted (fl_superadmin f) (deployment_role_of p) (fl_memberships f) (fl_grants f) chain rq"
  by (auto simp: filter_load_def and_ok_Inr filter_allows_def filter_allows_as_def permitted_def Let_def split: authority.splits)

text \<open>
  Listings show exactly what the guard would open. A row passes the filter that a caller's listing
  uses just when the guard would let that caller act on it, for every principal, scope and capability, except
  the writes that no token may make.
\<close>

theorem listing_matches_guard:
  assumes "filter_load db p rq = Inr f" "\<not> refused_to_tokens p rq"
  shows "filter_allows f chain \<longleftrightarrow> authorize db p chain rq = Inr ()"
proof -
  have "authority_of db p = Inr (fl_superadmin f, fl_memberships f, fl_grants f)"
    using assms(1) by (auto simp: filter_load_def and_ok_Inr)
  then show ?thesis using filter_is_permitted [OF assms(1)] advice_is_guard [OF _ assms(2)] by simp
qed

section \<open>The table\<close>

fun scoped_authority :: "authority option \<Rightarrow> bool" where
  "scoped_authority (Some (NeedsRole _)) = True"
| "scoped_authority (Some (NeedsRoleOrDeployment _ _)) = True"
| "scoped_authority _ = False"

fun names_auditor :: "authority option \<Rightarrow> bool" where
  "names_auditor (Some (NeedsDeployment roles)) = (SecurityAuditor \<in> set roles)"
| "names_auditor (Some (NeedsRoleOrDeployment _ roles)) = (SecurityAuditor \<in> set roles)"
| "names_auditor _ = False"

definition row_sound :: "capability \<Rightarrow> bool" where
  "row_sound cap \<longleftrightarrow>
     cp_scope cap \<in> {''org'', ''team'', ''project'', ''deployment''} \<and>
     CHR '':'' \<notin> set (cp_resource cap) \<and>
     list_ex (\<lambda>a. cap_authority cap a \<noteq> None) ACTIONS \<and>
     (cp_scope cap = ''deployment'' \<longrightarrow> list_all (\<lambda>a. \<not> scoped_authority (cap_authority cap a)) ACTIONS) \<and>
     list_all (\<lambda>a. \<not> names_auditor (cap_authority cap a)) [Create, Update, Delete]"

lemma table_rows_sound: "list_all row_sound CAPABILITIES"
  by code_simp

lemma table_distinct: "distinct (map cp_resource CAPABILITIES)"
  by code_simp



lemma row_name_plain: "cap \<in> set CAPABILITIES \<Longrightarrow> CHR '':'' \<notin> set (cp_resource cap)"
  using table_rows_sound by (auto simp: list_all_iff row_sound_def)

lemma pair_name_eq:
  "CHR '':'' \<notin> set r \<Longrightarrow> CHR '':'' \<notin> set r' \<Longrightarrow> pair_name r a = pair_name r' a' \<longleftrightarrow> r = r' \<and> a = a'"
proof -
  assume plain: "CHR '':'' \<notin> set r" "CHR '':'' \<notin> set r'"
  have "CHR '':'' \<notin> set (action_key a)" by (cases a) auto
  with plain have "pair_name r a = pair_name r' a' \<longleftrightarrow> r = r' \<and> action_key a = action_key a'"
    unfolding pair_name_def by (auto simp: append_Cons_eq_iff)
  moreover have "action_key a = action_key a' \<longleftrightarrow> a = a'" by (cases a; cases a') auto
  ultimately show ?thesis by simp
qed

lemma ACTIONS_all [simp]: "a \<in> set ACTIONS"
  by (cases a) (auto simp: ACTIONS_def)

lemma set_map_filter_iff: "set (List.map_filter f xs) = {y. \<exists>x\<in>set xs. f x = Some y}"
  by (force simp: map_filter_def)

lemma allowed_in_iff:
  "x \<in> set (allowed_in table super held ms gs chain) \<longleftrightarrow>
   (\<exists>cap\<in>set table. \<exists>a au. cap_authority cap a = Some au \<and> x = pair_name (cp_resource cap) a \<and>
      permitted super held ms gs (chain_at (scope_of cap a) chain)
        \<lparr>rq_resource = cp_resource cap, rq_action = a, rq_authority = au\<rparr>)"
  unfolding allowed_in_def set_concat set_map UN_simps set_map_filter_iff UN_iff mem_Collect_eq
  by (intro bex_cong refl) (force split: option.splits if_splits)

lemma table_row: "cap \<in> set CAPABILITIES \<Longrightarrow> find (\<lambda>c. cp_resource c = cp_resource cap) CAPABILITIES = Some cap"
proof -
  have "find (\<lambda>c. cp_resource c = cp_resource cap) xs = Some cap" if "distinct (map cp_resource xs)" "cap \<in> set xs" for xs
    using that by (induction xs) auto
  then show "cap \<in> set CAPABILITIES \<Longrightarrow> ?thesis" using table_distinct by blast
qed

lemma allowed_for_iff:
  assumes "cap \<in> set CAPABILITIES" "cap_authority cap a = Some au"
  shows "pair_name (cp_resource cap) a \<in> set (allowed_for super held ms gs chain) \<longleftrightarrow>
    permitted super held ms gs (chain_at (scope_of cap a) chain) \<lparr>rq_resource = cp_resource cap, rq_action = a, rq_authority = au\<rparr>"
proof -
  have "cap' = cap" if "cap' \<in> set CAPABILITIES" "cp_resource cap' = cp_resource cap" for cap'
    using table_distinct that assms(1) unfolding distinct_map by (blast dest: inj_onD)
  moreover have "cp_resource cap = cp_resource cap' \<and> a = a'"
    if "cap' \<in> set CAPABILITIES" "pair_name (cp_resource cap) a = pair_name (cp_resource cap') a'" for cap' a'
    using that(2) pair_name_eq [OF row_name_plain [OF assms(1)] row_name_plain [OF that(1)]] by simp
  ultimately show ?thesis
    unfolding allowed_for_def allowed_in_iff using assms by (metis option.inject)
qed

lemma effective_allowed:
  assumes "get_effective db p chain = Inr view" "x \<noteq> pair_name ''request_payload'' Read"
  obtains super ms gs where "authority_of db p = Inr (super, ms, gs)"
    "x \<in> set (ev_allowed view) \<longleftrightarrow> x \<in> set (allowed_for super (deployment_role_of p) ms gs chain)"
  using assms
  by (auto simp: get_effective_def get_effective_in_def allowed_for_def and_ok_Inr Let_def split: option.splits bool.splits if_splits)

lemma effective_answers: "authority_of db p = Inr a \<Longrightarrow> \<exists>view. get_effective db p chain = Inr view"
  by (cases a) (simp add: get_effective_def get_effective_in_def Let_def)

text \<open>
  C35: The dashboard is told what the guard will say. Every pair of the table other than reading
  recorded payloads is in the answer of \<open>rbac/effective\<close> just when the guard lets that caller do it at the scope
  the row declares, again except the writes that no token may make.
\<close>

theorem advisory_matches_guard:
  assumes "get_effective db p chain = Inr view"
    and "cap \<in> set CAPABILITIES" "cap_authority cap a = Some au"
    and "(cp_resource cap, a) \<noteq> (''request_payload'', Read)"
    and "\<not> refused_to_tokens p \<lparr>rq_resource = cp_resource cap, rq_action = a, rq_authority = au\<rparr>"
  shows "pair_name (cp_resource cap) a \<in> set (ev_allowed view) \<longleftrightarrow>
    (\<exists>rq. requirement_for (cp_resource cap) a = Some rq \<and> authorize db p (chain_at (scope_of cap a) chain) rq = Inr ())"
proof -
  let ?rq = "\<lparr>rq_resource = cp_resource cap, rq_action = a, rq_authority = au\<rparr>"
  have "pair_name (cp_resource cap) a \<noteq> pair_name ''request_payload'' Read"
    using assms(4) row_name_plain [OF assms(2)] by (auto simp: pair_name_eq)
  from effective_allowed [OF assms(1) this] obtain super ms gs where
    held: "authority_of db p = Inr (super, ms, gs)"
      "pair_name (cp_resource cap) a \<in> set (ev_allowed view) \<longleftrightarrow>
       pair_name (cp_resource cap) a \<in> set (allowed_for super (deployment_role_of p) ms gs chain)" .
  have "requirement_for (cp_resource cap) a = Some ?rq"
    using table_row [OF assms(2)] assms(3) by (simp add: requirement_for_def requirement_in_def)
  then show ?thesis
    using held(2) allowed_for_iff [OF assms(2,3)] advice_is_guard [OF held(1) assms(5)] by simp
qed

section \<open>What a token and a deployment role reach\<close>

lemma applies_token_scope:
  assumes "token_authority db token = Inr held"
    and "user_authorized (tp_memberships held) chain required \<or> custom_grants_allow (tp_grants held) chain rq"
  shows "scope_specificity (Some (at_org token)) (at_team token) (at_project token) chain \<noteq> None"
proof (rule ccontr)
  assume none: "\<not> ?thesis"
  have "m \<in> set (tp_memberships held) \<Longrightarrow> membership_specificity m chain = None" for m
    using assms(1) none by (auto simp: token_authority_def membership_specificity_def and_ok_Inr split: option.splits)
  moreover have "g \<in> set (tp_grants held) \<Longrightarrow> \<not> grant_applies g chain" for g
    using assms(1) none by (auto simp: token_authority_def grant_applies_def and_ok_Inr Let_def split: option.splits if_splits)
  ultimately show False using nothing_applies assms(2) by blast
qed


text \<open>
  C14: Who operates the deployment. Where an admin token is configured, a request that passes the
  guard of a deployment-wide capability either carries that token, or the token of a live session whose
  account is a superadmin or, where the capability names deployment roles, holds one of them. No API token does.
\<close>

theorem operators_only:
  assumes "principal_from_request hash_key (Some expected) store bearer = Inr p" "authorize_superadmin p rq = Inr ()"
  shows "(bearer = Some expected \<and> expected \<noteq> []) \<or>
    (\<exists>token db u user. bearer = Some token \<and> store = Some db \<and> \<not> starts_with token TOKEN_PREFIX \<and>
       rd_session_user db (hash_key token) = Inr (Some u) \<and> rd_account db u = Inr user \<and>
       (ac_is_superadmin user \<or>
        (\<exists>roles h. rq_authority rq = NeedsDeployment roles \<and> h \<in> set roles \<and>
           Option.bind (ac_deployment_role user) deployment_parse = Some h)))"
proof (cases "bearer = Some expected \<and> expected \<noteq> []")
  case False
  obtain token db where t: "bearer = Some token" "store = Some db"
    using assms(1) False by (auto simp: principal_from_request_def Let_def split: option.splits if_splits)
  show ?thesis
  proof (cases "starts_with token TOKEN_PREFIX")
    case True
    then obtain held where "p = Token held"
      using assms(1) False t by (auto simp: principal_from_request_def and_ok_Inr Let_def split: option.splits if_splits)
    with assms(2) show ?thesis
      by (auto simp: authorize_superadmin_def require_superadmin_def gate_defs split: authority.splits)
  next
    case plain: False
    obtain u user where s: "rd_session_user db (hash_key token) = Inr (Some u)" "rd_account db u = Inr user" "p = for_user user"
      using assms(1) False t plain
      by (auto simp: principal_from_request_def and_ok_Inr Let_def split: option.splits if_splits)
    then have "ac_is_superadmin user \<or>
        (\<exists>roles h. rq_authority rq = NeedsDeployment roles \<and> h \<in> set roles \<and>
           Option.bind (ac_deployment_role user) deployment_parse = Some h)"
      using assms(2)
      by (auto simp: authorize_superadmin_def require_superadmin_def for_user_def gate_defs split: authority.splits option.splits if_splits)
    with s t plain show ?thesis by blast
  qed
qed simp

section \<open>A small deployment\<close>

text \<open>
  Organisation 1 with team 2 and project 3, and organisation 9. Account 10 administers team 2, account 11
  is a security auditor, token hashes are the tokens themselves.
\<close>

definition demo_account :: "uuid \<Rightarrow> string option \<Rightarrow> account" where
  "demo_account u d = \<lparr>ac_id = u, ac_is_superadmin = False, ac_deployment_role = d\<rparr>"

definition demo_token :: api_token where
  "demo_token = \<lparr>at_id = 20, at_org = 1, at_team = None, at_project = None, at_name = ''ci'', at_role = Some ''admin'',
     at_custom_role = None, at_token_hash = ''h'', at_token_prefix = ''rolter_api_1234'', at_expires_at = Some 900, at_created_by = None,
     at_created_at = 100, at_rotated_at = None, at_last_used_at = None, at_revoked_at = None\<rparr>"

definition demo_db :: rbac_db where
  "demo_db =
     \<lparr>rd_memberships = (\<lambda>u. Inr (if u = 10 then [\<lparr>mb_org = None, mb_team = Some 2, mb_project = None, mb_role = ''admin''\<rparr>] else [])),
      rd_grants = (\<lambda>_. Inr []),
      rd_session_user = (\<lambda>h. Inr (if h = ''auditor'' then Some 11 else None)),
      rd_account = (\<lambda>u. if u = 10 then Inr (demo_account 10 None)
                        else if u = 11 then Inr (demo_account 11 (Some ''security_auditor'')) else Inl NotFound),
      rd_api_token = (\<lambda>_. Inr None),
      rd_custom_role = (\<lambda>_. Inl NotFound),
      rd_team_org = (\<lambda>t. if t = 2 then Inr 1 else Inl NotFound),
      rd_project_team = (\<lambda>p. if p = 3 then Inr 2 else Inl NotFound),
      rd_virtual_key_project = (\<lambda>_. Inl NotFound), rd_unit_org = (\<lambda>_. Inl NotFound),
      rd_customer_org = (\<lambda>_. Inl NotFound), rd_org_exists = (\<lambda>_. Inr ()),
      rd_payload_min_role = (\<lambda>_. Inr ''admin'')\<rparr>"

definition demo_chain :: scope_chain where
  "demo_chain = \<lparr>sc_org = Some 1, sc_team = Some 2, sc_project = Some 3\<rparr>"

definition demo_need :: requirement where
  "demo_need = \<lparr>rq_resource = ''virtual_key'', rq_action = Create, rq_authority = NeedsRole Admin\<rparr>"

definition demo_filter :: scope_filter where
  "demo_filter = \<lparr>fl_superadmin = False, fl_deployment_role = None,
     fl_memberships = [\<lparr>mb_org = None, mb_team = Some 2, mb_project = None, mb_role = ''admin''\<rparr>], fl_grants = [],
     fl_requirement = demo_need\<rparr>"

lemma demo_filter_load: "filter_load demo_db (User (demo_account 10 None)) demo_need = Inr demo_filter"
  by code_simp

theorem resolve_role_spec_witness:
  "resolve_role (fl_memberships demo_filter) demo_chain = Some Admin \<and>
   (\<exists>s. (\<exists>m\<in>set (fl_memberships demo_filter). held_at m demo_chain = Some (s, Admin)) \<and>
       (\<forall>m\<in>set (fl_memberships demo_filter). \<forall>c. held_at m demo_chain = Some c \<longrightarrow> outranks (s, Admin) c))"
proof -
  have "resolve_role (fl_memberships demo_filter) demo_chain = Some Admin" by code_simp
  then show ?thesis using resolve_role_spec [of "fl_memberships demo_filter" demo_chain] by simp
qed


theorem listing_matches_guard_witness:
  "filter_allows demo_filter demo_chain \<and> authorize demo_db (User (demo_account 10 None)) demo_chain demo_need = Inr ()"
proof -
  have "filter_allows demo_filter demo_chain" by code_simp
  then show ?thesis
    using listing_matches_guard [OF demo_filter_load, of demo_chain] by (simp add: refused_to_tokens_def)
qed

theorem advisory_matches_guard_witness:
  "\<exists>view. get_effective demo_db (User (demo_account 10 None)) demo_chain = Inr view \<and>
     ''guardrail_rule:create'' \<notin> set (ev_allowed view) \<and>
     (\<nexists>rq. requirement_for ''guardrail_rule'' Create = Some rq \<and>
        authorize demo_db (User (demo_account 10 None)) demo_chain rq = Inr ())"
proof -
  let ?cap = "row ''guardrail_rule'' ''deployment'' AUDITOR SUPER SUPER SUPER []"
  have "authority_of demo_db (User (demo_account 10 None)) = Inr (False, fl_memberships demo_filter, [])" by code_simp
  from effective_answers [OF this] obtain view
    where v: "get_effective demo_db (User (demo_account 10 None)) demo_chain = Inr view" by blast
  have row: "?cap \<in> set CAPABILITIES" by (simp add: CAPABILITIES_def CAPABILITIES_6_def)
  have need: "cap_authority ?cap Create = Some NeedsSuperadmin" "cp_resource ?cap = ''guardrail_rule''"
    "scope_of ?cap Create = ''deployment''" "pair_name ''guardrail_rule'' Create = ''guardrail_rule:create''"
    "chain_at ''deployment'' demo_chain = demo_chain" by code_simp+
  have "requirement_for ''guardrail_rule'' Create =
      Some \<lparr>rq_resource = ''guardrail_rule'', rq_action = Create, rq_authority = NeedsSuperadmin\<rparr>" by code_simp
  then have "\<nexists>rq. requirement_for ''guardrail_rule'' Create = Some rq \<and>
      authorize demo_db (User (demo_account 10 None)) demo_chain rq = Inr ()" by (simp add: authorize_def)
  with v show ?thesis
    using advisory_matches_guard [OF v row need(1)] need by (simp add: refused_to_tokens_def)
qed

definition demo_read :: requirement where
  "demo_read = \<lparr>rq_resource = ''membership'', rq_action = Read, rq_authority = NeedsRole Viewer\<rparr>"

definition demo_held :: token_principal where
  "demo_held = \<lparr>tp_token = demo_token,
     tp_memberships = [\<lparr>mb_org = Some 1, mb_team = None, mb_project = None, mb_role = ''admin''\<rparr>], tp_grants = []\<rparr>"


theorem operators_only_witness:
  "\<exists>p rq. principal_from_request id (Some ''root'') (Some demo_db) (Some ''auditor'') = Inr p \<and>
     requirement_for ''config_export'' Read = Some rq \<and> authorize_superadmin p rq = Inr () \<and>
     rd_session_user demo_db ''auditor'' = Inr (Some 11)"
proof -
  let ?p = "User (demo_account 11 (Some ''security_auditor''))"
  let ?rq = "\<lparr>rq_resource = ''config_export'', rq_action = Read, rq_authority = NeedsDeployment [SecurityAuditor]\<rparr>"
  have run: "principal_from_request id (Some ''root'') (Some demo_db) (Some ''auditor'') = Inr ?p"
    "requirement_for ''config_export'' Read = Some ?rq" "authorize_superadmin ?p ?rq = Inr ()" by code_simp+
  have "\<exists>u. rd_session_user demo_db ''auditor'' = Inr (Some u)"
    using operators_only [OF run(1,3)] by auto
  with run show ?thesis by (auto simp: demo_db_def)
qed

text \<open>
  An organisation's token with the admin role is told it may create memberships, which the guard
  then refuses: neither \<open>allowed_for\<close> nor the listing filter looks at the writes closed to tokens.
\<close>

lemma token_is_promised_refused_write:
  "pair_name ''membership'' Create \<in> set (allowed_for False (deployment_role_of (Token demo_held)) (tp_memberships demo_held) (tp_grants demo_held) demo_chain)"
  "\<exists>rq. requirement_for ''membership'' Create = Some rq \<and> authorize demo_db (Token demo_held) demo_chain rq = Inl Forbidden"
proof -
  show "pair_name ''membership'' Create \<in> set (allowed_for False (deployment_role_of (Token demo_held)) (tp_memberships demo_held) (tp_grants demo_held) demo_chain)"
    by code_simp
  have "requirement_for ''membership'' Create = Some \<lparr>rq_resource = ''membership'', rq_action = Create, rq_authority = NeedsRole Admin\<rparr>"
    by code_simp
  then show "\<exists>rq. requirement_for ''membership'' Create = Some rq \<and> authorize demo_db (Token demo_held) demo_chain rq = Inl Forbidden"
    by (simp add: authorize_def authorize_token_def TOKEN_REFUSED_WRITES_def)
qed

end
