(* ===== verification/Api_Tokens.thy ===== *)
theory Api_Tokens
  imports Rbac_Spec Namespace
begin

text \<open>
  The scoped API tokens of the control plane (\<open>rolter-control/src/api_tokens.rs\<close>, \<open>repo/api_tokens.rs\<close>): minting,
  listing, rotating, revoking and resolving them. A handler is what it reads and decides (its \<open>plan\<close>) followed by
  one statement on the table, so that requests can interleave between the two. The fresh row id is a
  parameter of the insert, the random bytes and the digest are parameters of the secret. Rows that go with a deleted
  organisation, team, project or role are not followed.
\<close>

section \<open>The table and its statements\<close>

datatype token_write =
    InsertToken api_token
  | RotateToken uuid string string
  | RevokeToken uuid
  | TouchToken uuid

definition live_token :: "timestamp \<Rightarrow> api_token \<Rightarrow> bool" where
  "live_token now t = (at_revoked_at t = None \<and> (case at_expires_at t of None \<Rightarrow> True | Some e \<Rightarrow> now < e))"

definition token_get :: "api_token list \<Rightarrow> uuid \<Rightarrow> api_token api" where
  "token_get rows i = (case find (\<lambda>t. at_id t = i) rows of Some t \<Rightarrow> Inr t | None \<Rightarrow> Inl NotFound)"

text \<open>The order among tokens minted in the same microsecond is the database's.\<close>

definition token_list :: "api_token list \<Rightarrow> uuid \<Rightarrow> api_token list" where
  "token_list rows og = rev (sort_key at_created_at (filter (\<lambda>t. at_org t = og) rows))"

definition find_active_by_hash :: "api_token list \<Rightarrow> timestamp \<Rightarrow> string \<Rightarrow> api_token option" where
  "find_active_by_hash rows now h = find (\<lambda>t. at_token_hash t = h \<and> live_token now t) rows"

definition find_active_by_id :: "api_token list \<Rightarrow> timestamp \<Rightarrow> uuid \<Rightarrow> api_token option" where
  "find_active_by_id rows now i = find (\<lambda>t. at_id t = i \<and> live_token now t) rows"

definition hash_taken :: "api_token list \<Rightarrow> uuid \<Rightarrow> string \<Rightarrow> bool" where
  "hash_taken rows i h = list_ex (\<lambda>t. at_token_hash t = h \<and> at_id t \<noteq> i) rows"

text \<open>The check constraints of the table; the one on the name repeats the handler's own.\<close>

definition token_checks :: "api_token \<Rightarrow> bool" where
  "token_checks t =
     ((case at_role t of Some r \<Rightarrow> r \<in> {''admin'', ''member'', ''viewer''} | None \<Rightarrow> True) \<and>
      (at_role t = None) \<noteq> (at_custom_role t = None) \<and> (at_project t = None \<or> at_team t \<noteq> None))"

definition minute :: nat where "minute = 60 * 10 ^ 6"

fun exec_token ::
  "api_token list \<Rightarrow> timestamp \<Rightarrow> uuid \<Rightarrow> token_write \<Rightarrow> (api_token list \<times> api_token option) api"
where
  "exec_token rows now fresh (InsertToken t) =
     (let t' = t\<lparr>at_id := fresh, at_created_at := now\<rparr>
      in if list_ex (\<lambda>r. at_id r = fresh) rows \<or> hash_taken rows fresh (at_token_hash t) \<or> \<not> token_checks t
         then Inl StoreFailure else Inr (rows @ [t'], Some t'))"
| "exec_token rows now fresh (RotateToken i h pre) =
     (case find (\<lambda>t. at_id t = i \<and> at_revoked_at t = None) rows of
        None \<Rightarrow> Inr (rows, None)
      | Some t \<Rightarrow>
          if hash_taken rows i h then Inl StoreFailure
          else let t' = t\<lparr>at_token_hash := h, at_token_prefix := pre, at_rotated_at := Some now\<rparr>
               in Inr (map (\<lambda>r. if at_id r = i then t' else r) rows, Some t'))"
| "exec_token rows now fresh (RevokeToken i) =
     (case find (\<lambda>t. at_id t = i) rows of
        None \<Rightarrow> Inl NotFound
      | Some t \<Rightarrow>
          let t' = t\<lparr>at_revoked_at := Some (case at_revoked_at t of Some r \<Rightarrow> r | None \<Rightarrow> now)\<rparr>
          in Inr (map (\<lambda>r. if at_id r = i then t' else r) rows, Some t'))"
| "exec_token rows now fresh (TouchToken i) =
     Inr (map (\<lambda>r. if at_id r = i \<and> (case at_last_used_at r of None \<Rightarrow> True | Some l \<Rightarrow> l + minute < now)
                   then r\<lparr>at_last_used_at := Some now\<rparr> else r) rows, None)"

section \<open>The handlers\<close>

record create_api_token =
  ct_name :: string
  ct_team :: "uuid option"
  ct_project :: "uuid option"
  ct_role :: "string option"
  ct_custom_role :: "uuid option"
  ct_expires_in_days :: "nat option"
  ct_never_expires :: bool

definition DISPLAY_PREFIX_LEN :: nat where "DISPLAY_PREFIX_LEN = length TOKEN_PREFIX + 4"
definition DEFAULT_EXPIRY_DAYS :: nat where "DEFAULT_EXPIRY_DAYS = 90"
definition MAX_EXPIRY_DAYS :: nat where "MAX_EXPIRY_DAYS = 730"
definition day :: nat where "day = 24 * 60 * minute"

definition refuse_tokens :: "principal \<Rightarrow> unit api" where
  "refuse_tokens p = (case p of Token _ \<Rightarrow> Inl Forbidden | _ \<Rightarrow> Inr ())"

definition chain_of :: "api_token \<Rightarrow> scope_chain" where
  "chain_of t = \<lparr>sc_org = Some (at_org t), sc_team = at_team t, sc_project = at_project t\<rparr>"

definition requested_chain :: "rbac_db \<Rightarrow> uuid \<Rightarrow> uuid option \<Rightarrow> uuid option \<Rightarrow> scope_chain api" where
  "requested_chain db og team project =
     and_ok (case (team, project) of
               (_, Some p) \<Rightarrow>
                 and_ok (from_project db p) (\<lambda>chain.
                   if (case team of Some t \<Rightarrow> Some t \<noteq> sc_team chain | None \<Rightarrow> False)
                   then Inl (InvalidField ''team_id'') else Inr chain)
             | (Some t, None) \<Rightarrow> from_team db t
             | (None, None) \<Rightarrow> Inr (chain_org og)) (\<lambda>chain.
       if sc_org chain \<noteq> Some og then Inl (InvalidField ''project_id'') else Inr chain)"

definition generate_secret :: "(string \<Rightarrow> string) \<Rightarrow> nat list \<Rightarrow> string \<times> string \<times> string" where
  "generate_secret hash_key bytes =
     (let secret = TOKEN_PREFIX @ hex_encode bytes in (secret, hash_key secret, take DISPLAY_PREFIX_LEN secret))"

definition expiry :: "create_api_token \<Rightarrow> timestamp \<Rightarrow> timestamp option api" where
  "expiry body now =
     (if ct_never_expires body
      then if ct_expires_in_days body \<noteq> None then Inl (InvalidField ''never_expires'') else Inr None
      else let days = (case ct_expires_in_days body of Some d \<Rightarrow> d | None \<Rightarrow> DEFAULT_EXPIRY_DAYS)
           in if \<not> (1 \<le> days \<and> days \<le> MAX_EXPIRY_DAYS) then Inl (InvalidField ''expires_in_days'')
              else Inr (Some (now + days * day)))"

definition require_non_empty :: "string \<Rightarrow> string \<Rightarrow> unit api" where
  "require_non_empty v field = (if trim v = [] then Inl (InvalidField field) else Inr ())"

text \<open>\<open>cap!("api_token", a)\<close>.\<close>

definition token_cap :: "action_kind \<Rightarrow> requirement" where
  "token_cap a = \<lparr>rq_resource = ''api_token'', rq_action = a, rq_authority = NeedsRole Admin\<rparr>"

definition create_token ::
  "(string \<Rightarrow> string) \<Rightarrow> nat list \<Rightarrow> rbac_db \<Rightarrow> timestamp \<Rightarrow> principal \<Rightarrow> uuid \<Rightarrow> create_api_token \<Rightarrow> (string \<times> token_write) api"
where
  "create_token hash_key bytes db now p og body =
     and_ok (refuse_tokens p) (\<lambda>_.
     and_ok (require_non_empty (ct_name body) ''name'') (\<lambda>_.
       let name = trim (ct_name body)
       in if 80 < char_count name then Inl (InvalidField ''name'')
          else
            and_ok (case (ct_role body, ct_custom_role body) of
                      (Some r, None) \<Rightarrow> if parse_role r = None then Inl (InvalidField ''role'') else Inr (Some r)
                    | (None, Some _) \<Rightarrow> Inr None
                    | _ \<Rightarrow> Inl (InvalidField ''role'')) (\<lambda>role.
            and_ok (expiry body now) (\<lambda>expires_at.
            and_ok (requested_chain db og (ct_team body) (ct_project body)) (\<lambda>chain.
            and_ok (authorize db p chain (token_cap Create)) (\<lambda>_.
            and_ok (case ct_custom_role body of
                      Some role_id \<Rightarrow>
                        and_ok (rd_custom_role db role_id) (\<lambda>r.
                          if cr_org r \<noteq> og then Inl (InvalidField ''custom_role_id'') else Inr ())
                    | None \<Rightarrow> Inr ()) (\<lambda>_.
              let (secret, h, pre) = generate_secret hash_key bytes
              in Inr (secret, InsertToken \<lparr>at_id = 0, at_org = og, at_team = sc_team chain, at_project = sc_project chain,
                     at_name = name, at_role = role, at_custom_role = ct_custom_role body, at_token_hash = h,
                     at_token_prefix = pre, at_expires_at = expires_at, at_created_by = account_id p, at_created_at = now,
                     at_rotated_at = None, at_last_used_at = None, at_revoked_at = None\<rparr>))))))))"

definition require_reach :: "rbac_db \<Rightarrow> scope_filter \<Rightarrow> uuid \<Rightarrow> unit api" where
  "require_reach db f og = and_ok (filter_reach db f) (\<lambda>reach. allow_if (reaches_org reach og))"

definition list_tokens :: "rbac_db \<Rightarrow> api_token list \<Rightarrow> principal \<Rightarrow> uuid \<Rightarrow> api_token list api" where
  "list_tokens db rows p og =
     and_ok (refuse_tokens p) (\<lambda>_.
     and_ok (filter_load db p (token_cap Read)) (\<lambda>f.
       let tokens = token_list rows og
       in if filter_allows f (chain_org og) then Inr tokens
          else and_ok (require_reach db f og) (\<lambda>_. Inr (filter (\<lambda>t. filter_allows f (chain_of t)) tokens))))"

definition rotate_token ::
  "(string \<Rightarrow> string) \<Rightarrow> nat list \<Rightarrow> rbac_db \<Rightarrow> api_token list \<Rightarrow> timestamp \<Rightarrow> principal \<Rightarrow> uuid \<Rightarrow> (string \<times> token_write) api"
where
  "rotate_token hash_key bytes db rows now p i =
     and_ok (refuse_tokens p) (\<lambda>_.
     and_ok (token_get rows i) (\<lambda>current.
     and_ok (authorize db p (chain_of current) (token_cap Update)) (\<lambda>_.
       let expired = (case at_expires_at current of Some e \<Rightarrow> e \<le> now | None \<Rightarrow> False)
       in if at_revoked_at current \<noteq> None \<or> expired then Inl TokenInactive
          else let (secret, h, pre) = generate_secret hash_key bytes in Inr (secret, RotateToken i h pre))))"

text \<open>What \<open>rotate_token\<close> answers once its statement has run.\<close>

definition rotate_answer :: "string \<Rightarrow> api_token option \<Rightarrow> (api_token \<times> string) api" where
  "rotate_answer secret updated = (case updated of Some t \<Rightarrow> Inr (t, secret) | None \<Rightarrow> Inl TokenInactive)"

definition revoke_token :: "rbac_db \<Rightarrow> api_token list \<Rightarrow> principal \<Rightarrow> uuid \<Rightarrow> token_write api" where
  "revoke_token db rows p i =
     and_ok (refuse_tokens p) (\<lambda>_.
     and_ok (token_get rows i) (\<lambda>current.
     and_ok (authorize db p (chain_of current) (token_cap Delete)) (\<lambda>_. Inr (RevokeToken i))))"

definition resolve_id :: "rbac_db \<Rightarrow> api_token list \<Rightarrow> timestamp \<Rightarrow> uuid \<Rightarrow> token_principal option api" where
  "resolve_id db rows now i =
     (case find_active_by_id rows now i of
        None \<Rightarrow> Inr None
      | Some token \<Rightarrow> and_ok (token_authority db token) (\<lambda>held. Inr (Some held)))"

text \<open>The lookup that \<open>resolve_api_token\<close> asks for is a select on this table.\<close>

definition with_tokens :: "rbac_db \<Rightarrow> api_token list \<Rightarrow> timestamp \<Rightarrow> rbac_db" where
  "with_tokens db rows now = db\<lparr>rd_api_token := \<lambda>h. Inr (find_active_by_hash rows now h)\<rparr>"

lemma token_cap_is_table: "requirement_for ''api_token'' a = Some (token_cap a)"
proof -
  have "list_all (\<lambda>a. requirement_for ''api_token'' a = Some (token_cap a)) ACTIONS" by code_simp
  then show ?thesis by (simp add: list_all_iff)
qed

end
