(* ===== verification/Api_Tokens_Props.thy ===== *)
theory Api_Tokens_Props
  imports Api_Tokens
begin

text \<open>
  What holds of the tokens however requests interleave: a request reads and decides, and its statement runs
  at some later moment, between those of others.
\<close>

section \<open>Interleaved requests\<close>

record token_world =
  tw_rows :: "api_token list"
  tw_now :: timestamp
  tw_pending :: "token_write list"

inductive token_step :: "token_world \<Rightarrow> token_world \<Rightarrow> bool" where
  passes: "tw_now w \<le> now \<Longrightarrow> token_step w (w\<lparr>tw_now := now\<rparr>)"
| mints: "create_token hash_key bytes db (tw_now w) p og body = Inr (secret, wr) \<Longrightarrow>
    token_step w (w\<lparr>tw_pending := wr # tw_pending w\<rparr>)"
| rotates: "rotate_token hash_key bytes db (tw_rows w) (tw_now w) p i = Inr (secret, wr) \<Longrightarrow>
    token_step w (w\<lparr>tw_pending := wr # tw_pending w\<rparr>)"
| revokes: "revoke_token db (tw_rows w) p i = Inr wr \<Longrightarrow> token_step w (w\<lparr>tw_pending := wr # tw_pending w\<rparr>)"
| resolves: "find_active_by_hash (tw_rows w) (tw_now w) h = Some t \<Longrightarrow>
    token_step w (w\<lparr>tw_pending := TouchToken (at_id t) # tw_pending w\<rparr>)"
| executes: "wr \<in> set (tw_pending w) \<Longrightarrow> exec_token (tw_rows w) (tw_now w) fresh wr = Inr (rows, found) \<Longrightarrow>
    token_step w (w\<lparr>tw_rows := rows, tw_pending := remove1 wr (tw_pending w)\<rparr>)"
| fails: "wr \<in> set (tw_pending w) \<Longrightarrow> token_step w (w\<lparr>tw_pending := remove1 wr (tw_pending w)\<rparr>)"

inductive_cases token_stepE: "token_step w w'"

definition token_run :: "token_world \<Rightarrow> token_world \<Rightarrow> bool" where
  "token_run = token_step\<^sup>*\<^sup>*"

definition no_tokens :: token_world where
  "no_tokens = \<lparr>tw_rows = [], tw_now = 0, tw_pending = []\<rparr>"

section \<open>Rows\<close>

lemma and_ok_InrE [elim]: "and_ok a f = Inr y \<Longrightarrow> (\<And>x. a = Inr x \<Longrightarrow> f x = Inr y \<Longrightarrow> thesis) \<Longrightarrow> thesis"
  by (auto simp: and_ok_Inr)

definition ids_distinct :: "api_token list \<Rightarrow> bool" where
  "ids_distinct rows = distinct (map at_id rows)"

lemma find_row: "ids_distinct rows \<Longrightarrow> t \<in> set rows \<Longrightarrow> find (\<lambda>r. at_id r = at_id t) rows = Some t"
  by (induction rows) (auto simp: ids_distinct_def)

lemma find_Some_in: "find P xs = Some x \<Longrightarrow> x \<in> set xs \<and> P x"
  by (auto simp: find_Some_iff)

text \<open>What a statement leaves of a row.\<close>

definition row_after :: "api_token \<Rightarrow> api_token \<Rightarrow> bool" where
  "row_after t t' \<longleftrightarrow>
     at_id t' = at_id t \<and> chain_of t' = chain_of t \<and> at_role t' = at_role t \<and> at_custom_role t' = at_custom_role t \<and>
     at_expires_at t' = at_expires_at t \<and> at_created_at t' = at_created_at t \<and>
     (at_revoked_at t \<noteq> None \<longrightarrow> at_revoked_at t' = at_revoked_at t \<and> at_token_hash t' = at_token_hash t)"

lemma row_after_refl [simp]: "row_after t t"
  by (simp add: row_after_def)

lemma row_after_trans: "row_after a b \<Longrightarrow> row_after b c \<Longrightarrow> row_after a c"
  by (auto simp: row_after_def)

lemma same_row: "ids_distinct rows \<Longrightarrow> t \<in> set rows \<Longrightarrow> r \<in> set rows \<Longrightarrow> at_id r = at_id t \<Longrightarrow> r = t"
  unfolding ids_distinct_def distinct_map by (blast dest: inj_onD)

lemma update_one:
  assumes "ids_distinct rows" "t \<in> set rows" "row_after t t'"
  shows "\<forall>r\<in>set rows. row_after r (if at_id r = at_id t then t' else r)"
proof
  fix r assume "r \<in> set rows"
  then show "row_after r (if at_id r = at_id t then t' else r)"
    using same_row [OF assms(1,2)] assms(3) by (cases "at_id r = at_id t") auto
qed

text \<open>A statement appends a row or rewrites rows in place, and never brings a revoked one back.\<close>

lemma exec_token_shape:
  assumes "exec_token rows now fresh wr = Inr (rows', found)" "ids_distinct rows"
  shows "(\<exists>t. wr = InsertToken t \<and> rows' = rows @ [t\<lparr>at_id := fresh, at_created_at := now\<rparr>] \<and> fresh \<notin> at_id ` set rows) \<or>
    (\<exists>f. rows' = map f rows \<and> (\<forall>t\<in>set rows. row_after t (f t)))"
proof (cases wr)
  case (RotateToken i h pre)
  show ?thesis
  proof (cases "find (\<lambda>t. at_id t = i \<and> at_revoked_at t = None) rows")
    case None
    with RotateToken assms(1) have "rows' = map id rows" by simp
    then show ?thesis by (intro disjI2 exI [of _ id]) simp
  next
    case (Some t)
    let ?t = "t\<lparr>at_token_hash := h, at_token_prefix := pre, at_rotated_at := Some now\<rparr>"
    let ?f = "\<lambda>r. if at_id r = i then ?t else r"
    have t: "t \<in> set rows" "at_id t = i" "row_after t ?t"
      using find_Some_in [OF Some] by (auto simp: row_after_def chain_of_def)
    have "rows' = map ?f rows" using Some RotateToken assms(1) by (auto simp: Let_def split: if_splits)
    moreover have "\<forall>r\<in>set rows. row_after r (?f r)" using update_one [OF assms(2) t(1,3)] t(2) by simp
    ultimately show ?thesis by blast
  qed
next
  case (RevokeToken i)
  then obtain t where some: "find (\<lambda>t. at_id t = i) rows = Some t" using assms(1) by (auto split: option.splits)
  let ?t = "t\<lparr>at_revoked_at := Some (case at_revoked_at t of Some r \<Rightarrow> r | None \<Rightarrow> now)\<rparr>"
  let ?f = "\<lambda>r. if at_id r = i then ?t else r"
  have t: "t \<in> set rows" "at_id t = i" "row_after t ?t"
    using find_Some_in [OF some] by (auto simp: row_after_def chain_of_def)
  have "rows' = map ?f rows" using some RevokeToken assms(1) by (simp add: Let_def)
  moreover have "\<forall>r\<in>set rows. row_after r (?f r)" using update_one [OF assms(2) t(1,3)] t(2) by simp
  ultimately show ?thesis by blast
next
  case (TouchToken i)
  with assms(1) show ?thesis
    by (intro disjI2) (auto simp: row_after_def chain_of_def intro!: exI)
qed (use assms in \<open>auto simp: Let_def list_ex_iff split: if_splits\<close>)

lemma exec_keeps_ids:
  "exec_token rows now fresh wr = Inr (rows', found) \<Longrightarrow> ids_distinct rows \<Longrightarrow> ids_distinct rows'"
proof (drule exec_token_shape, assumption, elim disjE exE conjE)
  fix f assume "ids_distinct rows" and f: "rows' = map f rows" "\<forall>t\<in>set rows. row_after t (f t)"
  from f have "map at_id rows' = map at_id rows" by (simp add: row_after_def)
  with \<open>ids_distinct rows\<close> show ?thesis by (simp add: ids_distinct_def)
qed (auto simp: ids_distinct_def)

lemma exec_keeps_rows:
  "exec_token rows now fresh wr = Inr (rows', found) \<Longrightarrow> ids_distinct rows \<Longrightarrow> t \<in> set rows \<Longrightarrow> \<exists>t'\<in>set rows'. row_after t t'"
  by (drule exec_token_shape) (auto intro: row_after_refl)

lemma step_keeps_ids: "token_step w w' \<Longrightarrow> ids_distinct (tw_rows w) \<Longrightarrow> ids_distinct (tw_rows w')"
  by (erule token_stepE) (auto intro: exec_keeps_ids)

lemma run_keeps_ids: "token_run w w' \<Longrightarrow> ids_distinct (tw_rows w) \<Longrightarrow> ids_distinct (tw_rows w')"
  unfolding token_run_def by (induction rule: rtranclp_induct) (auto intro: step_keeps_ids)

lemma step_keeps_rows:
  "token_step w w' \<Longrightarrow> ids_distinct (tw_rows w) \<Longrightarrow> t \<in> set (tw_rows w) \<Longrightarrow> \<exists>t'\<in>set (tw_rows w'). row_after t t'"
  by (erule token_stepE) (auto dest: exec_keeps_rows intro: row_after_refl)

lemma run_keeps_rows:
  assumes "token_run w w'" "ids_distinct (tw_rows w)" "t \<in> set (tw_rows w)"
  shows "\<exists>t'\<in>set (tw_rows w'). row_after t t'"
  using assms(1) unfolding token_run_def
proof (induction rule: rtranclp_induct)
  case (step y z)
  then obtain t' where "t' \<in> set (tw_rows y)" "row_after t t'" by blast
  moreover have "ids_distinct (tw_rows y)" using run_keeps_ids [of w y] step(1) assms(2) by (simp add: token_run_def)
  ultimately show ?case using step_keeps_rows [OF step(2)] row_after_trans by blast
qed (use assms(3) row_after_refl in blast)

section \<open>Revocation\<close>

lemma token_authority_token: "token_authority db token = Inr held \<Longrightarrow> tp_token held = token"
  by (auto simp: token_authority_def Let_def split: option.splits)

lemma request_token:
  assumes "principal_from_request hash_key admin (Some (with_tokens db rows now)) bearer = Inr (Token held)"
  shows "tp_token held \<in> set rows \<and> live_token now (tp_token held)"
proof -
  from assms obtain h token where
    "find_active_by_hash rows now h = Some token" "token_authority (with_tokens db rows now) token = Inr held"
    by (auto simp: principal_from_request_def resolve_api_token_def with_tokens_def for_user_def and_ok_Inr Let_def
        split: option.splits if_splits)
  then show ?thesis using token_authority_token by (auto simp: find_active_by_hash_def dest!: find_Some_in)
qed

lemma ids_from_start: "token_run no_tokens w \<Longrightarrow> ids_distinct (tw_rows w)"
  by (erule run_keeps_ids) (simp add: no_tokens_def ids_distinct_def)

lemma revoked_later:
  assumes "token_run no_tokens w" "t \<in> set (tw_rows w)" "at_revoked_at t \<noteq> None" "token_run w w'"
    and "x \<in> set (tw_rows w')" "at_id x = at_id t"
  shows "at_revoked_at x = at_revoked_at t"
proof -
  have ids: "ids_distinct (tw_rows w)" "ids_distinct (tw_rows w')"
    using ids_from_start [OF assms(1)] run_keeps_ids [OF assms(4)] by auto
  obtain t' where "t' \<in> set (tw_rows w')" "row_after t t'" using run_keeps_rows [OF assms(4) ids(1) assms(2)] by blast
  then show ?thesis using same_row [OF ids(2) _ assms(5)] assms(3,6) by (auto simp: row_after_def)
qed

text \<open>
  C17: Revoking a token is final. Whatever requests ran before and run after, and however their
  statements interleave with those of a rotation already under way, a token that is revoked never stands
  for a principal again, neither by its secret nor by its id, and no statement gives it a new secret.
\<close>

theorem revocation_final:
  assumes "token_run no_tokens w" "t \<in> set (tw_rows w)" "at_revoked_at t \<noteq> None" "token_run w w'"
  shows "(principal_from_request hash_key admin (Some (with_tokens db (tw_rows w') (tw_now w'))) bearer = Inr (Token held) \<longrightarrow>
      at_id (tp_token held) \<noteq> at_id t) \<and>
    resolve_id db (tw_rows w') (tw_now w') (at_id t) = Inr None \<and>
    exec_token (tw_rows w') (tw_now w') fresh (RotateToken (at_id t) h pre) = Inr (tw_rows w', None)"
proof (intro conjI impI)
  note dead = revoked_later [OF assms]
  show "at_id (tp_token held) \<noteq> at_id t"
    if "principal_from_request hash_key admin (Some (with_tokens db (tw_rows w') (tw_now w'))) bearer = Inr (Token held)"
    using request_token [OF that] dead assms(3) by (auto simp: live_token_def)
  have "find_active_by_id (tw_rows w') (tw_now w') (at_id t) = None"
    using dead assms(3) by (fastforce simp: find_active_by_id_def find_None_iff live_token_def)
  then show "resolve_id db (tw_rows w') (tw_now w') (at_id t) = Inr None" by (simp add: resolve_id_def)
  have "find (\<lambda>r. at_id r = at_id t \<and> at_revoked_at r = None) (tw_rows w') = None"
    using dead assms(3) by (fastforce simp: find_None_iff)
  then show "exec_token (tw_rows w') (tw_now w') fresh (RotateToken (at_id t) h pre) = Inr (tw_rows w', None)" by simp
qed

section \<open>Minting\<close>

lemma requested_chain_shape:
  assumes "requested_chain db og team project = Inr chain"
  shows "sc_org chain = Some og" "sc_project chain \<noteq> None \<Longrightarrow> sc_team chain \<noteq> None" "chain_in db og chain"
  using assms
  by (auto simp: requested_chain_def from_project_def from_team_def chain_org_def chain_in_def and_ok_Inr
      split: option.splits if_splits)

lemma create_token_insert:
  assumes "create_token hash_key bytes db now p og body = Inr (secret, wr)"
  obtains t where "wr = InsertToken t" "api_token_of p = None" "authorize db p (chain_of t) (token_cap Create) = Inr ()"
    "chain_in db og (chain_of t)" "token_checks t" "secret = TOKEN_PREFIX @ hex_encode bytes" "at_token_hash t = hash_key secret"
    "expiry body now = Inr (at_expires_at t)" "at_revoked_at t = None"
    "at_org t = og" "at_role t = ct_role body" "at_custom_role t = ct_custom_role body"
proof -
  note d = assms [unfolded create_token_def Let_def]
  from d have person: "refuse_tokens p = Inr ()" by auto
  from d obtain role expires_at chain where
    role: "(case (ct_role body, ct_custom_role body) of
              (Some r, None) \<Rightarrow> if parse_role r = None then Inl (InvalidField ''role'') else Inr (Some r)
            | (None, Some _) \<Rightarrow> Inr None | _ \<Rightarrow> Inl (InvalidField ''role'')) = Inr role"
    and e: "expiry body now = Inr expires_at"
    and c: "requested_chain db og (ct_team body) (ct_project body) = Inr chain"
    and a: "authorize db p chain (token_cap Create) = Inr ()"
    and r: "Inr (let (secret, h, pre) = generate_secret hash_key bytes in (secret, InsertToken \<lparr>at_id = 0, at_org = og,
        at_team = sc_team chain, at_project = sc_project chain, at_name = trim (ct_name body), at_role = role,
        at_custom_role = ct_custom_role body, at_token_hash = h, at_token_prefix = pre, at_expires_at = expires_at,
        at_created_by = account_id p, at_created_at = now, at_rotated_at = None, at_last_used_at = None, at_revoked_at = None\<rparr>))
        = (Inr (secret, wr) :: (string \<times> token_write) api)"
    by (elim and_ok_InrE) (auto simp: generate_secret_def Let_def split: if_splits elim!: and_ok_InrE)
  then obtain t where w: "wr = InsertToken t" by (cases wr) (auto simp: generate_secret_def Let_def)
  have t: "chain_of t = \<lparr>sc_org = Some og, sc_team = sc_team chain, sc_project = sc_project chain\<rparr>"
    "at_role t = role" "at_custom_role t = ct_custom_role body" "at_token_hash t = hash_key secret"
    "at_expires_at t = expires_at" "at_revoked_at t = None" "secret = TOKEN_PREFIX @ hex_encode bytes" "at_org t = og"
    using r [unfolded w] by (auto simp: generate_secret_def chain_of_def Let_def)
  have "api_token_of p = None" using person by (cases p) (auto simp: refuse_tokens_def)
  moreover have "(case role of Some r \<Rightarrow> r \<in> {''admin'', ''member'', ''viewer''} | None \<Rightarrow> True) \<and>
      (role = None) \<noteq> (ct_custom_role body = None) \<and> role = ct_role body"
    using role by (cases role; cases "ct_role body"; cases "ct_custom_role body") (auto simp: parse_role_def split: if_splits)
  moreover from this have "token_checks t"
    using t(1-3) requested_chain_shape(2) [OF c] by (cases "sc_project chain") (auto simp: chain_of_def token_checks_def)
  moreover have "chain_of t = chain" using t(1) requested_chain_shape(1) [OF c] by (cases chain) simp
  ultimately show ?thesis using that [OF w] t e a requested_chain_shape(3) [OF c] by simp
qed

section \<open>Lifetimes\<close>

definition token_bounded :: "timestamp \<Rightarrow> api_token \<Rightarrow> bool" where
  "token_bounded from_time t \<longleftrightarrow> token_checks t \<and> (\<forall>e. at_expires_at t = Some e \<longrightarrow> e \<le> from_time + MAX_EXPIRY_DAYS * day)"

definition tokens_bounded :: "token_world \<Rightarrow> bool" where
  "tokens_bounded w \<longleftrightarrow> ids_distinct (tw_rows w) \<and>
     (\<forall>t\<in>set (tw_rows w). token_bounded (at_created_at t) t \<and> at_created_at t \<le> tw_now w) \<and>
     (\<forall>t. InsertToken t \<in> set (tw_pending w) \<longrightarrow> token_bounded (tw_now w) t)"

lemma expiry_bound: "expiry body now = Inr (Some e) \<Longrightarrow> e \<le> now + MAX_EXPIRY_DAYS * day"
  by (auto simp: expiry_def Let_def split: if_splits option.splits)

lemma bounded_later: "token_bounded a t \<Longrightarrow> a \<le> b \<Longrightarrow> token_bounded b t"
  by (fastforce simp: token_bounded_def)

lemma row_after_bounded: "row_after t t' \<Longrightarrow> token_bounded a t \<Longrightarrow> token_bounded a t'"
  by (auto simp: row_after_def token_bounded_def token_checks_def chain_of_def)

lemma exec_bounded:
  assumes "exec_token (tw_rows w) (tw_now w) fresh wr = Inr (rows, found)" "wr \<in> set (tw_pending w)" "tokens_bounded w"
  shows "tokens_bounded (w\<lparr>tw_rows := rows, tw_pending := remove1 wr (tw_pending w)\<rparr>)"
proof -
  have ids: "ids_distinct (tw_rows w)" using assms(3) by (simp add: tokens_bounded_def)
  have "token_bounded (at_created_at t) t \<and> at_created_at t \<le> tw_now w" if "t \<in> set rows" for t
    using exec_token_shape [OF assms(1) ids]
  proof (elim disjE exE conjE)
    fix n assume n: "wr = InsertToken n" "rows = tw_rows w @ [n\<lparr>at_id := fresh, at_created_at := tw_now w\<rparr>]"
    with assms(2,3) have "token_bounded (tw_now w) n" by (auto simp: tokens_bounded_def)
    with n that assms(3) show ?thesis by (auto simp: tokens_bounded_def token_bounded_def token_checks_def)
  next
    fix f assume "rows = map f (tw_rows w)" "\<forall>t\<in>set (tw_rows w). row_after t (f t)"
    with that obtain x where x: "x \<in> set (tw_rows w)" "row_after x t" by auto
    with assms(3) have "token_bounded (at_created_at x) x \<and> at_created_at x \<le> tw_now w" by (auto simp: tokens_bounded_def)
    with row_after_bounded [OF x(2)] x(2) show ?thesis by (simp add: row_after_def)
  qed
  moreover have "InsertToken t \<in> set (tw_pending w)" if "InsertToken t \<in> set (remove1 wr (tw_pending w))" for t
    using that by (meson notin_set_remove1)
  ultimately show ?thesis using exec_keeps_ids [OF assms(1) ids] assms(3) by (auto simp: tokens_bounded_def)
qed

lemma push_bounded:
  "tokens_bounded w \<Longrightarrow> (\<And>t. wr = InsertToken t \<Longrightarrow> token_bounded (tw_now w) t) \<Longrightarrow>
   tokens_bounded (w\<lparr>tw_pending := wr # tw_pending w\<rparr>)"
  by (auto simp: tokens_bounded_def)

lemma create_bounded: "create_token hash_key bytes db now p og body = Inr (secret, InsertToken t) \<Longrightarrow> token_bounded now t"
  by (erule create_token_insert) (auto simp: token_bounded_def dest: expiry_bound)

lemma step_bounded: "token_step w w' \<Longrightarrow> tokens_bounded w \<Longrightarrow> tokens_bounded w'"
proof (erule token_stepE)
  fix now assume "tokens_bounded w" "w' = w\<lparr>tw_now := now\<rparr>" "tw_now w \<le> now"
  then show "tokens_bounded w'" using bounded_later by (fastforce simp: tokens_bounded_def)
next
  fix wr assume "tokens_bounded w" "w' = w\<lparr>tw_pending := remove1 wr (tw_pending w)\<rparr>"
  then show "tokens_bounded w'" by (auto simp: tokens_bounded_def dest: notin_set_remove1)
qed (auto intro!: push_bounded exec_bounded create_bounded simp: rotate_token_def revoke_token_def generate_secret_def Let_def
    and_ok_Inr split: if_splits)

lemma run_bounded: "token_run no_tokens w \<Longrightarrow> tokens_bounded w"
  unfolding token_run_def
proof (induction rule: rtranclp_induct)
  case base
  show ?case by (simp add: no_tokens_def tokens_bounded_def ids_distinct_def)
qed (rule step_bounded)

text \<open>
  C23: How long a token can live. A token that was minted with an expiry authenticates nobody later than
  730 days after it was minted, however often it was rotated in between.
\<close>

theorem token_lifetime:
  assumes "token_run no_tokens w"
    and "principal_from_request hash_key admin (Some (with_tokens db (tw_rows w) (tw_now w))) bearer = Inr (Token held)"
    and "at_expires_at (tp_token held) \<noteq> None"
  shows "tw_now w < at_created_at (tp_token held) + 730 * day"
proof -
  have "token_bounded (at_created_at (tp_token held)) (tp_token held)" "live_token (tw_now w) (tp_token held)"
    using run_bounded [OF assms(1)] request_token [OF assms(2)] by (auto simp: tokens_bounded_def)
  then show ?thesis using assms(3) by (fastforce simp: token_bounded_def live_token_def MAX_EXPIRY_DAYS_def)
qed

section \<open>Secrets\<close>

lemma find_snoc: "find P xs = None \<Longrightarrow> P x \<Longrightarrow> find P (xs @ [x]) = Some x"
  by (induction xs) (auto split: if_splits)

lemma TOKEN_PREFIX_starts: "starts_with (TOKEN_PREFIX @ s) TOKEN_PREFIX" "TOKEN_PREFIX @ s \<noteq> []"
  by (simp_all add: starts_with_def TOKEN_PREFIX_def)

lemma request_with_token:
  assumes "find_active_by_hash rows now (hash_key (TOKEN_PREFIX @ s)) = Some t" "TOKEN_PREFIX @ s \<noteq> admin"
    and "token_authority db t = Inr held"
  shows "principal_from_request hash_key (Some admin) (Some (with_tokens db rows now)) (Some (TOKEN_PREFIX @ s)) = Inr (Token held)"
proof -
  have "token_authority (with_tokens db rows now) t = token_authority db t"
    by (simp add: token_authority_def with_tokens_def split: option.split)
  then show ?thesis
    using assms TOKEN_PREFIX_starts by (simp add: principal_from_request_def resolve_api_token_def with_tokens_def Let_def)
qed


text \<open>
  Rotating replaces the secret at once. After the statement of a rotation has run, the digest
  the token had before resolves to nothing, while the row keeps its scope, its role and its expiry.
\<close>

theorem rotation_replaces:
  assumes "ids_distinct rows" "distinct (map at_token_hash rows)" "old \<in> set rows"
    and "exec_token rows now fresh (RotateToken (at_id old) h pre) = Inr (rows', Some t)" "h \<noteq> at_token_hash old"
  shows "find_active_by_hash rows' later (at_token_hash old) = None \<and> t \<in> set rows' \<and> at_token_hash t = h \<and>
    row_after old t \<and> distinct (map at_token_hash rows')"
proof (intro conjI)
  obtain x where "find (\<lambda>t. at_id t = at_id old \<and> at_revoked_at t = None) rows = Some x"
    using assms(4) by (auto split: option.splits)
  then have live: "find (\<lambda>t. at_id t = at_id old \<and> at_revoked_at t = None) rows = Some old" "at_revoked_at old = None"
    using same_row [OF assms(1,3)] find_Some_in by fastforce+
  let ?t = "old\<lparr>at_token_hash := h, at_token_prefix := pre, at_rotated_at := Some now\<rparr>"
  from assms(4) live have r: "rows' = map (\<lambda>r. if at_id r = at_id old then ?t else r) rows" "t = ?t"
    and free: "\<not> hash_taken rows (at_id old) h" by (auto simp: Let_def split: if_splits)
  have other: "at_token_hash r \<noteq> at_token_hash old" if "r \<in> set rows" "at_id r \<noteq> at_id old" for r
    using assms(2,3) that unfolding distinct_map by (auto dest: inj_onD)
  show "find_active_by_hash rows' later (at_token_hash old) = None"
    using r(1) other assms(5) by (auto simp: find_active_by_hash_def find_None_iff)
  show "t \<in> set rows'" "at_token_hash t = h" "row_after old t"
    using r assms(3) live(2) by (auto simp: row_after_def chain_of_def)
  have "at_token_hash r \<noteq> h" if "r \<in> set rows" "at_id r \<noteq> at_id old" for r
    using free that by (auto simp: hash_taken_def list_ex_iff)
  then have "inj_on (at_token_hash \<circ> (\<lambda>r. if at_id r = at_id old then ?t else r)) (set rows)"
    using assms(2) same_row [OF assms(1)] unfolding distinct_map inj_on_def by auto
  then show "distinct (map at_token_hash rows')"
    using assms(2) r(1) by (simp add: distinct_map)
qed

end
