(* ===== verification/Api_Tokens_Spec.thy ===== *)
theory Api_Tokens_Spec
  imports Api_Tokens_Props
begin

text \<open>What a token holds next to the person who minted it, and concrete runs.\<close>

section \<open>A token and its minter\<close>

lemma max_role_in: "max_role rs best = Some r \<Longrightarrow> r \<in> set rs \<or> best = Some r"
  by (induction rs best rule: max_role.induct) (auto split: option.splits if_splits)

lemma admin_grant_opens:
  assumes "custom_base_role gs chain = Some Admin"
    and "rq_authority rq = NeedsRole required \<or> rq_authority rq = NeedsRoleOrDeployment required roles"
  shows "custom_grants_allow gs chain rq"
proof -
  obtain g where "g \<in> set gs" "grant_applies g chain" "parse_role (eg_base_role g) = Some Admin"
    using assms(1) max_role_in by (fastforce simp: custom_base_role_def set_map_filter_iff)
  moreover have "role_rank required \<le> role_rank Admin" by (cases required) auto
  ultimately show ?thesis using assms(2) by (auto simp: custom_grants_allow_def list_ex_iff intro!: bexI [of _ g])
qed

lemma rank_admin: "2 \<le> role_rank r \<longleftrightarrow> r = Admin"
  by (cases r) auto

lemma admin_opens_roles:
  assumes "holds_admin db p chain = Inr True" "api_token_of p = None"
    and "rq_authority rq = NeedsRole required \<or> rq_authority rq = NeedsRoleOrDeployment required roles"
  shows "authorize db p chain rq = Inr ()"
proof (cases p)
  case (User user)
  with assms(1) obtain ms gs where rows: "rd_memberships db (ac_id user) = Inr ms" "rd_grants db (ac_id user) = Inr gs"
    and "at_least_admin (effective_role_from ms gs chain)"
    by (auto simp: holds_admin_def effective_role_def and_ok_Inr)
  then have "resolve_role ms chain = Some Admin \<or> custom_base_role gs chain = Some Admin"
    by (auto simp: at_least_admin_def effective_role_from_def best_role_def rank_admin split: option.splits if_splits)
  moreover have "role_rank required \<le> role_rank Admin" by (cases required) auto
  moreover have "custom_base_role gs chain = Some Admin \<Longrightarrow> custom_grants_allow gs chain rq"
    using admin_grant_opens [OF _ assms(3)] by blast
  ultimately show ?thesis
    using User rows assms(3) by (auto simp: authorize_def authorize_scoped_def user_authorized_def)
qed (use assms in \<open>auto simp: authorize_def\<close>)


section \<open>Runs\<close>

definition demo_body :: create_api_token where
  "demo_body = \<lparr>ct_name = '' ci '', ct_team = None, ct_project = None, ct_role = Some ''admin'', ct_custom_role = None,
     ct_expires_in_days = Some 30, ct_never_expires = False\<rparr>"

definition demo_row :: api_token where
  "demo_row = \<lparr>at_id = 7, at_org = 1, at_team = None, at_project = None, at_name = ''ci'', at_role = Some ''admin'',
     at_custom_role = None, at_token_hash = ''rolter_api_2a'', at_token_prefix = ''rolter_api_2a'',
     at_expires_at = Some (30 * day), at_created_by = None, at_created_at = 0, at_rotated_at = None,
     at_last_used_at = None, at_revoked_at = None\<rparr>"

lemma demo_mint:
  "create_token id [42] demo_db 0 (Superadmin None) 1 demo_body = Inr (''rolter_api_2a'', InsertToken (demo_row\<lparr>at_id := 0\<rparr>))"
  "exec_token [] 0 7 (InsertToken (demo_row\<lparr>at_id := 0\<rparr>)) = Inr ([demo_row], Some demo_row)"
  by code_simp+

lemma minted_request:
  "token_authority demo_db demo_row = Inr held \<Longrightarrow>
   principal_from_request id (Some ''root'') (Some (with_tokens demo_db [demo_row] 0)) (Some ''rolter_api_2a'') = Inr (Token held)"
proof -
  assume h: "token_authority demo_db demo_row = Inr held"
  have f: "find_active_by_hash [demo_row] 0 (id (TOKEN_PREFIX @ ''2a'')) = Some demo_row" by code_simp
  have "TOKEN_PREFIX @ ''2a'' \<noteq> ''root''" by (simp add: TOKEN_PREFIX_def)
  from request_with_token [where hash_key = id and s = "''2a''", OF f this h] show ?thesis by (simp add: TOKEN_PREFIX_def)
qed

definition demo_world :: "api_token \<Rightarrow> timestamp \<Rightarrow> token_world" where
  "demo_world t now = \<lparr>tw_rows = [t], tw_now = now, tw_pending = []\<rparr>"

lemma demo_minted: "token_run no_tokens (demo_world demo_row 0)"
proof -
  let ?w = "no_tokens\<lparr>tw_pending := [InsertToken (demo_row\<lparr>at_id := 0\<rparr>)]\<rparr>"
  have "token_step no_tokens ?w"
    using mints [of id "[42]" demo_db no_tokens "Superadmin None" 1 demo_body] demo_mint(1) by (simp add: no_tokens_def)
  moreover have "token_step ?w (demo_world demo_row 0)"
    using executes [of "InsertToken (demo_row\<lparr>at_id := 0\<rparr>)" ?w 7 "[demo_row]"] demo_mint(2)
    by (simp add: no_tokens_def demo_world_def del: exec_token.simps)
  ultimately show ?thesis by (simp add: token_run_def)
qed

definition demo_revoked :: api_token where
  "demo_revoked = demo_row\<lparr>at_revoked_at := Some 0\<rparr>"

lemma demo_revocation: "token_run (demo_world demo_row 0) (demo_world demo_revoked 0)"
proof -
  let ?w = "(demo_world demo_row 0)\<lparr>tw_pending := [RevokeToken 7]\<rparr>"
  have "revoke_token demo_db [demo_row] (Superadmin None) 7 = Inr (RevokeToken 7)" by code_simp
  then have "token_step (demo_world demo_row 0) ?w"
    using revokes [of demo_db "demo_world demo_row 0" "Superadmin None" 7] by (simp add: demo_world_def)
  moreover have "exec_token [demo_row] 0 0 (RevokeToken 7) = Inr ([demo_revoked], Some demo_revoked)" by code_simp
  then have "token_step ?w (demo_world demo_revoked 0)"
    using executes [of "RevokeToken 7" ?w 0 "[demo_revoked]"] by (simp add: demo_world_def del: exec_token.simps)
  ultimately show ?thesis by (simp add: token_run_def)
qed

theorem revocation_final_witness:
  "\<exists>w. token_run no_tokens w \<and> demo_revoked \<in> set (tw_rows w) \<and>
     resolve_id demo_db (tw_rows w) (tw_now w) 7 = Inr None"
proof -
  have run: "token_run no_tokens (demo_world demo_revoked 0)"
    using demo_minted demo_revocation by (auto simp: token_run_def)
  have "token_run (demo_world demo_revoked 0) (demo_world demo_revoked 0)" by (simp add: token_run_def)
  from revocation_final [OF run, of demo_revoked, OF _ _ this, of _ _ demo_db] run show ?thesis
    by (auto simp: demo_world_def demo_revoked_def demo_row_def)
qed

theorem token_lifetime_witness:
  "\<exists>held. principal_from_request id (Some ''root'') (Some (with_tokens demo_db [demo_row] 0)) (Some ''rolter_api_2a'') = Inr (Token held) \<and>
     0 < at_created_at (tp_token held) + 730 * day"
proof -
  obtain held where h: "token_authority demo_db demo_row = Inr held" "tp_token held = demo_row"
    by (simp add: token_authority_def demo_row_def)
  have p: "principal_from_request id (Some ''root'') (Some (with_tokens demo_db [demo_row] 0)) (Some ''rolter_api_2a'') = Inr (Token held)"
    using minted_request h(1) by simp
  then show ?thesis
    using token_lifetime [OF demo_minted, of id "Some ''root''" demo_db "Some ''rolter_api_2a''" held] h(2)
    by (simp add: demo_world_def demo_row_def)
qed


theorem rotation_replaces_witness:
  "\<exists>rows' t. exec_token [demo_row] 5 0 (RotateToken 7 ''new'' ''n'') = Inr (rows', Some t) \<and> at_token_hash t = ''new'' \<and>
     find_active_by_hash rows' 6 ''rolter_api_2a'' = None"
proof -
  let ?t = "demo_row\<lparr>at_token_hash := ''new'', at_token_prefix := ''n'', at_rotated_at := Some 5\<rparr>"
  have run: "exec_token [demo_row] 5 0 (RotateToken (at_id demo_row) ''new'' ''n'') = Inr ([?t], Some ?t)" by code_simp
  have "find_active_by_hash [?t] 6 (at_token_hash demo_row) = None"
    using rotation_replaces [OF _ _ _ run, of 6] by (simp add: ids_distinct_def demo_row_def)
  with run show ?thesis by (auto simp: demo_row_def)
qed


text \<open>
  The capability alone does not make the minter an admin: an account whose one grant is a
  viewer's custom role with the pair \<open>api_token:create\<close> mints an admin token of the organisation, which then
  creates providers that the account itself may not create.
\<close>

definition weak_db :: rbac_db where
  "weak_db = demo_db\<lparr>rd_memberships := \<lambda>_. Inr [],
     rd_grants := \<lambda>_. Inr [\<lparr>eg_profile = 1, eg_role = 2, eg_role_slug = ''minter'', eg_base_role = ''viewer'', eg_org = Some 1,
       eg_team = None, eg_project = None, eg_resource = Some ''api_token'', eg_action = Some ''create''\<rparr>]\<rparr>"

definition provider_create :: requirement where
  "provider_create = \<lparr>rq_resource = ''provider'', rq_action = Create, rq_authority = NeedsRole Admin\<rparr>"

lemma token_exceeds_minter:
  "requirement_for ''provider'' Create = Some provider_create"
  "create_token id [42] weak_db 0 (User (demo_account 12 None)) 1 demo_body =
     Inr (''rolter_api_2a'', InsertToken (demo_row\<lparr>at_id := 0, at_created_by := Some 12\<rparr>))"
  "authorize weak_db (User (demo_account 12 None)) (chain_org 1) provider_create = Inl Forbidden"
  "\<exists>held. token_authority weak_db (demo_row\<lparr>at_created_by := Some 12\<rparr>) = Inr held \<and>
     authorize weak_db (Token held) (chain_org 1) provider_create = Inr ()"
proof -
  show "requirement_for ''provider'' Create = Some provider_create"
    "create_token id [42] weak_db 0 (User (demo_account 12 None)) 1 demo_body =
       Inr (''rolter_api_2a'', InsertToken (demo_row\<lparr>at_id := 0, at_created_by := Some 12\<rparr>))"
    "authorize weak_db (User (demo_account 12 None)) (chain_org 1) provider_create = Inl Forbidden" by code_simp+
  let ?held = "\<lparr>tp_token = demo_row\<lparr>at_created_by := Some 12\<rparr>,
    tp_memberships = [\<lparr>mb_org = Some 1, mb_team = None, mb_project = None, mb_role = ''admin''\<rparr>], tp_grants = []\<rparr>"
  have "token_authority weak_db (demo_row\<lparr>at_created_by := Some 12\<rparr>) = Inr ?held"
    "authorize weak_db (Token ?held) (chain_org 1) provider_create = Inr ()" by code_simp+
  then show "\<exists>held. token_authority weak_db (demo_row\<lparr>at_created_by := Some 12\<rparr>) = Inr held \<and>
     authorize weak_db (Token held) (chain_org 1) provider_create = Inr ()" by blast
qed

end
