(* ===== verification/Caps.thy ===== *)
theory Caps
  imports Access Secret_Env
begin

text \<open>
  The caps a request counts against: the scopes of a key (\<open>rolter-gateway/src/budgets.rs\<close>), budgets and rate limits as
  \<open>rolter-core/src/config.rs\<close> has them, and how the store loads them. Amounts of money are exact
  rationals (\<open>Decimal\<close>). The labels of a day and of a month, which the date library prints, are functions of the
  instant; parsing a decimal is an argument too.
\<close>

section \<open>Scopes\<close>

datatype budget_scope = OrgScope | TeamScope | ProjectScope | KeyScope | BusinessUnitScope | CustomerScope | UserScope | UnknownScope

datatype scope_within = WithinOrg string | WithinProject string

fun key_segment :: "scope_within \<Rightarrow> string" where
  "key_segment (WithinOrg i) = ''org:'' @ i"
| "key_segment (WithinProject i) = ''project:'' @ i"

fun within_contains :: "scope_within \<Rightarrow> string \<Rightarrow> string \<Rightarrow> bool" where
  "within_contains (WithinOrg i) og project = (og \<noteq> [] \<and> i = og)"
| "within_contains (WithinProject i) og project = (project \<noteq> [] \<and> i = project)"

fun key_label :: "budget_scope \<Rightarrow> string" where
  "key_label OrgScope = ''org''"
| "key_label TeamScope = ''team''"
| "key_label ProjectScope = ''project''"
| "key_label KeyScope = ''key''"
| "key_label BusinessUnitScope = ''business_unit''"
| "key_label CustomerScope = ''customer''"
| "key_label UserScope = ''user''"
| "key_label UnknownScope = ''unknown''"

definition from_scope_type :: "string \<Rightarrow> budget_scope option" where
  "from_scope_type s =
     (if s = ''org'' then Some OrgScope else if s = ''team'' then Some TeamScope
      else if s = ''project'' then Some ProjectScope else if s = ''virtual_key'' then Some KeyScope
      else if s = ''business_unit'' then Some BusinessUnitScope else if s = ''customer'' then Some CustomerScope
      else if s = ''user'' then Some UserScope else None)"

definition scope_ids_default :: scope_ids where
  "scope_ids_default = request_scope None"

fun id_for :: "scope_ids \<Rightarrow> budget_scope \<Rightarrow> string" where
  "id_for s OrgScope = si_org s"
| "id_for s TeamScope = si_team s"
| "id_for s ProjectScope = si_project s"
| "id_for s KeyScope = si_key s"
| "id_for s BusinessUnitScope = si_business_unit s"
| "id_for s CustomerScope = si_customer s"
| "id_for s UserScope = si_user s"
| "id_for s UnknownScope = []"

definition scope_matches :: "scope_ids \<Rightarrow> budget_scope \<Rightarrow> string \<Rightarrow> scope_within option \<Rightarrow> bool" where
  "scope_matches s scope i narrowed =
     (let inside = (case narrowed of None \<Rightarrow> True | Some place \<Rightarrow> within_contains place (si_org s) (si_project s))
      in if scope = UnknownScope then inside
         else let mine = id_for s scope in mine \<noteq> [] \<and> mine = i \<and> inside)"

section \<open>Budgets\<close>

datatype budget_period = Monthly | Daily | TotalPeriod | UnknownPeriod

definition SPELLINGS :: "(string \<times> budget_period) list" where
  "SPELLINGS = [(''daily'', Daily), (''1d'', Daily), (''24h'', Daily), (''monthly'', Monthly), (''30d'', Monthly),
     (''total'', TotalPeriod), (''lifetime'', TotalPeriod), (''all'', TotalPeriod)]"

definition period_parse :: "string \<Rightarrow> budget_period option" where
  "period_parse v = map_option snd (find (\<lambda>(spelling, _). eq_ignore_ascii_case spelling (trim v)) SPELLINGS)"

record 't calendar =
  ca_day :: "'t \<Rightarrow> string"
  ca_month :: "'t \<Rightarrow> string"

fun period_bucket :: "'t calendar \<Rightarrow> budget_period \<Rightarrow> 't \<Rightarrow> string" where
  "period_bucket cal Daily now = ca_day cal now"
| "period_bucket cal Monthly now = ca_month cal now"
| "period_bucket cal TotalPeriod now = ''all''"
| "period_bucket cal UnknownPeriod now = ''unknown''"

fun ttl_secs :: "budget_period \<Rightarrow> nat option" where
  "ttl_secs Daily = Some (2 * 24 * 3600)"
| "ttl_secs Monthly = Some (40 * 24 * 3600)"
| "ttl_secs TotalPeriod = None"
| "ttl_secs UnknownPeriod = None"

datatype unpriced_policy = IgnoreUnpriced | WarnUnpriced | BlockUnpriced | UnknownUnpriced

record budget_config =
  bc_scope :: budget_scope
  bc_id :: string
  bc_limit_usd :: rat
  bc_period :: budget_period
  bc_unpriced_policy :: "unpriced_policy option"
  bc_within :: "scope_within option"

definition spend_key :: "'t calendar \<Rightarrow> budget_config \<Rightarrow> 't \<Rightarrow> string" where
  "spend_key cal b now =
     (case bc_within b of
        None \<Rightarrow> ''rolter:budget:'' @ key_label (bc_scope b) @ '':'' @ bc_id b @ '':'' @ period_bucket cal (bc_period b) now
      | Some place \<Rightarrow> ''rolter:budget:'' @ key_label (bc_scope b) @ '':'' @ bc_id b @ '':'' @ key_segment place @ '':'' @
                       period_bucket cal (bc_period b) now)"

definition applicable :: "scope_ids \<Rightarrow> budget_config list \<Rightarrow> budget_config list" where
  "applicable s budgets = filter (\<lambda>b. scope_matches s (bc_scope b) (bc_id b) (bc_within b)) budgets"

section \<open>Rate limits\<close>

record rate_limit_config =
  rl_scope :: budget_scope
  rl_id :: string
  rl_rpm :: "nat option"
  rl_tpm :: "nat option"
  rl_within :: "scope_within option"

definition applicable_limits :: "scope_ids \<Rightarrow> rate_limit_config list \<Rightarrow> rate_limit_config list" where
  "applicable_limits s limits = filter (\<lambda>l. scope_matches s (rl_scope l) (rl_id l) (rl_within l)) limits"

section \<open>Loading them\<close>

record budget_row =
  wb_scope_type :: string
  wb_scope_id :: string
  wb_limit_usd :: string
  wb_period :: string
  wb_unpriced_policy :: "string option"
  wb_within_org_id :: "string option"
  wb_within_project_id :: "string option"

record rate_limit_row =
  wr_scope_type :: string
  wr_scope_id :: string
  wr_rpm :: "int option"
  wr_tpm :: "int option"
  wr_within_org_id :: "string option"
  wr_within_project_id :: "string option"

definition loaded_scope :: "string \<Rightarrow> budget_scope" where
  "loaded_scope s =
     (if s = ''org'' then OrgScope else if s = ''team'' then TeamScope else if s = ''project'' then ProjectScope
      else if s = ''virtual_key'' then KeyScope else if s = ''business_unit'' then BusinessUnitScope
      else if s = ''customer'' then CustomerScope else if s = ''user'' then UserScope else UnknownScope)"

definition scope_within_of :: "string option \<Rightarrow> string option \<Rightarrow> scope_within option" where
  "scope_within_of og project =
     (case (og, project) of
        (Some i, None) \<Rightarrow> Some (WithinOrg i)
      | (None, Some p) \<Rightarrow> Some (WithinProject p)
      | _ \<Rightarrow> None)"

definition parse_period :: "string \<Rightarrow> budget_period" where
  "parse_period p = (case period_parse p of Some q \<Rightarrow> q | None \<Rightarrow> Monthly)"

definition parse_unpriced_policy :: "string \<Rightarrow> unpriced_policy option" where
  "parse_unpriced_policy v =
     (let w = to_ascii_lowercase (trim v)
      in if w = ''ignore'' then Some IgnoreUnpriced else if w = ''warn'' then Some WarnUnpriced
         else if w = ''block'' then Some BlockUnpriced else None)"

text \<open>\<open>parse_decimal\<close> and the largest decimal are the decimal library's.\<close>

definition load_budgets :: "(string \<Rightarrow> rat option) \<Rightarrow> rat \<Rightarrow> budget_row list \<Rightarrow> budget_config list" where
  "load_budgets parse_decimal decimal_max rows =
     map (\<lambda>r. \<lparr>bc_scope = loaded_scope (wb_scope_type r), bc_id = wb_scope_id r,
               bc_limit_usd = (case parse_decimal (wb_limit_usd r) of Some l \<Rightarrow> l | None \<Rightarrow> decimal_max),
               bc_period = parse_period (wb_period r),
               bc_unpriced_policy = Option.bind (wb_unpriced_policy r) parse_unpriced_policy,
               bc_within = scope_within_of (wb_within_org_id r) (wb_within_project_id r)\<rparr>) rows"

definition positive_cap :: "int option \<Rightarrow> nat option" where
  "positive_cap v = (case v of Some c \<Rightarrow> if 0 < c then Some (nat c) else None | None \<Rightarrow> None)"

definition load_rate_limits :: "rate_limit_row list \<Rightarrow> rate_limit_config list" where
  "load_rate_limits rows =
     map (\<lambda>r. \<lparr>rl_scope = loaded_scope (wr_scope_type r), rl_id = wr_scope_id r,
               rl_rpm = positive_cap (wr_rpm r), rl_tpm = positive_cap (wr_tpm r),
               rl_within = scope_within_of (wr_within_org_id r) (wr_within_project_id r)\<rparr>) rows"

end
