(* ===== verification/Redis_Counters.thy ===== *)
theory Redis_Counters
  imports Prelude
begin

text \<open>
  The part of Redis that the throughput limits rely on, as an interface: \<open>GET\<close>, \<open>INCRBY\<close> and \<open>EXPIRE\<close> on
  counters at a second of the server's clock. The laws are its documentation's: an increment adds to what the key
  holds, an expiry set with \<open>EXPIRE\<close> removes the key that many seconds later, and neither touches another key.
\<close>

record 'r redis_ops =
  ro_get :: "'r \<Rightarrow> nat \<Rightarrow> string \<Rightarrow> nat option"
  ro_incr :: "'r \<Rightarrow> nat \<Rightarrow> string \<Rightarrow> nat \<Rightarrow> 'r"
  ro_expire :: "'r \<Rightarrow> nat \<Rightarrow> string \<Rightarrow> nat \<Rightarrow> 'r"

definition counter_value :: "nat option \<Rightarrow> nat" where
  "counter_value v = (case v of Some n \<Rightarrow> n | None \<Rightarrow> 0)"

lemma counter_value_simps [simp]: "counter_value None = 0" "counter_value (Some n) = n"
  by (simp_all add: counter_value_def)

locale redis_counters =
  fixes ops :: "'r redis_ops"
  assumes incr_same: "ro_get ops (ro_incr ops r t k n) t k = Some (counter_value (ro_get ops r t k) + n)"
    and incr_other: "k' \<noteq> k \<Longrightarrow> ro_get ops (ro_incr ops r t k n) t' k' = ro_get ops r t' k'"
    and expire_same: "ro_get ops r t k = Some v \<Longrightarrow> t \<le> t' \<Longrightarrow>
      ro_get ops (ro_expire ops r t k s) t' k = (if t' < t + s then Some v else None)"
    and expire_other: "k' \<noteq> k \<Longrightarrow> ro_get ops (ro_expire ops r t k s) t' k' = ro_get ops r t' k'"
begin

text \<open>The two commands always come together.\<close>

lemma charge_same:
  "t \<le> t' \<Longrightarrow> ro_get ops (ro_expire ops (ro_incr ops r t k n) t k s) t' k =
     (if t' < t + s then Some (counter_value (ro_get ops r t k) + n) else None)"
  by (rule expire_same [OF incr_same])

lemma charge_other: "k' \<noteq> k \<Longrightarrow> ro_get ops (ro_expire ops (ro_incr ops r t k n) t k s) t' k' = ro_get ops r t' k'"
  by (simp add: incr_other expire_other)

end

section \<open>A store that obeys the laws\<close>

type_synonym counter_map = "(string, nat \<times> nat option) hash_map"

definition store_get :: "counter_map \<Rightarrow> nat \<Rightarrow> string \<Rightarrow> nat option" where
  "store_get m t k =
     (case hm_get m k of
        Some (v, None) \<Rightarrow> Some v
      | Some (v, Some d) \<Rightarrow> if t < d then Some v else None
      | None \<Rightarrow> None)"

definition store_incr :: "counter_map \<Rightarrow> nat \<Rightarrow> string \<Rightarrow> nat \<Rightarrow> counter_map" where
  "store_incr m t k n =
     hm_insert k (case store_get m t k of Some v \<Rightarrow> (v + n, case hm_get m k of Some (_, d) \<Rightarrow> d | None \<Rightarrow> None)
                  | None \<Rightarrow> (n, None)) m"

definition store_expire :: "counter_map \<Rightarrow> nat \<Rightarrow> string \<Rightarrow> nat \<Rightarrow> counter_map" where
  "store_expire m t k s = (case store_get m t k of Some v \<Rightarrow> hm_insert k (v, Some (t + s)) m | None \<Rightarrow> m)"

definition counter_store :: "counter_map redis_ops" where
  "counter_store = \<lparr>ro_get = store_get, ro_incr = store_incr, ro_expire = store_expire\<rparr>"

interpretation counter_store: redis_counters counter_store
proof (unfold_locales, goal_cases)
  case (1 r t k n)
  show ?case by (auto simp: counter_store_def store_incr_def store_get_def split: option.splits)
next
  case (2 k' k r t n t')
  then show ?case by (simp add: counter_store_def store_incr_def store_get_def)
next
  case (3 r t k v t' s)
  then show ?case by (simp add: counter_store_def store_expire_def store_get_def)
next
  case (4 k' k r t s t')
  then show ?case by (simp add: counter_store_def store_expire_def store_get_def split: option.split)
qed

end
