(* ===== verification/Rate_Limits.thy ===== *)
theory Rate_Limits
  imports Caps Redis_Counters Balancer Route_Limits Ieee_Float
begin

text \<open>
  Requests and tokens per minute (\<open>rolter-gateway/src/rate_limits.rs\<close>, the throughput stages of \<open>handlers.rs\<close>): the
  admission script as Redis runs it on its keys and arguments, the calls around it, and what is recorded
  after a response. A call ends in one of the ways of \<open>link\<close>; seconds are those of one clock, which the gateways and
  Redis share. The numbers of the script are \<open>f64\<close>.
\<close>

section \<open>Keys\<close>

definition WINDOW_SECS :: nat where "WINDOW_SECS = 60"
definition BUCKET_TTL_SECS :: nat where "BUCKET_TTL_SECS = WINDOW_SECS * 2"

definition show_int :: "int \<Rightarrow> string" where
  "show_int i = (if i < 0 then ''-'' @ show_nat (nat (- i)) else show_nat (nat i))"

definition prefixed_bucket_key :: "string \<Rightarrow> string \<Rightarrow> int \<Rightarrow> string" where
  "prefixed_bucket_key pre kind bucket = pre @ '':'' @ kind @ '':'' @ show_int bucket"

definition limit_prefix :: "rate_limit_config \<Rightarrow> string" where
  "limit_prefix l =
     (case rl_within l of
        None \<Rightarrow> ''rolter:rl:'' @ key_label (rl_scope l) @ '':'' @ rl_id l
      | Some place \<Rightarrow> ''rolter:rl:'' @ key_label (rl_scope l) @ '':'' @ rl_id l @ '':'' @ key_segment place)"

definition bucket_key :: "rate_limit_config \<Rightarrow> string \<Rightarrow> int \<Rightarrow> string" where
  "bucket_key l kind bucket = prefixed_bucket_key (limit_prefix l) kind bucket"

record route_window =
  rw_prefix :: string
  rw_rpm :: "nat option"
  rw_tpm :: "nat option"

definition route_window_new :: "string \<Rightarrow> string \<Rightarrow> nat option \<Rightarrow> nat option \<Rightarrow> route_window option" where
  "route_window_new og route rpm tpm =
     (if rpm = None \<and> tpm = None then None
      else Some \<lparr>rw_prefix = ''rolter:rl:route:'' @ og @ '':'' @ route, rw_rpm = rpm, rw_tpm = tpm\<rparr>)"

record counter =
  co_prefix :: string
  co_rpm :: "nat option"
  co_tpm :: "nat option"

definition bucket_of :: "nat \<Rightarrow> int" where
  "bucket_of now = int (now div WINDOW_SECS)"

definition previous_bucket_weight :: "nat \<Rightarrow> rat" where
  "previous_bucket_weight now = f64 (f64 (of_nat WINDOW_SECS - of_nat (now mod WINDOW_SECS)) / of_nat WINDOW_SECS)"

definition window_retry_after :: "nat \<Rightarrow> nat" where
  "window_retry_after now = WINDOW_SECS - now mod WINDOW_SECS"

section \<open>The admission script\<close>

definition windowed :: "'r redis_ops \<Rightarrow> 'r \<Rightarrow> nat \<Rightarrow> rat \<Rightarrow> string \<Rightarrow> string \<Rightarrow> rat" where
  "windowed ops r t weight current previous =
     (let now = f64 (of_nat (counter_value (ro_get ops r t current)));
          before = f64 (of_nat (counter_value (ro_get ops r t previous)))
      in f64 (now + f64 (before * weight)))"

text \<open>Lua counts from one: \<open>ARGV[n]\<close> is \<open>argv ! (n - 1)\<close>.\<close>

fun script_check ::
  "'r redis_ops \<Rightarrow> 'r \<Rightarrow> nat \<Rightarrow> string list \<Rightarrow> rat list \<Rightarrow> nat \<Rightarrow> nat \<Rightarrow> (nat \<times> nat) option"
where
  "script_check ops r t keys argv i 0 = None"
| "script_check ops r t keys argv i (Suc left) =
     (let weight = argv ! 0;
          rpm = argv ! (2 * i);
          tpm = argv ! (1 + 2 * i);
          k = (i - 1) * 4
      in if 0 \<le> rpm \<and> rpm < f64 (windowed ops r t weight (keys ! k) (keys ! (k + 1)) + 1) then Some (i, 1)
         else if 0 \<le> tpm \<and> tpm \<le> windowed ops r t weight (keys ! (k + 2)) (keys ! (k + 3)) then Some (i, 2)
         else script_check ops r t keys argv (i + 1) left)"

fun script_charge ::
  "'r redis_ops \<Rightarrow> 'r \<Rightarrow> nat \<Rightarrow> string list \<Rightarrow> rat list \<Rightarrow> nat \<Rightarrow> nat \<Rightarrow> 'r"
where
  "script_charge ops r t keys argv i 0 = r"
| "script_charge ops r t keys argv i (Suc left) =
     (let ttl = nat \<lfloor>argv ! 1\<rfloor>
      in script_charge ops
           (if 0 \<le> argv ! (2 * i)
            then let key = keys ! ((i - 1) * 4) in ro_expire ops (ro_incr ops r t key 1) t key ttl
            else r) t keys argv (i + 1) left)"

definition ADMIT :: "'r redis_ops \<Rightarrow> 'r \<Rightarrow> nat \<Rightarrow> string list \<Rightarrow> rat list \<Rightarrow> 'r \<times> nat \<times> nat" where
  "ADMIT ops r t keys argv =
     (let limits = (length argv - 2) div 2
      in case script_check ops r t keys argv 1 limits of
           Some verdict \<Rightarrow> (r, verdict)
         | None \<Rightarrow> (script_charge ops r t keys argv 1 limits, 0, 0))"

section \<open>The limiter\<close>

text \<open>
  How a call to Redis ends: there is no connection; an error, after the script ran that many times; or a reply, after
  that many runs whose reply was lost (the admission is replayed on a fresh connection). A limiter without Redis is \<open>None\<close>.
\<close>

datatype link = NoConnection | Errored nat | Replied nat

definition cap_arg :: "nat option \<Rightarrow> rat" where
  "cap_arg c = (case c of Some n \<Rightarrow> of_nat n | None \<Rightarrow> - 1)"

definition invocation_keys :: "counter list \<Rightarrow> nat \<Rightarrow> string list" where
  "invocation_keys counters now =
     concat (map (\<lambda>c. [prefixed_bucket_key (co_prefix c) ''req'' (bucket_of now),
                       prefixed_bucket_key (co_prefix c) ''req'' (bucket_of now - 1),
                       prefixed_bucket_key (co_prefix c) ''tok'' (bucket_of now),
                       prefixed_bucket_key (co_prefix c) ''tok'' (bucket_of now - 1)]) counters)"

definition invocation_args :: "counter list \<Rightarrow> nat \<Rightarrow> rat list" where
  "invocation_args counters now =
     [previous_bucket_weight now, of_nat BUCKET_TTL_SECS] @ concat (map (\<lambda>c. [cap_arg (co_rpm c), cap_arg (co_tpm c)]) counters)"

definition run_admit :: "'r redis_ops \<Rightarrow> counter list \<Rightarrow> nat \<Rightarrow> 'r \<Rightarrow> 'r \<times> nat \<times> nat" where
  "run_admit ops counters now r = ADMIT ops r now (invocation_keys counters now) (invocation_args counters now)"

definition admit :: "'r redis_ops \<Rightarrow> link \<Rightarrow> 'r option \<Rightarrow> counter list \<Rightarrow> nat \<Rightarrow> 'r option \<times> (nat \<times> nat) option" where
  "admit ops l limiter counters now =
     (case limiter of
        None \<Rightarrow> (None, None)
      | Some r \<Rightarrow>
          let again = (\<lambda>n. ((\<lambda>r. fst (run_admit ops counters now r)) ^^ n) r)
          in case l of
               NoConnection \<Rightarrow> (Some r, None)
             | Errored n \<Rightarrow> (Some (again n), None)
             | Replied n \<Rightarrow>
                 let (r', index, kind) = run_admit ops counters now (again n)
                 in (Some r', if index = 0 then None else Some (index - 1, kind)))"

record rate_limit_hit =
  rh_scope :: budget_scope
  rh_id :: string
  rh_kind :: string
  rh_limit :: nat
  rh_retry_after :: nat

definition counter_of :: "rate_limit_config \<Rightarrow> counter" where
  "counter_of l = \<lparr>co_prefix = limit_prefix l, co_rpm = rl_rpm l, co_tpm = rl_tpm l\<rparr>"

definition kind_of :: "nat \<Rightarrow> nat option \<Rightarrow> nat option \<Rightarrow> (string \<times> nat) option" where
  "kind_of kind rpm tpm =
     (if kind = 1 then map_option (Pair ''rpm'') rpm
      else if kind = 2 then map_option (Pair ''tpm'') tpm else None)"

definition check_at ::
  "'r redis_ops \<Rightarrow> link \<Rightarrow> 'r option \<Rightarrow> rate_limit_config list \<Rightarrow> scope_ids \<Rightarrow> nat \<Rightarrow> 'r option \<times> rate_limit_hit option"
where
  "check_at ops l limiter limits scope now =
     (let found = applicable_limits scope limits
      in if limiter = None \<or> found = [] then (limiter, None)
         else
           let (limiter', verdict) = admit ops l limiter (map counter_of found) now
           in (limiter',
               Option.bind verdict (\<lambda>(index, kind).
               Option.bind (vec_get found index) (\<lambda>limit.
               map_option (\<lambda>(kind, cap).
                 \<lparr>rh_scope = rl_scope limit, rh_id = rl_id limit, rh_kind = kind, rh_limit = cap,
                  rh_retry_after = window_retry_after now\<rparr>) (kind_of kind (rl_rpm limit) (rl_tpm limit))))))"

record route_limit_hit =
  oh_kind :: string
  oh_limit :: nat
  oh_retry_after :: nat

definition route_counter :: "route_window \<Rightarrow> counter" where
  "route_counter w = \<lparr>co_prefix = rw_prefix w, co_rpm = rw_rpm w, co_tpm = rw_tpm w\<rparr>"

definition check_route_at ::
  "'r redis_ops \<Rightarrow> link \<Rightarrow> 'r option \<Rightarrow> route_window \<Rightarrow> nat \<Rightarrow> 'r option \<times> route_limit_hit option"
where
  "check_route_at ops l limiter w now =
     (let (limiter', verdict) = admit ops l limiter [route_counter w] now
      in (limiter',
          Option.bind verdict (\<lambda>(_, kind).
          map_option (\<lambda>(kind, cap). \<lparr>oh_kind = kind, oh_limit = cap, oh_retry_after = window_retry_after now\<rparr>)
            (kind_of kind (rw_rpm w) (rw_tpm w)))))"

section \<open>Recording tokens\<close>

text \<open>A pipeline of increments is never replayed: it ran, or not.\<close>

definition pipe_ran :: "link \<Rightarrow> bool" where
  "pipe_ran l = (case l of NoConnection \<Rightarrow> False | Errored n \<Rightarrow> 0 < n | Replied _ \<Rightarrow> True)"

fun add_tokens :: "'r redis_ops \<Rightarrow> 'r \<Rightarrow> nat \<Rightarrow> string list \<Rightarrow> nat \<Rightarrow> 'r" where
  "add_tokens ops r t [] tokens = r"
| "add_tokens ops r t (key # keys) tokens =
     add_tokens ops (ro_expire ops (ro_incr ops r t key tokens) t key BUCKET_TTL_SECS) t keys tokens"

definition record_route_tokens :: "'r redis_ops \<Rightarrow> link \<Rightarrow> 'r option \<Rightarrow> route_window \<Rightarrow> nat \<Rightarrow> nat \<Rightarrow> 'r option" where
  "record_route_tokens ops l limiter w tokens now =
     (if tokens = 0 \<or> rw_tpm w = None \<or> \<not> pipe_ran l then limiter
      else map_option (\<lambda>r. add_tokens ops r now [prefixed_bucket_key (rw_prefix w) ''tok'' (bucket_of now)] tokens) limiter)"

definition record_tokens ::
  "'r redis_ops \<Rightarrow> link \<Rightarrow> 'r option \<Rightarrow> rate_limit_config list \<Rightarrow> scope_ids \<Rightarrow> nat \<Rightarrow> nat \<Rightarrow> 'r option"
where
  "record_tokens ops l limiter limits scope tokens now =
     (if tokens = 0 \<or> \<not> pipe_ran l then limiter
      else map_option (\<lambda>r. add_tokens ops r now
             (map (\<lambda>limit. bucket_key limit ''tok'' (bucket_of now))
                (filter (\<lambda>limit. rl_tpm limit \<noteq> None) (applicable_limits scope limits))) tokens) limiter)"

definition token_recorder_record ::
  "'r redis_ops \<Rightarrow> link \<Rightarrow> link \<Rightarrow> 'r option \<Rightarrow> rate_limit_config list \<Rightarrow> scope_ids \<Rightarrow> route_window option \<Rightarrow> nat \<Rightarrow> nat \<Rightarrow> 'r option"
where
  "token_recorder_record ops l l' limiter limits scope route tokens now =
     (let limiter' = record_tokens ops l limiter limits scope tokens now
      in case route of None \<Rightarrow> limiter' | Some w \<Rightarrow> record_route_tokens ops l' limiter' w tokens now)"

section \<open>The stages of a request\<close>

record refusal =
  rf_status :: nat
  rf_message :: string
  rf_code :: string
  rf_retry_after :: "nat option"

definition quoted :: "string \<Rightarrow> string" where
  "quoted s = [CHR 0x27] @ s @ [CHR 0x27]"

fun scope_debug :: "budget_scope \<Rightarrow> string" where
  "scope_debug OrgScope = ''Org''"
| "scope_debug TeamScope = ''Team''"
| "scope_debug ProjectScope = ''Project''"
| "scope_debug KeyScope = ''Key''"
| "scope_debug BusinessUnitScope = ''BusinessUnit''"
| "scope_debug CustomerScope = ''Customer''"
| "scope_debug UserScope = ''User''"
| "scope_debug UnknownScope = ''Unknown''"

definition rate_limit_refusal ::
  "'r redis_ops \<Rightarrow> link \<Rightarrow> 'r option \<Rightarrow> rate_limit_config list \<Rightarrow> scope_ids \<Rightarrow> nat \<Rightarrow> 'r option \<times> refusal option"
where
  "rate_limit_refusal ops l limiter limits scope now =
     (let (limiter', hit) = check_at ops l limiter limits scope now
      in (limiter',
          map_option (\<lambda>h. \<lparr>rf_status = 429,
            rf_message = rh_kind h @ '' rate limit exceeded for '' @ scope_debug (rh_scope h) @ '' '' @ quoted (rh_id h) @
              '' (limit '' @ show_nat (rh_limit h) @ ''/min)'',
            rf_code = ''rate_limit_exceeded'', rf_retry_after = Some (rh_retry_after h)\<rparr>) hit))"

definition route_limit_response :: "string \<Rightarrow> nat \<Rightarrow> refusal" where
  "route_limit_response message after =
     \<lparr>rf_status = 429, rf_message = message, rf_code = ''rate_limit_exceeded'', rf_retry_after = Some after\<rparr>"

text \<open>The permit of a request that the throughput caps then refuse is dropped with it.\<close>

definition route_limit_refusal ::
  "'r redis_ops \<Rightarrow> link \<Rightarrow> 'r option \<Rightarrow> route_concurrency \<Rightarrow> string \<Rightarrow> string \<Rightarrow> nat option \<Rightarrow> route_window option \<Rightarrow> nat \<Rightarrow>
   'r option \<times> route_concurrency \<times> (refusal + route_key option)"
where
  "route_limit_refusal ops l limiter held og route concurrency throughput now =
     (if concurrency = None \<and> throughput = None then (limiter, held, Inr None)
      else
        let (permit, held', full) =
              (case concurrency of
                 None \<Rightarrow> (None, held, None)
               | Some cap \<Rightarrow>
                   let (permit, held') = try_acquire held og route cap
                   in (permit, held', if permit = None then Some cap else None))
        in case full of
             Some cap \<Rightarrow>
               (limiter, held', Inl (route_limit_response
                 (''route '' @ quoted route @ '' is serving its limit of '' @ show_nat cap @ '' concurrent requests'') 1))
           | None \<Rightarrow>
               (case throughput of
                  None \<Rightarrow> (limiter, held', Inr permit)
                | Some w \<Rightarrow>
                    let (limiter', hit) = check_route_at ops l limiter w now
                    in case hit of
                         None \<Rightarrow> (limiter', held', Inr permit)
                       | Some h \<Rightarrow>
                           (limiter', (case permit of Some key \<Rightarrow> permit_drop key held' | None \<Rightarrow> held'),
                            Inl (route_limit_response
                              (oh_kind h @ '' rate limit exceeded for route '' @ quoted route @ '' (limit '' @ show_nat (oh_limit h) @ ''/min)'')
                              (oh_retry_after h)))))"

end
