(* ===== verification/Rate_Limits_Props.thy ===== *)
theory Rate_Limits_Props
  imports Rate_Limits
begin

text \<open>What the throughput limits enforce, over every order of requests and recordings of tokens.\<close>

section \<open>The script, cap by cap\<close>

definition req_key :: "string \<Rightarrow> int \<Rightarrow> string" where
  "req_key pre b = prefixed_bucket_key pre ''req'' b"

definition tok_key :: "string \<Rightarrow> int \<Rightarrow> string" where
  "tok_key pre b = prefixed_bucket_key pre ''tok'' b"

definition counter_refusal :: "'r redis_ops \<Rightarrow> 'r \<Rightarrow> nat \<Rightarrow> counter \<Rightarrow> nat option" where
  "counter_refusal ops r now c =
     (let weight = previous_bucket_weight now; b = bucket_of now
      in if (case co_rpm c of None \<Rightarrow> False
             | Some n \<Rightarrow> of_nat n < f64 (windowed ops r now weight (req_key (co_prefix c) b) (req_key (co_prefix c) (b - 1)) + 1))
         then Some 1
         else if (case co_tpm c of None \<Rightarrow> False
                  | Some n \<Rightarrow> of_nat n \<le> windowed ops r now weight (tok_key (co_prefix c) b) (tok_key (co_prefix c) (b - 1)))
         then Some 2 else None)"

fun first_refusal :: "'r redis_ops \<Rightarrow> 'r \<Rightarrow> nat \<Rightarrow> counter list \<Rightarrow> (nat \<times> nat) option" where
  "first_refusal ops r now [] = None"
| "first_refusal ops r now (c # cs) =
     (case counter_refusal ops r now c of
        Some k \<Rightarrow> Some (1, k)
      | None \<Rightarrow> map_option (\<lambda>(i, k). (Suc i, k)) (first_refusal ops r now cs))"

definition charge_key :: "'r redis_ops \<Rightarrow> nat \<Rightarrow> string \<Rightarrow> nat \<Rightarrow> 'r \<Rightarrow> 'r" where
  "charge_key ops t key n r = ro_expire ops (ro_incr ops r t key n) t key BUCKET_TTL_SECS"

definition rpm_keys :: "nat \<Rightarrow> counter list \<Rightarrow> string list" where
  "rpm_keys now cs = map (\<lambda>c. req_key (co_prefix c) (bucket_of now)) (filter (\<lambda>c. co_rpm c \<noteq> None) cs)"

lemma nth_blocks: "(\<And>c. length (f c) = n) \<Longrightarrow> i < length cs \<Longrightarrow> j < n \<Longrightarrow> concat (map f cs) ! (i * n + j) = f (cs ! i) ! j"
proof (induction cs arbitrary: i)
  case (Cons c cs)
  then show ?case by (cases i) (auto simp: nth_append add.assoc)
qed simp

lemma cap_arg_set [simp]: "0 \<le> cap_arg c \<longleftrightarrow> c \<noteq> None" "cap_arg (Some n) = of_nat n"
  by (auto simp: cap_arg_def split: option.splits)

lemma invocation_nth:
  assumes "i < length cs"
  shows "invocation_keys cs now ! (i * 4) = req_key (co_prefix (cs ! i)) (bucket_of now)"
    and "invocation_keys cs now ! (i * 4 + 1) = req_key (co_prefix (cs ! i)) (bucket_of now - 1)"
    and "invocation_keys cs now ! (i * 4 + 2) = tok_key (co_prefix (cs ! i)) (bucket_of now)"
    and "invocation_keys cs now ! (i * 4 + 3) = tok_key (co_prefix (cs ! i)) (bucket_of now - 1)"
    and "invocation_args cs now ! (2 + 2 * i) = cap_arg (co_rpm (cs ! i))"
    and "invocation_args cs now ! (3 + 2 * i) = cap_arg (co_tpm (cs ! i))"
proof -
  let ?f = "\<lambda>c. [prefixed_bucket_key (co_prefix c) ''req'' (bucket_of now), prefixed_bucket_key (co_prefix c) ''req'' (bucket_of now - 1),
     prefixed_bucket_key (co_prefix c) ''tok'' (bucket_of now), prefixed_bucket_key (co_prefix c) ''tok'' (bucket_of now - 1)]"
  let ?g = "\<lambda>c. [cap_arg (co_rpm c), cap_arg (co_tpm c)]"
  show "invocation_keys cs now ! (i * 4) = req_key (co_prefix (cs ! i)) (bucket_of now)"
    "invocation_keys cs now ! (i * 4 + 1) = req_key (co_prefix (cs ! i)) (bucket_of now - 1)"
    "invocation_keys cs now ! (i * 4 + 2) = tok_key (co_prefix (cs ! i)) (bucket_of now)"
    "invocation_keys cs now ! (i * 4 + 3) = tok_key (co_prefix (cs ! i)) (bucket_of now - 1)"
    using nth_blocks [of ?f 4 i cs 0] nth_blocks [of ?f 4 i cs 1] nth_blocks [of ?f 4 i cs 2] nth_blocks [of ?f 4 i cs 3] assms
    by (simp_all add: invocation_keys_def req_key_def tok_key_def numeral_3_eq_3 numeral_2_eq_2)
  show "invocation_args cs now ! (2 + 2 * i) = cap_arg (co_rpm (cs ! i))"
    "invocation_args cs now ! (3 + 2 * i) = cap_arg (co_tpm (cs ! i))"
    using nth_blocks [of ?g 2 i cs 0] nth_blocks [of ?g 2 i cs 1] assms
    by (simp_all add: invocation_args_def numeral_3_eq_3 numeral_2_eq_2 mult.commute)
qed

lemma invocation_lengths [simp]:
  "(length (invocation_args cs now) - 2) div 2 = length cs" "invocation_args cs now ! 0 = previous_bucket_weight now"
  "nat \<lfloor>invocation_args cs now ! 1\<rfloor> = BUCKET_TTL_SECS"
proof -
  have "length (concat (map (\<lambda>c. [cap_arg (co_rpm c), cap_arg (co_tpm c)]) cs)) = 2 * length cs" by (induction cs) auto
  then show "(length (invocation_args cs now) - 2) div 2 = length cs" by (simp add: invocation_args_def)
qed (simp_all add: invocation_args_def)

text \<open>One round of each loop, with the index counted from zero.\<close>

lemma script_check_round:
  "script_check ops r t keys argv (Suc i) (Suc left) =
     (if 0 \<le> argv ! (2 + 2 * i) \<and> argv ! (2 + 2 * i) < f64 (windowed ops r t (argv ! 0) (keys ! (i * 4)) (keys ! (i * 4 + 1)) + 1)
      then Some (Suc i, 1)
      else if 0 \<le> argv ! (3 + 2 * i) \<and> argv ! (3 + 2 * i) \<le> windowed ops r t (argv ! 0) (keys ! (i * 4 + 2)) (keys ! (i * 4 + 3))
      then Some (Suc i, 2)
      else script_check ops r t keys argv (Suc (Suc i)) left)"
  by (simp add: Let_def numeral_3_eq_3)

lemma script_charge_round:
  "script_charge ops r t keys argv (Suc i) (Suc left) =
     script_charge ops (if 0 \<le> argv ! (2 + 2 * i)
        then ro_expire ops (ro_incr ops r t (keys ! (i * 4)) 1) t (keys ! (i * 4)) (nat \<lfloor>argv ! 1\<rfloor>) else r) t keys argv (Suc (Suc i)) left"
  by (simp add: Let_def)

lemma script_check_eq:
  "script_check ops r now (invocation_keys (pre @ cs) now) (invocation_args (pre @ cs) now) (Suc (length pre)) (length cs) =
   map_option (\<lambda>(i, k). (length pre + i, k)) (first_refusal ops r now cs)"
proof (induction cs arbitrary: pre)
  case (Cons c cs)
  have at: "length pre < length (pre @ c # cs)" "(pre @ c # cs) ! length pre = c" by simp_all
  have rest: "script_check ops r now (invocation_keys (pre @ c # cs) now) (invocation_args (pre @ c # cs) now) (Suc (Suc (length pre))) (length cs) =
      map_option (\<lambda>(i, k). (length pre + Suc i, k)) (first_refusal ops r now cs)"
    using Cons.IH [of "pre @ [c]"] by simp
  show ?case
    unfolding list.size(4) add_Suc_right add_0_right script_check_round
      invocation_nth [OF at(1), unfolded at(2)] invocation_lengths rest first_refusal.simps
    by (auto simp: counter_refusal_def Let_def cap_arg_def option.map_comp o_def case_prod_unfold split: option.splits)
qed simp

lemma script_charge_eq:
  "script_charge ops r now (invocation_keys (pre @ cs) now) (invocation_args (pre @ cs) now) (Suc (length pre)) (length cs) =
   fold (\<lambda>key. charge_key ops now key 1) (rpm_keys now cs) r"
proof (induction cs arbitrary: pre r)
  case (Cons c cs)
  have at: "length pre < length (pre @ c # cs)" "(pre @ c # cs) ! length pre = c" by simp_all
  show ?case
    unfolding list.size(4) add_Suc_right add_0_right script_charge_round
      invocation_nth [OF at(1), unfolded at(2)] invocation_lengths
    using Cons.IH [where pre = "pre @ [c]"] by (simp add: rpm_keys_def charge_key_def)
qed (simp add: rpm_keys_def)

text \<open>The script refuses at the first cap that is full and charges nothing, or charges every request counter.\<close>

lemma run_admit_eq:
  "run_admit ops cs now r =
     (case first_refusal ops r now cs of
        Some verdict \<Rightarrow> (r, verdict)
      | None \<Rightarrow> (fold (\<lambda>key. charge_key ops now key 1) (rpm_keys now cs) r, 0, 0))"
  using script_check_eq [of ops r now "[]" cs] script_charge_eq [of ops r now "[]" cs]
  by (simp add: run_admit_def ADMIT_def Let_def option.map_ident case_prod_unfold split: option.splits)

lemma first_refusal_spec:
  "case first_refusal ops r now cs of
     None \<Rightarrow> \<forall>c\<in>set cs. counter_refusal ops r now c = None
   | Some (i, k) \<Rightarrow> 0 < i \<and> i \<le> length cs \<and> counter_refusal ops r now (cs ! (i - 1)) = Some k \<and>
       (\<forall>j < i - 1. counter_refusal ops r now (cs ! j) = None)"
proof (induction cs)
  case (Cons c cs)
  show ?case
  proof (cases "counter_refusal ops r now c")
    case None
    with Cons show ?thesis
      by (auto simp: nth_Cons split: option.splits nat.splits)
  qed simp
qed simp

section \<open>Counters over time\<close>

definition held_counter :: "'r redis_ops \<Rightarrow> 'r \<Rightarrow> nat \<Rightarrow> string \<Rightarrow> nat" where
  "held_counter ops r t k = counter_value (ro_get ops r t k)"

text \<open>From second \<open>t\<close> on and until \<open>until\<close>, the counter stands at \<open>n\<close> or more.\<close>

definition holds :: "'r redis_ops \<Rightarrow> 'r \<Rightarrow> nat \<Rightarrow> nat \<Rightarrow> string \<Rightarrow> nat \<Rightarrow> bool" where
  "holds ops r t until k n \<longleftrightarrow> (\<forall>t'. t \<le> t' \<and> t' < until \<longrightarrow> n \<le> held_counter ops r t' k)"

lemma holds_later: "holds ops r t until k n \<Longrightarrow> t \<le> t' \<Longrightarrow> holds ops r t' until k n"
  by (simp add: holds_def)

lemma holds_0 [simp]: "holds ops r t until k 0"
  by (simp add: holds_def)

context redis_counters
begin

lemma charge_held:
  "t \<le> t' \<Longrightarrow> t' < t + BUCKET_TTL_SECS \<Longrightarrow>
   held_counter ops (charge_key ops t key m r) t' k =
     (if k = key then held_counter ops r t k + m else held_counter ops r t' k)"
  using charge_same [of t t' r key m BUCKET_TTL_SECS] charge_other [of k key r t m BUCKET_TTL_SECS t']
  by (simp add: charge_key_def held_counter_def)

lemma holds_charge:
  assumes "holds ops r t until k n" "until \<le> t + BUCKET_TTL_SECS"
  shows "holds ops (charge_key ops t key m r) t until k (if key = k then n + m else n)"
  using assms charge_held [of t _ key m r k] by (fastforce simp: holds_def)

lemma holds_charges:
  assumes "holds ops r t until k n" "until \<le> t + BUCKET_TTL_SECS"
  shows "holds ops (fold (\<lambda>key. charge_key ops t key m) keys r) t until k (n + m * count_list keys k)"
  using assms
proof (induction keys arbitrary: r n)
  case (Cons key keys)
  have "holds ops (charge_key ops t key m r) t until k (if key = k then n + m else n)" by (rule holds_charge [OF Cons.prems])
  from Cons.IH [OF this Cons.prems(2)] show ?case by (auto simp: algebra_simps)
qed simp

lemma holds_run:
  assumes "holds ops r now until k n" "until \<le> now + BUCKET_TTL_SECS"
  shows "holds ops (fst (run_admit ops cs now r)) now until k n"
proof (cases "first_refusal ops r now cs")
  case None
  have "n \<le> n + 1 * count_list (rpm_keys now cs) k" by simp
  with holds_charges [OF assms, of 1 "rpm_keys now cs"] None show ?thesis
    by (auto simp: run_admit_eq holds_def intro: order_trans)
qed (use assms in \<open>simp add: run_admit_eq\<close>)

lemma holds_runs:
  assumes "holds ops r now until k n" "until \<le> now + BUCKET_TTL_SECS"
  shows "holds ops (((\<lambda>r. fst (run_admit ops cs now r)) ^^ i) r) now until k n"
proof (induction i)
  case (Suc i)
  then show ?case using holds_run [OF _ assms(2)] by simp
qed (use assms in simp)

lemma holds_tokens:
  "holds ops r t until k n \<Longrightarrow> until \<le> t + BUCKET_TTL_SECS \<Longrightarrow> holds ops (add_tokens ops r t keys m) t until k n"
proof (induction keys arbitrary: r)
  case (Cons key keys)
  have "holds ops (charge_key ops t key m r) t until k (if key = k then n + m else n)" by (rule holds_charge [OF Cons.prems])
  then have "holds ops (charge_key ops t key m r) t until k n" by (auto simp: holds_def split: if_splits)
  from Cons.IH [OF this Cons.prems(2)] show ?case by (simp add: charge_key_def)
qed simp

end

text \<open>A request that a cap lets through found its counter below the cap, rounding or not.\<close>

lemma passed_below:
  assumes "counter_refusal ops r now c = None" "co_rpm c = Some cap" "cap \<le> u32_max"
  shows "held_counter ops r now (req_key (co_prefix c) (bucket_of now)) < cap"
proof (rule ccontr)
  let ?v = "held_counter ops r now (req_key (co_prefix c) (bucket_of now))"
  let ?p = "held_counter ops r now (req_key (co_prefix c) (bucket_of now - 1))"
  let ?w = "previous_bucket_weight now"
  assume "\<not> ?v < cap"
  have exact: "f64 (of_nat cap) = of_nat cap" "f64 (of_nat (cap + 1)) = of_nat (cap + 1)"
    by (rule f64.rnd_of_nat, use assms(3) in \<open>simp add: u32_max_def\<close>)+
  have "now mod WINDOW_SECS \<le> WINDOW_SECS" by (simp add: WINDOW_SECS_def)
  then have "0 \<le> ?w" unfolding previous_bucket_weight_def
    by (intro f64.rnd_nonneg divide_nonneg_nonneg) (simp_all add: WINDOW_SECS_def)
  then have old: "0 \<le> f64 (f64 (of_nat ?p) * ?w)" by (intro f64.rnd_nonneg mult_nonneg_nonneg) simp_all
  have "of_nat cap \<le> f64 (of_nat ?v)" using \<open>\<not> ?v < cap\<close> exact(1) f64.rnd_mono [of "of_nat cap" "of_nat ?v"] by simp
  with old have "of_nat cap \<le> f64 (f64 (of_nat ?v) + f64 (f64 (of_nat ?p) * ?w))"
    using f64.rnd_mono [of "of_nat cap" "f64 (of_nat ?v) + f64 (f64 (of_nat ?p) * ?w)"] exact(1) by simp
  then have "of_nat cap < f64 (f64 (f64 (of_nat ?v) + f64 (f64 (of_nat ?p) * ?w)) + 1)"
    using f64.rnd_mono [of "of_nat (cap + 1)" "f64 (f64 (of_nat ?v) + f64 (f64 (of_nat ?p) * ?w)) + 1"] exact(2) by simp
  with assms(1,2) show False
    by (simp add: counter_refusal_def windowed_def held_counter_def Let_def split: if_splits)
qed

section \<open>Traffic\<close>

datatype limiter_event =
    CheckEvent link "rate_limit_config list" scope_ids nat
  | RouteEvent link route_window nat
  | TokensEvent link link "rate_limit_config list" scope_ids "route_window option" nat nat

fun event_time :: "limiter_event \<Rightarrow> nat" where
  "event_time (CheckEvent l limits scope now) = now"
| "event_time (RouteEvent l w now) = now"
| "event_time (TokensEvent l l' limits scope route tokens now) = now"

fun event_counters :: "limiter_event \<Rightarrow> counter list" where
  "event_counters (CheckEvent l limits scope now) = map counter_of (applicable_limits scope limits)"
| "event_counters (RouteEvent l w now) = [route_counter w]"
| "event_counters (TokensEvent l l' limits scope route tokens now) = []"

fun event_replied :: "limiter_event \<Rightarrow> bool" where
  "event_replied (CheckEvent (Replied n) limits scope now) = True"
| "event_replied (RouteEvent (Replied n) w now) = True"
| "event_replied _ = False"

fun limiter_step :: "'r redis_ops \<Rightarrow> limiter_event \<Rightarrow> 'r \<Rightarrow> 'r \<times> bool" where
  "limiter_step ops (CheckEvent l limits scope now) r =
     (let (limiter, hit) = check_at ops l (Some r) limits scope now in (the limiter, hit = None))"
| "limiter_step ops (RouteEvent l w now) r =
     (let (limiter, hit) = check_route_at ops l (Some r) w now in (the limiter, hit = None))"
| "limiter_step ops (TokensEvent l l' limits scope route tokens now) r =
     (the (token_recorder_record ops l l' (Some r) limits scope route tokens now), False)"

text \<open>
  How many requests the caps on a prefix let through, between two seconds, among those that were checked: a request
  that goes through because Redis did not answer is not one of them.
\<close>

fun passed_requests :: "'r redis_ops \<Rightarrow> string \<Rightarrow> nat \<Rightarrow> nat \<Rightarrow> limiter_event list \<Rightarrow> 'r \<Rightarrow> nat" where
  "passed_requests ops pre lo hi [] r = 0"
| "passed_requests ops pre lo hi (e # es) r =
     (let (r', passed) = limiter_step ops e r
      in (if passed \<and> event_replied e \<and> list_ex (\<lambda>c. co_prefix c = pre \<and> co_rpm c \<noteq> None) (event_counters e) \<and>
             lo \<le> event_time e \<and> event_time e < hi then 1 else 0) + passed_requests ops pre lo hi es r')"

lemma admit_cases:
  "admit ops l (Some r) cs now =
     (case l of
        NoConnection \<Rightarrow> (Some r, None)
      | Errored n \<Rightarrow> (Some (((\<lambda>r. fst (run_admit ops cs now r)) ^^ n) r), None)
      | Replied n \<Rightarrow>
          (let r' = ((\<lambda>r. fst (run_admit ops cs now r)) ^^ n) r
           in (Some (fst (run_admit ops cs now r')), map_option (\<lambda>(i, k). (i - 1, k)) (first_refusal ops r' now cs))))"
proof (cases l)
  case (Replied n)
  define r' where "r' = ((\<lambda>r. fst (run_admit ops cs now r)) ^^ n) r"
  show ?thesis
    using first_refusal_spec [where ops = ops and now = now and cs = cs and r = r'] Replied
    by (auto simp: admit_def Let_def run_admit_eq [of ops cs now r'] r'_def [symmetric] split: option.splits)
qed (simp_all add: admit_def Let_def)

lemma counter_refusal_kind:
  "counter_refusal ops r now c = Some k \<Longrightarrow> (k = 1 \<and> co_rpm c \<noteq> None) \<or> (k = 2 \<and> co_tpm c \<noteq> None)"
  by (auto simp: counter_refusal_def Let_def split: if_splits option.splits)

text \<open>What a caller is told is what the script said.\<close>

lemma check_at_verdict:
  assumes "applicable_limits scope limits \<noteq> []"
  shows "fst (check_at ops l (Some r) limits scope now) = fst (admit ops l (Some r) (map counter_of (applicable_limits scope limits)) now)"
    and "(snd (check_at ops l (Some r) limits scope now) = None) =
      (snd (admit ops l (Some r) (map counter_of (applicable_limits scope limits)) now) = None)"
proof -
  let ?cs = "map counter_of (applicable_limits scope limits)"
  show "fst (check_at ops l (Some r) limits scope now) = fst (admit ops l (Some r) ?cs now)"
    using assms by (simp add: check_at_def Let_def case_prod_unfold)
  have known: "i - 1 < length found \<and> kind_of k (rl_rpm (found ! (i - 1))) (rl_tpm (found ! (i - 1))) \<noteq> None"
    if "first_refusal ops r' now (map counter_of found) = Some (i, k)" for r' i k and found :: "rate_limit_config list"
    using first_refusal_spec [where ops = ops and r = r' and now = now and cs = "map counter_of found"]
      counter_refusal_kind [of ops r' now "map counter_of found ! (i - 1)" k] that
    by (auto simp: kind_of_def counter_of_def)
  show "(snd (check_at ops l (Some r) limits scope now) = None) = (snd (admit ops l (Some r) ?cs now) = None)"
  proof (cases "snd (admit ops l (Some r) ?cs now)")
    case None
    then show ?thesis using assms by (simp add: check_at_def Let_def case_prod_unfold)
  next
    case (Some v)
    then obtain r' i k where "first_refusal ops r' now ?cs = Some (i, k)" "v = (i - 1, k)"
      by (auto simp: admit_cases Let_def split: link.splits)
    with Some assms known [of r' "applicable_limits scope limits" i k] show ?thesis
      by (auto simp: check_at_def Let_def case_prod_unfold)
  qed
qed

lemma check_route_verdict:
  "fst (check_route_at ops l (Some r) w now) = fst (admit ops l (Some r) [route_counter w] now)"
  "(snd (check_route_at ops l (Some r) w now) = None) = (snd (admit ops l (Some r) [route_counter w] now) = None)"
proof -
  show "fst (check_route_at ops l (Some r) w now) = fst (admit ops l (Some r) [route_counter w] now)"
    by (simp add: check_route_at_def Let_def case_prod_unfold)
  have "kind_of k (rw_rpm w) (rw_tpm w) \<noteq> None" if "counter_refusal ops r' now (route_counter w) = Some k" for r' k
    using counter_refusal_kind [OF that] by (auto simp: kind_of_def route_counter_def)
  then show "(snd (check_route_at ops l (Some r) w now) = None) = (snd (admit ops l (Some r) [route_counter w] now) = None)"
    by (auto simp: check_route_at_def Let_def case_prod_unfold admit_cases split: link.splits option.splits)
qed

context redis_counters
begin

lemma admit_holds:
  assumes "holds ops r now until k n" "until \<le> now + BUCKET_TTL_SECS"
  shows "\<exists>r'. fst (admit ops l (Some r) cs now) = Some r' \<and> holds ops r' now until k n"
  using assms holds_runs [OF assms] holds_run [OF holds_runs [OF assms] assms(2)]
  by (auto simp: admit_cases Let_def split: link.splits)

lemma admit_counts:
  assumes "snd (admit ops (Replied i) (Some r) cs now) = None" "c \<in> set cs" "co_rpm c = Some cap" "cap \<le> u32_max"
    and "holds ops r now until (req_key (co_prefix c) (bucket_of now)) n" "now < until" "until \<le> now + BUCKET_TTL_SECS"
  shows "\<exists>r'. fst (admit ops (Replied i) (Some r) cs now) = Some r' \<and>
      holds ops r' now until (req_key (co_prefix c) (bucket_of now)) (Suc n) \<and> Suc n \<le> cap"
proof -
  let ?k = "req_key (co_prefix c) (bucket_of now)"
  define r0 where "r0 = ((\<lambda>r. fst (run_admit ops cs now r)) ^^ i) r"
  have h0: "holds ops r0 now until ?k n" unfolding r0_def by (rule holds_runs [OF assms(5,7)])
  have none: "first_refusal ops r0 now cs = None"
    using assms(1) by (simp add: admit_cases Let_def r0_def)
  then have "counter_refusal ops r0 now c = None"
    using first_refusal_spec [where ops = ops and r = r0 and now = now and cs = cs] assms(2) by simp
  from passed_below [OF this assms(3,4)] have "Suc n \<le> cap" using h0 assms(6) by (force simp: holds_def)
  moreover have "?k \<in> set (rpm_keys now cs)" using assms(2,3) by (auto simp: rpm_keys_def)
  then have "Suc n \<le> n + 1 * count_list (rpm_keys now cs) ?k"
    using count_list_0_iff [of "rpm_keys now cs" ?k] by (cases "count_list (rpm_keys now cs) ?k") auto
  with holds_charges [OF h0 assms(7), of 1 "rpm_keys now cs"]
  have "holds ops (fst (run_admit ops cs now r0)) now until ?k (Suc n)"
    using none by (auto simp: run_admit_eq holds_def intro: order_trans)
  ultimately show ?thesis by (simp add: admit_cases Let_def r0_def)
qed

lemma step_holds:
  assumes "holds ops r (event_time e) until k n" "until \<le> event_time e + BUCKET_TTL_SECS"
  shows "holds ops (fst (limiter_step ops e r)) (event_time e) until k n"
proof (cases e)
  case (CheckEvent l limits scope now)
  then show ?thesis
    using admit_holds [of r now until k n l "event_counters e"] check_at_verdict(1) [of scope limits ops l r now] assms
    by (cases "applicable_limits scope limits = []") (auto simp: case_prod_unfold check_at_def)
next
  case (RouteEvent l w now)
  then show ?thesis
    using admit_holds [of r now until k n l "event_counters e"] check_route_verdict(1) [of ops l r w now] assms
    by (auto simp: case_prod_unfold)
next
  case (TokensEvent l l' limits scope route tokens now)
  with assms show ?thesis
    by (auto simp: token_recorder_record_def record_tokens_def record_route_tokens_def Let_def intro!: holds_tokens
        simp del: add_tokens.simps split: option.splits)
qed

lemma step_counts:
  assumes "snd (limiter_step ops e r)" "event_replied e" "c \<in> set (event_counters e)" "co_rpm c = Some cap" "cap \<le> u32_max"
    and "holds ops r (event_time e) until (req_key (co_prefix c) (bucket_of (event_time e))) n"
    and "event_time e < until" "until \<le> event_time e + BUCKET_TTL_SECS"
  shows "holds ops (fst (limiter_step ops e r)) (event_time e) until (req_key (co_prefix c) (bucket_of (event_time e))) (Suc n) \<and> Suc n \<le> cap"
  using assms(2)
proof (cases e rule: event_replied.cases)
  case (1 i limits scope now)
  then have "applicable_limits scope limits \<noteq> []" using assms(3) by auto
  then show ?thesis
    using admit_counts [of i r "event_counters e" now c cap until n] check_at_verdict [of scope limits ops "Replied i" r now] assms 1
    by (auto simp: case_prod_unfold)
next
  case (2 i w now)
  then show ?thesis
    using admit_counts [of i r "event_counters e" now c cap until n] check_route_verdict [of ops "Replied i" r w now] assms
    by (auto simp: case_prod_unfold)
qed auto

lemma bucket_bound:
  assumes "cap \<le> u32_max"
    and "\<And>e c. e \<in> set es \<Longrightarrow> c \<in> set (event_counters e) \<Longrightarrow> co_prefix c = pre \<Longrightarrow> co_rpm c \<noteq> None \<Longrightarrow> co_rpm c = Some cap"
    and "sorted (map event_time es)" "\<And>e. e \<in> set es \<Longrightarrow> t0 \<le> event_time e"
    and "holds ops r t0 (60 * b + 120) (req_key pre (int b)) n" "n \<le> cap" "0 < n \<Longrightarrow> 60 * b \<le> t0"
  shows "n + passed_requests ops pre (60 * b) (60 * b + 60) es r \<le> cap"
  using assms(2-)
proof (induction es arbitrary: r n t0)
  case (Cons e es)
  let ?now = "event_time e" and ?until = "60 * b + 120" and ?k = "req_key pre (int b)"
  let ?r = "fst (limiter_step ops e r)"
  let ?counted = "snd (limiter_step ops e r) \<and> event_replied e \<and> list_ex (\<lambda>c. co_prefix c = pre \<and> co_rpm c \<noteq> None) (event_counters e) \<and>
    60 * b \<le> ?now \<and> ?now < 60 * b + 60"
  have here: "holds ops r ?now ?until ?k n" using Cons.prems(3,4) by (auto intro: holds_later)
  have later: "\<And>x. x \<in> set es \<Longrightarrow> ?now \<le> event_time x" and srt: "sorted (map event_time es)" using Cons.prems(2) by auto
  have known: "\<And>x c. x \<in> set es \<Longrightarrow> c \<in> set (event_counters x) \<Longrightarrow> co_prefix c = pre \<Longrightarrow> co_rpm c \<noteq> None \<Longrightarrow> co_rpm c = Some cap"
    by (rule Cons.prems(1) [OF list.set_intros(2)])
  show ?case
  proof (cases ?counted)
    case True
    then obtain c where c: "c \<in> set (event_counters e)" "co_prefix c = pre" "co_rpm c = Some cap"
      using Cons.prems(1) [of e] by (auto simp: list_ex_iff)
    have "?now div 60 = b" using True by (intro div_nat_eqI) auto
    then have b: "bucket_of ?now = int b" by (simp add: bucket_of_def WINDOW_SECS_def)
    have "holds ops ?r ?now ?until ?k (Suc n) \<and> Suc n \<le> cap"
      using step_counts [of e r c cap ?until n] True c assms(1) here b by (simp add: BUCKET_TTL_SECS_def WINDOW_SECS_def)
    with Cons.IH [where r = ?r and n = "Suc n" and ?t0.0 = ?now, OF known srt later] True show ?thesis by (simp add: case_prod_unfold Let_def)
  next
    case False
    have "holds ops ?r ?now ?until ?k n"
    proof (cases "n = 0")
      case False
      then have "60 * b \<le> ?now" using Cons.prems(3,6) by fastforce
      then show ?thesis using step_holds [OF here] by (simp add: BUCKET_TTL_SECS_def WINDOW_SECS_def)
    qed simp
    moreover have "0 < n \<Longrightarrow> 60 * b \<le> ?now" using Cons.prems(3,6) by fastforce
    ultimately have "n + passed_requests ops pre (60 * b) (60 * b + 60) es ?r \<le> cap"
      using Cons.IH [where r = ?r and n = n and ?t0.0 = ?now, OF known srt later] Cons.prems(5) by simp
    with False show ?thesis by (auto simp: case_prod_unfold Let_def)
  qed
qed simp

end

lemma passed_requests_split:
  "lo \<le> mid \<Longrightarrow> mid \<le> hi \<Longrightarrow>
   passed_requests ops pre lo hi es r = passed_requests ops pre lo mid es r + passed_requests ops pre mid hi es r"
  by (induction es arbitrary: r) (auto simp: case_prod_unfold Let_def)

lemma passed_requests_mono: "lo' \<le> lo \<Longrightarrow> hi \<le> hi' \<Longrightarrow> passed_requests ops pre lo hi es r \<le> passed_requests ops pre lo' hi' es r"
  by (induction es arbitrary: r) (auto simp: case_prod_unfold Let_def intro: le_SucI)

text \<open>
  C3: A request cap holds. However many gateways check requests and record tokens, in any order
  and with any replies of Redis lost and calls replayed, a counter with cap \<open>rpm\<close> lets at most \<open>rpm\<close> checked requests through in
  a minute of the clock, and at most twice as many in any sixty seconds.
\<close>

theorem rpm_enforced:
  assumes "redis_counters ops" "sorted (map event_time es)" "cap \<le> u32_max"
    and "\<forall>e\<in>set es. \<forall>c\<in>set (event_counters e). co_prefix c = pre \<and> co_rpm c \<noteq> None \<longrightarrow> co_rpm c = Some cap"
  shows "passed_requests ops pre (60 * b) (60 * b + 60) es r \<le> cap \<and> passed_requests ops pre a (a + 60) es r \<le> 2 * cap"
proof -
  have bucket: "passed_requests ops pre (60 * b) (60 * b + 60) es r \<le> cap" for b
    using redis_counters.bucket_bound [OF assms(1,3) _ assms(2), of pre 0 r b 0] assms(4) by simp
  define q where "q = a div 60"
  have q: "60 * q \<le> a" "a < 60 * q + 60" unfolding q_def by simp_all
  have "passed_requests ops pre a (a + 60) es r \<le> passed_requests ops pre (60 * q) (60 * q + 120) es r"
    using q by (intro passed_requests_mono) auto
  also have "\<dots> = passed_requests ops pre (60 * q) (60 * q + 60) es r + passed_requests ops pre (60 * q + 60) (60 * q + 120) es r"
    by (rule passed_requests_split) simp_all
  also have "\<dots> \<le> 2 * cap" using bucket [of q] bucket [of "q + 1"] by (simp add: algebra_simps)
  finally show ?thesis using bucket by simp
qed

end
