(* ===== verification/Rate_Limits_Spec.thy ===== *)
theory Rate_Limits_Spec
  imports Rate_Limits_Props Totp
begin

text \<open>What a refused and an admitted request leave behind, which caps share a counter, and concrete traffic.\<close>

section \<open>Refusals and admissions\<close>


context redis_counters
begin

lemma charges_held:
  "t \<le> t' \<Longrightarrow> t' < t + BUCKET_TTL_SECS \<Longrightarrow>
   held_counter ops (fold (\<lambda>key. charge_key ops t key m) keys r) t' k =
     (if k \<in> set keys then held_counter ops r t k + m * count_list keys k else held_counter ops r t' k)"
proof (induction keys arbitrary: r)
  case (Cons key keys)
  have "held_counter ops (charge_key ops t key m r) s k = (if k = key then held_counter ops r t k + m else held_counter ops r s k)"
    if "t \<le> s" "s < t + BUCKET_TTL_SECS" for s
    using charge_held that by blast
  with Cons show ?case by (auto simp: algebra_simps count_list_0_iff [THEN iffD2])
qed simp

lemma admission_charged:
  assumes "check_at ops (Replied 0) (Some r) limits scope now = (limiter, None)"
    and "now \<le> t" "t < now + BUCKET_TTL_SECS"
  shows "\<exists>r'. limiter = Some r' \<and> (\<forall>k. held_counter ops r' t k =
    (let keys = rpm_keys now (map counter_of (applicable_limits scope limits))
     in if k \<in> set keys then held_counter ops r now k + count_list keys k else held_counter ops r t k))"
proof (cases "applicable_limits scope limits = []")
  case True
  with assms(1) show ?thesis by (auto simp: check_at_def rpm_keys_def)
next
  case False
  let ?cs = "map counter_of (applicable_limits scope limits)"
  have none: "first_refusal ops r now ?cs = None"
    using check_at_verdict(2) [OF False, of ops "Replied 0" r now] assms(1) by (simp add: admit_cases Let_def)
  have "limiter = Some (fold (\<lambda>key. charge_key ops now key 1) (rpm_keys now ?cs) r)"
    using check_at_verdict(1) [OF False, of ops "Replied 0" r now] assms(1) none by (simp add: admit_cases Let_def run_admit_eq)
  then show ?thesis using charges_held [OF assms(2,3), of 1] by (simp add: Let_def)
qed

end

text \<open>
  What an admission costs. An admitted request adds one to the request counter of this minute for every limit that applies to
  it and caps requests, counted once per such limit, and changes no other counter; the counters stand for two minutes.
\<close>

theorem admission_charges:
  assumes "redis_counters ops" "check_at ops (Replied 0) (Some r) limits scope now = (limiter, None)" "now \<le> t" "t < now + 120"
  shows "\<exists>r'. limiter = Some r' \<and> (\<forall>k. held_counter ops r' t k =
    (let keys = map (\<lambda>l. bucket_key l ''req'' (bucket_of now)) (filter (\<lambda>l. rl_rpm l \<noteq> None) (applicable_limits scope limits))
     in if k \<in> set keys then held_counter ops r now k + count_list keys k else held_counter ops r t k))"
proof -
  have "rpm_keys now (map counter_of (applicable_limits scope limits)) =
      map (\<lambda>l. bucket_key l ''req'' (bucket_of now)) (filter (\<lambda>l. rl_rpm l \<noteq> None) (applicable_limits scope limits))"
    by (simp add: rpm_keys_def filter_map o_def counter_of_def bucket_key_def req_key_def)
  then show ?thesis
    using redis_counters.admission_charged [OF assms(1-3)] assms(4) by (simp add: BUCKET_TTL_SECS_def WINDOW_SECS_def)
qed

section \<open>Which caps share a counter\<close>

definition plain :: "string \<Rightarrow> bool" where
  "plain s \<longleftrightarrow> CHR '':'' \<notin> set s"

lemma colon_split: "plain a \<Longrightarrow> plain a' \<Longrightarrow> a @ CHR '':'' # b = a' @ CHR '':'' # b' \<longleftrightarrow> a = a' \<and> b = b'"
proof (induction a arbitrary: a')
  case Nil
  then show ?case by (cases a') (auto simp: plain_def)
next
  case (Cons x a)
  then show ?case by (cases a') (auto simp: plain_def)
qed

lemma colon_split_right: "plain b \<Longrightarrow> plain b' \<Longrightarrow> a @ CHR '':'' # b = a' @ CHR '':'' # b' \<longleftrightarrow> a = a' \<and> b = b'"
proof -
  assume "plain b" "plain b'"
  then have "rev b @ CHR '':'' # rev a = rev b' @ CHR '':'' # rev a' \<longleftrightarrow> rev b = rev b' \<and> rev a = rev a'"
    by (intro colon_split) (simp_all add: plain_def)
  moreover have "a @ CHR '':'' # b = a' @ CHR '':'' # b' \<longleftrightarrow> rev (a @ CHR '':'' # b) = rev (a' @ CHR '':'' # b')"
    by (simp only: rev_is_rev_conv)
  ultimately show ?thesis by auto
qed

lemma plain_show_int: "plain (show_int i)"
proof -
  have "plain (show_nat n)" for n
    using show_nat_digits [of n] by (auto simp: plain_def list_all_iff is_ascii_digit_def)
  then show ?thesis by (simp add: show_int_def plain_def)
qed

lemma plain_key_label: "plain (key_label s)" and key_label_eq: "key_label s = key_label s' \<longleftrightarrow> s = s'"
  by (cases s; simp add: plain_def) (cases s; cases s'; simp)

lemma show_nat_Nil [simp]: "show_nat n \<noteq> []" "[] \<noteq> show_nat n"
  by (simp_all add: show_nat.simps [of n])

lemma show_nat_inj: "show_nat m = show_nat n \<longleftrightarrow> m = n"
proof (induction m arbitrary: n rule: show_nat.induct)
  case (1 m)
  show ?case
  proof (cases "m < 10 \<or> n < 10")
    case True
    then show ?thesis by (auto simp: show_nat.simps [of m] show_nat.simps [of n])
  next
    case False
    with 1 have "show_nat m = show_nat n \<longleftrightarrow> m div 10 = n div 10 \<and> m mod 10 = n mod 10"
      by (auto simp: show_nat.simps [of m] show_nat.simps [of n])
    then show ?thesis by (metis div_mult_mod_eq)
  qed
qed

lemma show_int_inj: "show_int i = show_int j \<longleftrightarrow> i = j"
proof -
  have digit: "show_nat n \<noteq> CHR ''-'' # s" for n s
    using show_nat_digits [of n] by (auto simp: is_ascii_digit_def)
  show ?thesis
    using digit digit [THEN not_sym] show_nat_inj [of "nat i" "nat j"] show_nat_inj [of "nat (- i)" "nat (- j)"]
    by (auto simp: show_int_def)
qed

definition well_named :: "rate_limit_config \<Rightarrow> bool" where
  "well_named l \<longleftrightarrow> plain (rl_id l) \<and>
     (case rl_within l of None \<Rightarrow> True | Some (WithinOrg i) \<Rightarrow> plain i | Some (WithinProject i) \<Rightarrow> plain i)"

lemma key_segment_eq: "key_segment p = key_segment p' \<longleftrightarrow> p = p'"
  by (cases p; cases p') auto

lemma limit_prefix_eq:
  assumes "well_named l" "well_named l'"
  shows "limit_prefix l = limit_prefix l' \<longleftrightarrow> rl_scope l = rl_scope l' \<and> rl_id l = rl_id l' \<and> rl_within l = rl_within l'"
proof -
  have tail: "plain i \<Longrightarrow> plain i' \<Longrightarrow> i = i' @ CHR '':'' # s \<longleftrightarrow> False" "plain i \<Longrightarrow> plain i' \<Longrightarrow> i' @ CHR '':'' # s = i \<longleftrightarrow> False" for i i' s
    by (auto simp: plain_def)
  show ?thesis
    using assms
    by (cases "rl_within l"; cases "rl_within l'")
      (auto simp: limit_prefix_def well_named_def colon_split plain_key_label key_label_eq key_segment_eq tail)
qed

text \<open>
  Caps that count different things never share a counter. For ids without a colon (the
  store's are UUIDs), the keys of two limits' buckets are equal only for the same scope, id and narrowing, the same kind of count
  and the same minute.
\<close>

theorem counters_apart:
  assumes "well_named l" "well_named l'" "kind \<in> {''req'', ''tok''}" "kind' \<in> {''req'', ''tok''}"
  shows "bucket_key l kind b = bucket_key l' kind' b' \<longleftrightarrow>
    rl_scope l = rl_scope l' \<and> rl_id l = rl_id l' \<and> rl_within l = rl_within l' \<and> kind = kind' \<and> b = b'"
proof -
  have kinds: "plain kind" "plain kind'" using assms(3,4) by (auto simp: plain_def)
  have "bucket_key l kind b = bucket_key l' kind' b' \<longleftrightarrow>
      limit_prefix l @ CHR '':'' # kind = limit_prefix l' @ CHR '':'' # kind' \<and> show_int b = show_int b'"
    using colon_split_right [OF plain_show_int plain_show_int, of "limit_prefix l @ CHR '':'' # kind" b "limit_prefix l' @ CHR '':'' # kind'" b']
    by (simp add: bucket_key_def prefixed_bucket_key_def)
  then show ?thesis using colon_split_right [OF kinds] limit_prefix_eq [OF assms(1,2)] show_int_inj by auto
qed

section \<open>Traffic of one key\<close>

definition demo_scope :: scope_ids where
  "demo_scope = scope_ids_default\<lparr>si_key := ''k''\<rparr>"

definition demo_limit :: rate_limit_config where
  "demo_limit = \<lparr>rl_scope = KeyScope, rl_id = ''k'', rl_rpm = Some 2, rl_tpm = Some 100, rl_within = None\<rparr>"

definition demo_request :: "nat \<Rightarrow> limiter_event" where
  "demo_request now = CheckEvent (Replied 0) [demo_limit] demo_scope now"

lemma demo_counters:
  "event_counters (demo_request now) = [\<lparr>co_prefix = ''rolter:rl:key:k'', co_rpm = Some 2, co_tpm = Some 100\<rparr>]"
  by (simp add: demo_request_def applicable_limits_def scope_matches_def demo_limit_def demo_scope_def scope_ids_default_def request_scope_def
      counter_of_def limit_prefix_def)

theorem rpm_enforced_witness:
  "passed_requests counter_store ''rolter:rl:key:k'' 0 60 (map demo_request [10, 11, 12]) [] = 2 \<and>
   passed_requests counter_store ''rolter:rl:key:k'' (60 * 0) (60 * 0 + 60) (map demo_request [10, 11, 12]) [] \<le> 2"
proof -
  have "passed_requests counter_store ''rolter:rl:key:k'' 0 60 (map demo_request [10, 11, 12]) [] = 2" by code_simp
  moreover have "sorted (map event_time (map demo_request [10, 11, 12]))" "(2 :: nat) \<le> u32_max"
    by (simp_all add: demo_request_def u32_max_def)
  ultimately show ?thesis
    using rpm_enforced [OF counter_store.redis_counters_axioms, of "map demo_request [10, 11, 12]" 2 "''rolter:rl:key:k''" 0 "[]"]
      demo_counters by auto
qed

text \<open>
  The window is not a rolling one: two requests in the last second of a minute and one half a minute later are three
  in thirty-two seconds, under a cap of two.
\<close>

lemma window_overshoots:
  "passed_requests counter_store ''rolter:rl:key:k'' 59 91 (map demo_request [59, 59, 90]) [] = 3"
  by code_simp


theorem admission_charges_witness:
  "\<exists>r'. check_at counter_store (Replied 0) (Some []) [demo_limit] demo_scope 12 = (Some r', None) \<and>
     held_counter counter_store r' 100 ''rolter:rl:key:k:req:0'' = 1"
proof -
  have run: "check_at counter_store (Replied 0) (Some []) [demo_limit] demo_scope 12 = (Some [(''rolter:rl:key:k:req:0'', 1, Some 132)], None)"
    by code_simp
  have key: "bucket_key demo_limit ''req'' (bucket_of 12) = ''rolter:rl:key:k:req:0''" "applicable_limits demo_scope [demo_limit] = [demo_limit]"
    "rl_rpm demo_limit = Some 2" by code_simp+
  have "held_counter counter_store [] 12 k = 0" for k
    by (simp add: held_counter_def counter_store_def store_get_def)
  moreover have "count_list [''rolter:rl:key:k:req:0''] ''rolter:rl:key:k:req:0'' = 1" by simp
  ultimately have "held_counter counter_store [(''rolter:rl:key:k:req:0'', 1, Some 132)] 100 ''rolter:rl:key:k:req:0'' = 1"
    using admission_charges [OF counter_store.redis_counters_axioms run, of 100] by (simp only: key) (simp add: key)
  with run show ?thesis by blast
qed

text \<open>
  Two rows of the same scope share one counter, and every request is charged to it once per row: with two limits of two requests
  per minute on one key, the second request is refused.
\<close>

lemma second_row_halves_the_cap:
  "passed_requests counter_store ''rolter:rl:key:k'' 0 60
     (map (CheckEvent (Replied 0) [demo_limit, demo_limit] demo_scope) [10, 11]) [] = 1"
  by code_simp

theorem counters_apart_witness:
  "bucket_key demo_limit ''req'' 0 \<noteq> bucket_key (demo_limit\<lparr>rl_scope := UserScope\<rparr>) ''req'' 0"
  using counters_apart [of demo_limit "demo_limit\<lparr>rl_scope := UserScope\<rparr>" "''req''" "''req''" 0 0]
  by (simp add: well_named_def plain_def demo_limit_def)

end
