(* ===== verification/Budgets.thy ===== *)
theory Budgets
  imports Rate_Limits_Spec
begin

text \<open>
  Spend caps (\<open>rolter-gateway/src/budgets.rs\<close>, the budget stages of \<open>handlers.rs\<close>): which budgets a request counts against,
  when one refuses it, what is added after the response, and the policy for models without a price. The
  counters are binary floats inside Redis: what the model keeps of it is the answer to \<open>MGET\<close>, an argument, and the commands
  that are sent. An enforcer without Redis is \<open>False\<close>.
\<close>

section \<open>Admission\<close>

text \<open>How \<open>MGET\<close> ends: no connection, an error, or one optional string per key.\<close>

datatype mget_answer = MgetUnreachable | MgetError | MgetValues "string \<Rightarrow> string option"

fun first_spent :: "(string \<Rightarrow> rat option) \<Rightarrow> (budget_config \<times> string option) list \<Rightarrow> budget_config option" where
  "first_spent parse_decimal [] = None"
| "first_spent parse_decimal ((b, spent) # rest) =
     (let amount = (case Option.bind spent parse_decimal of Some a \<Rightarrow> a | None \<Rightarrow> 0)
      in if bc_limit_usd b \<le> amount then Some b else first_spent parse_decimal rest)"

definition exceeded ::
  "(string \<Rightarrow> rat option) \<Rightarrow> 't calendar \<Rightarrow> bool \<Rightarrow> mget_answer \<Rightarrow> 't \<Rightarrow> budget_config list \<Rightarrow> scope_ids \<Rightarrow> budget_config option"
where
  "exceeded parse_decimal cal redis answer now budgets scope =
     (if \<not> redis then None
      else
        let found = applicable scope budgets
        in if found = [] then None
           else case find (\<lambda>b. bc_period b = UnknownPeriod) found of
                  Some b \<Rightarrow> Some b
                | None \<Rightarrow>
                    (case answer of
                       MgetUnreachable \<Rightarrow> None
                     | MgetError \<Rightarrow> first_spent parse_decimal (zip found (replicate (length found) None))
                     | MgetValues get \<Rightarrow> first_spent parse_decimal (zip found (map (\<lambda>b. get (spend_key cal b now)) found))))"

section \<open>Recording spend\<close>

datatype redis_cmd = IncrByFloat string rat | Expire string nat

text \<open>One flag per budget: whether its increment succeeded.\<close>

fun record_loop :: "'t calendar \<Rightarrow> 't \<Rightarrow> rat \<Rightarrow> (budget_config \<times> bool) list \<Rightarrow> redis_cmd list" where
  "record_loop cal now cost [] = []"
| "record_loop cal now cost ((b, incr_ok) # rest) =
     (let key = spend_key cal b now
      in IncrByFloat key cost #
         (if \<not> incr_ok then record_loop cal now cost rest
          else case ttl_secs (bc_period b) of
                 Some ttl \<Rightarrow> Expire key ttl # record_loop cal now cost rest
               | None \<Rightarrow> record_loop cal now cost rest))"

definition record_spend ::
  "'t calendar \<Rightarrow> bool \<Rightarrow> bool \<Rightarrow> (budget_config \<Rightarrow> bool) \<Rightarrow> 't \<Rightarrow> budget_config list \<Rightarrow> scope_ids \<Rightarrow> rat \<Rightarrow> redis_cmd list"
where
  "record_spend cal redis reachable incr_ok now budgets scope cost =
     (if cost \<le> 0 \<or> \<not> redis then []
      else
        let found = applicable scope budgets
        in if found = [] \<or> \<not> reachable then []
           else record_loop cal now cost (map (\<lambda>b. (b, incr_ok b)) (filter (\<lambda>b. bc_period b \<noteq> UnknownPeriod) found)))"

section \<open>Models without a price\<close>

definition UNPRICED_WARN_WINDOW :: nat where "UNPRICED_WARN_WINDOW = from_secs 3600"

type_synonym warn_log = "(string, nat) hash_map"

definition should_log :: "warn_log \<Rightarrow> nat \<Rightarrow> string \<Rightarrow> bool \<times> warn_log" where
  "should_log lst now model =
     (case hm_get lst model of
        Some at_time \<Rightarrow> if now - at_time < UNPRICED_WARN_WINDOW then (False, lst) else (True, hm_insert model now lst)
      | None \<Rightarrow> (True, hm_insert model now lst))"

datatype unpriced_decision = Serve | Refuse

definition decide_unpriced :: "unpriced_policy \<Rightarrow> string \<Rightarrow> nat \<Rightarrow> warn_log \<Rightarrow> unpriced_decision \<times> bool \<times> warn_log" where
  "decide_unpriced policy model now lst =
     (case policy of
        IgnoreUnpriced \<Rightarrow> (Serve, False, lst)
      | WarnUnpriced \<Rightarrow> (Serve, should_log lst now model)
      | BlockUnpriced \<Rightarrow> (Refuse, False, lst)
      | UnknownUnpriced \<Rightarrow> (Refuse, False, lst))"

text \<open>The derived order of the enum.\<close>

fun policy_rank :: "unpriced_policy \<Rightarrow> nat" where
  "policy_rank IgnoreUnpriced = 0"
| "policy_rank WarnUnpriced = 1"
| "policy_rank BlockUnpriced = 2"
| "policy_rank UnknownUnpriced = 3"

definition policy_max :: "unpriced_policy \<Rightarrow> unpriced_policy \<Rightarrow> unpriced_policy" where
  "policy_max a b = (if policy_rank a \<le> policy_rank b then b else a)"

definition resolve_unpriced_policy :: "unpriced_policy \<Rightarrow> budget_config list \<Rightarrow> scope_ids \<Rightarrow> unpriced_policy" where
  "resolve_unpriced_policy deployment budgets scope =
     foldl policy_max deployment (List.map_filter bc_unpriced_policy (applicable scope budgets))"

section \<open>The stages of a request\<close>

definition budget_exceeded_message :: "(rat \<Rightarrow> string) \<Rightarrow> budget_config \<Rightarrow> string" where
  "budget_exceeded_message two_decimals b =
     ''budget exceeded for '' @ scope_debug (bc_scope b) @ '' '' @ quoted (bc_id b) @ '' (limit $'' @ two_decimals (bc_limit_usd b) @ '')''"

definition budget_refusal ::
  "(rat \<Rightarrow> string) \<Rightarrow> (string \<Rightarrow> rat option) \<Rightarrow> 't calendar \<Rightarrow> bool \<Rightarrow> mget_answer \<Rightarrow> 't \<Rightarrow> budget_config list \<Rightarrow> scope_ids \<Rightarrow> refusal option"
where
  "budget_refusal two_decimals parse_decimal cal redis answer now budgets scope =
     map_option (\<lambda>b. \<lparr>rf_status = 402, rf_message = budget_exceeded_message two_decimals b, rf_code = ''insufficient_quota'',
                      rf_retry_after = None\<rparr>) (exceeded parse_decimal cal redis answer now budgets scope)"

definition unpriced_admission ::
  "unpriced_policy \<Rightarrow> budget_config list \<Rightarrow> scope_ids \<Rightarrow> string \<Rightarrow> bool \<Rightarrow> nat \<Rightarrow> warn_log \<Rightarrow> refusal option \<times> bool \<times> warn_log"
where
  "unpriced_admission deployment budgets scope model priced now lst =
     (if priced then (None, False, lst)
      else
        let (decision, logged, lst') = decide_unpriced (resolve_unpriced_policy deployment budgets scope) model now lst
        in (case decision of
              Serve \<Rightarrow> None
            | Refuse \<Rightarrow> Some \<lparr>rf_status = 402,
                rf_message = ''model '' @ quoted model @ '' has no price, so its cost cannot be counted against a '' @
                  ''budget. This deployment, or a budget that applies to this key, is '' @
                  ''configured to refuse traffic it cannot account for; set a price for '' @ ''this model to serve it.'',
                rf_code = ''model_unpriced'', rf_retry_after = None\<rparr>, logged, lst'))"

end
