(* ===== verification/Budgets_Props.thy ===== *)
theory Budgets_Props
  imports Budgets
begin

text \<open>What budgets enforce and record, and how the policy for models without a price resolves.\<close>

section \<open>Refusals\<close>

lemma first_spent_spec:
  "case first_spent parse_decimal (map (\<lambda>b. (b, f b)) bs) of
     None \<Rightarrow> \<forall>b\<in>set bs. (case Option.bind (f b) parse_decimal of Some a \<Rightarrow> a | None \<Rightarrow> 0) < bc_limit_usd b
   | Some b \<Rightarrow> b \<in> set bs \<and> bc_limit_usd b \<le> (case Option.bind (f b) parse_decimal of Some a \<Rightarrow> a | None \<Rightarrow> 0)"
  by (induction bs) (auto simp: Let_def not_le split: option.splits)

text \<open>What a budget has spent when the counters can be read.\<close>

definition spent_of :: "(string \<Rightarrow> rat option) \<Rightarrow> 't calendar \<Rightarrow> (string \<Rightarrow> string option) \<Rightarrow> 't \<Rightarrow> budget_config \<Rightarrow> rat" where
  "spent_of parse_decimal cal get now b = (case Option.bind (get (spend_key cal b now)) parse_decimal of Some a \<Rightarrow> a | None \<Rightarrow> 0)"

lemma zip_map_same: "zip xs (map f xs) = map (\<lambda>x. (x, f x)) xs"
  by (induction xs) auto

text \<open>
  C9: When a spend cap refuses. With the counters readable, a request goes on exactly when every budget on its scope chain
  has a window this build knows and has spent less than its limit; a request that is refused is told of a budget of its own chain for which that
  fails. Spending exactly the limit refuses.
\<close>

theorem budgets_enforced:
  "case exceeded parse_decimal cal True (MgetValues get) now budgets scope of
     None \<Rightarrow> list_all (\<lambda>b. scope_matches scope (bc_scope b) (bc_id b) (bc_within b) \<longrightarrow>
       bc_period b \<noteq> UnknownPeriod \<and> spent_of parse_decimal cal get now b < bc_limit_usd b) budgets
   | Some b \<Rightarrow> b \<in> set budgets \<and> scope_matches scope (bc_scope b) (bc_id b) (bc_within b) \<and>
       (bc_period b = UnknownPeriod \<or> bc_limit_usd b \<le> spent_of parse_decimal cal get now b)"
proof (cases "find (\<lambda>b. bc_period b = UnknownPeriod) (applicable scope budgets)")
  case (Some b)
  then have b: "b \<in> set (applicable scope budgets)" "bc_period b = UnknownPeriod" by (auto simp: find_Some_iff)
  then have "exceeded parse_decimal cal True (MgetValues get) now budgets scope = Some b"
    using Some by (auto simp: exceeded_def Let_def)
  with b show ?thesis by (simp add: applicable_def)
next
  case None
  let ?found = "applicable scope budgets"
  have known: "bc_period b \<noteq> UnknownPeriod" if "b \<in> set ?found" for b using None that by (simp add: find_None_iff)
  have "exceeded parse_decimal cal True (MgetValues get) now budgets scope =
      first_spent parse_decimal (map (\<lambda>b. (b, get (spend_key cal b now))) ?found)"
    using None by (simp add: exceeded_def zip_map_same Let_def)
  moreover have "x \<in> set ?found \<longleftrightarrow> x \<in> set budgets \<and> scope_matches scope (bc_scope x) (bc_id x) (bc_within x)" for x
    by (auto simp: applicable_def)
  ultimately show ?thesis
    using first_spent_spec [where parse_decimal = parse_decimal and f = "\<lambda>b. get (spend_key cal b now)" and bs = ?found] known
    by (cases "first_spent parse_decimal (map (\<lambda>b. (b, get (spend_key cal b now))) ?found)") (auto simp: spent_of_def list_all_iff)
qed

section \<open>What is recorded\<close>

fun increments :: "string \<Rightarrow> redis_cmd list \<Rightarrow> rat" where
  "increments k [] = 0"
| "increments k (IncrByFloat key cost # cmds) = (if key = k then cost else 0) + increments k cmds"
| "increments k (Expire key ttl # cmds) = increments k cmds"

lemma record_loop_increments:
  "increments k (record_loop cal now cost (map (\<lambda>b. (b, ok b)) bs)) =
     cost * of_nat (count_list (map (\<lambda>b. spend_key cal b now) bs) k)"
  by (induction bs) (auto simp: Let_def algebra_simps split: option.splits)


section \<open>Which budgets share a counter\<close>

definition budget_well_named :: "'t calendar \<Rightarrow> budget_config \<Rightarrow> 't \<Rightarrow> bool" where
  "budget_well_named cal b now \<longleftrightarrow> plain (bc_id b) \<and> plain (period_bucket cal (bc_period b) now) \<and>
     (case bc_within b of None \<Rightarrow> True | Some (WithinOrg i) \<Rightarrow> plain i | Some (WithinProject i) \<Rightarrow> plain i)"

definition budget_prefix :: "budget_config \<Rightarrow> string" where
  "budget_prefix b = limit_prefix \<lparr>rl_scope = bc_scope b, rl_id = bc_id b, rl_rpm = None, rl_tpm = None, rl_within = bc_within b\<rparr>"

lemma spend_key_eq:
  assumes "budget_well_named cal b now" "budget_well_named cal b' now'"
  shows "spend_key cal b now = spend_key cal b' now' \<longleftrightarrow>
    bc_scope b = bc_scope b' \<and> bc_id b = bc_id b' \<and> bc_within b = bc_within b' \<and>
    period_bucket cal (bc_period b) now = period_bucket cal (bc_period b') now'"
proof -
  let ?p = "\<lambda>b. period_bucket cal (bc_period b)"
  have key: "drop 14 (spend_key cal c t) = drop 10 (budget_prefix c) @ CHR '':'' # ?p c t \<and> take 14 (spend_key cal c t) = ''rolter:budget:'' \<and>
      take 10 (budget_prefix c) = ''rolter:rl:''" for c t
    by (simp add: spend_key_def budget_prefix_def limit_prefix_def split: option.splits)
  have "spend_key cal b now = spend_key cal b' now' \<longleftrightarrow> drop 14 (spend_key cal b now) = drop 14 (spend_key cal b' now')"
    using key by (metis append_take_drop_id)
  also have "\<dots> \<longleftrightarrow> drop 10 (budget_prefix b) = drop 10 (budget_prefix b') \<and> ?p b now = ?p b' now'"
    using key assms colon_split_right by (simp add: budget_well_named_def)
  also have "\<dots> \<longleftrightarrow> budget_prefix b = budget_prefix b' \<and> ?p b now = ?p b' now'"
    using key by (metis append_take_drop_id)
  finally show ?thesis
    using assms limit_prefix_eq by (simp add: budget_prefix_def budget_well_named_def well_named_def)
qed

section \<open>The policy for models without a price\<close>

lemma policy_max_rank: "policy_rank (policy_max a b) = max (policy_rank a) (policy_rank b)"
  by (simp add: policy_max_def)

lemma foldl_policy:
  "foldl policy_max d ps \<in> insert d (set ps) \<and> (\<forall>p\<in>insert d (set ps). policy_rank p \<le> policy_rank (foldl policy_max d ps))"
proof (induction ps arbitrary: d)
  case (Cons p ps)
  have "policy_max d p \<in> {d, p}" by (simp add: policy_max_def)
  with Cons.IH [of "policy_max d p"] show ?case by (auto simp: policy_max_rank)
qed simp

lemma policy_rank_eq: "policy_rank p = policy_rank q \<longleftrightarrow> p = q"
  by (cases p; cases q) auto

text \<open>
  A budget can only tighten what happens to a model without a price. The policy of a request is the strictest of the deployment's
  and of those set on the budgets of its scope chain; so a request that the deployment's policy alone refuses is refused, and
  one that a budget of its chain would refuse is refused, whatever other budgets say.
\<close>

theorem unpriced_only_tightens:
  "resolve_unpriced_policy deployment budgets scope \<in> insert deployment (set (List.map_filter bc_unpriced_policy (applicable scope budgets))) \<and>
   (\<forall>p \<in> insert deployment (set (List.map_filter bc_unpriced_policy (applicable scope budgets))).
      policy_rank p \<le> policy_rank (resolve_unpriced_policy deployment budgets scope) \<and>
      (fst (decide_unpriced p model now lst) = Refuse \<longrightarrow>
       fst (unpriced_admission deployment budgets scope model False now' lst') \<noteq> None))"
proof (intro conjI ballI impI)
  let ?ps = "List.map_filter bc_unpriced_policy (applicable scope budgets)"
  let ?r = "resolve_unpriced_policy deployment budgets scope"
  show "?r \<in> insert deployment (set ?ps)" using foldl_policy [of deployment ?ps] by (simp add: resolve_unpriced_policy_def)
  fix p assume p: "p \<in> insert deployment (set ?ps)"
  then show rank: "policy_rank p \<le> policy_rank ?r"
    using foldl_policy [of deployment ?ps] by (auto simp: resolve_unpriced_policy_def)
  assume "fst (decide_unpriced p model now lst) = Refuse"
  then have "2 \<le> policy_rank p" by (cases p) (auto simp: decide_unpriced_def)
  then have "?r = BlockUnpriced \<or> ?r = UnknownUnpriced" using rank by (cases ?r) auto
  then show "fst (unpriced_admission deployment budgets scope model False now' lst') \<noteq> None"
    by (auto simp: unpriced_admission_def decide_unpriced_def Let_def)
qed

section \<open>An organisation with two budgets\<close>

definition demo_calendar :: "nat calendar" where
  "demo_calendar = \<lparr>ca_day = (\<lambda>_. ''20260101''), ca_month = (\<lambda>_. ''202601'')\<rparr>"

definition demo_budget :: budget_config where
  "demo_budget = \<lparr>bc_scope = OrgScope, bc_id = ''o'', bc_limit_usd = 10, bc_period = Monthly, bc_unpriced_policy = Some BlockUnpriced,
     bc_within = None\<rparr>"

definition org_scope :: scope_ids where
  "org_scope = scope_ids_default\<lparr>si_org := ''o''\<rparr>"


theorem budgets_enforced_witness:
  "exceeded (\<lambda>s. if s = ''10'' then Some 10 else None) demo_calendar True (MgetValues (\<lambda>_. Some ''10'')) 0 [demo_budget] org_scope = Some demo_budget \<and>
   bc_limit_usd demo_budget \<le> spent_of (\<lambda>s. if s = ''10'' then Some 10 else None) demo_calendar (\<lambda>_. Some ''10'') 0 demo_budget"
proof -
  have run: "exceeded (\<lambda>s. if s = ''10'' then Some 10 else None) demo_calendar True (MgetValues (\<lambda>_. Some ''10'')) 0 [demo_budget] org_scope = Some demo_budget"
    by code_simp
  have "bc_period demo_budget \<noteq> UnknownPeriod" by code_simp
  with budgets_enforced [where parse_decimal = "\<lambda>s. if s = ''10'' then Some 10 else None" and cal = demo_calendar and
      get = "\<lambda>_. Some ''10''" and now = 0 and budgets = "[demo_budget]" and scope = org_scope] run
  show ?thesis by auto
qed

theorem unpriced_only_tightens_witness:
  "fst (unpriced_admission IgnoreUnpriced [demo_budget] org_scope ''m'' False 0 []) \<noteq> None"
proof -
  have "BlockUnpriced \<in> set (List.map_filter bc_unpriced_policy (applicable org_scope [demo_budget]))" by code_simp
  then show ?thesis
    using unpriced_only_tightens [of IgnoreUnpriced "[demo_budget]" org_scope "''m''" 0 "[]" 0 "[]"]
    by (auto simp: decide_unpriced_def)
qed

text \<open>
  Two monthly budgets on one organisation, one of them stored with the period \<open>30d\<close>, keep their spend under one key, and each
  response is added to it twice: responses that cost 4 and 4 stand at 16, so that caps of 10 and of 15 both refuse the third request after 8 were spent.
\<close>

lemma two_budgets_count_twice:
  "increments (spend_key demo_calendar demo_budget 0)
     (record_spend demo_calendar True True (\<lambda>_. True) 0
        (load_budgets (\<lambda>_. Some 10) 0
          [\<lparr>wb_scope_type = ''org'', wb_scope_id = ''o'', wb_limit_usd = ''10'', wb_period = ''monthly'', wb_unpriced_policy = None,
            wb_within_org_id = None, wb_within_project_id = None\<rparr>,
           \<lparr>wb_scope_type = ''org'', wb_scope_id = ''o'', wb_limit_usd = ''15'', wb_period = ''30d'', wb_unpriced_policy = None,
            wb_within_org_id = None, wb_within_project_id = None\<rparr>]) org_scope 4) = 8"
  by code_simp

end
