(* ===== verification/Spec2Isabelle.thy ===== *)
theory Spec2Isabelle
  imports Cooldowns Breaker Health Load Route_Limits Predictor Balancer_Contract Balancer_Props Trie Usable
    Failover Secret_Env Route_Config Namespace Access_Props Routing_Props Forward_Spec
    Login_Throttle_Props Totp Mfa_Policy Mfa_Schema Rbac_Spec Api_Tokens_Spec
    Budgets_Props Rate_Limits_Spec
begin

text \<open>
  A verification library for rolter, an LLM gateway written in Rust. The gateway takes an
  OpenAI-style request, authenticates its virtual key, resolves the model name to a route in the
  caller's organisation, picks one of the route's upstream targets, forwards the request with retries,
  and streams the answer back. This root imports the theories below; each opens with what it holds.

  \<^bold>\<open>Shared ground.\<close> \<open>Prelude\<close>: hash maps as distinct association lists (locale \<open>hm\<close>), the slot tables
  of the per-target registries, saturating counters, time. \<open>Strings\<close>: UTF-8 strings as byte lists and
  the parts of \<open>str\<close> the code uses. \<open>Ieee_Float\<close>: rationals rounded to binary32 and binary64.

  \<^bold>\<open>Per-target registries\<close> (\<open>rolter-gateway/src\<close>): \<open>Target_Mask\<close> (\<open>target_mask.rs\<close>), \<open>Cooldowns\<close>
  (\<open>cooldowns.rs\<close>), \<open>Breaker\<close> (\<open>breaker.rs\<close>: the circuit breaker as a step relation over its calls, with
  its refinement to a machine per target), \<open>Health\<close> (\<open>health.rs\<close>, the hysteresis of the active prober and
  its back-off), \<open>Load\<close> (\<open>load.rs\<close>, in-flight guards and latency averages), \<open>Route_Limits\<close>
  (\<open>route_limits.rs\<close>, concurrency permits), \<open>Predictor\<close> (\<open>rolter-balancer/src/predictor.rs\<close>).

  \<^bold>\<open>Balancing\<close> (\<open>rolter-balancer/src\<close>): \<open>Trie\<close> (\<open>trie.rs\<close>), \<open>Usable\<close>, \<open>Balancer\<close> and \<open>Balancer_Props\<close>
  (\<open>lib.rs\<close>: round robin, smooth weighted rotation, random, power of two, consistent hashing, cache
  affinity). \<open>Balancer_Contract\<close> states what the gateway relies on as the locales \<open>load_balancer\<close> and
  \<open>total_balancer\<close> and interprets them on each strategy and on what \<open>build\<close> builds.

  \<^bold>\<open>Configuration and names\<close> (\<open>rolter-core/src\<close>): \<open>Failover\<close> (\<open>failover.rs\<close>, failure classes and what a
  restricted fallback takes over), \<open>Secret_Env\<close> (\<open>secret_env.rs\<close>), \<open>Route_Config\<close> (the route, target,
  variant, key-pool, retry and cooldown parts of \<open>config.rs\<close>), \<open>Namespace\<close> (\<open>slug.rs\<close>, \<open>namespace.rs\<close>).

  \<^bold>\<open>Requests\<close> (\<open>rolter-gateway/src/state.rs\<close>, \<open>handlers.rs\<close>, \<open>failover.rs\<close>): \<open>Access\<close> and \<open>Access_Props\<close>
  (virtual keys, access profiles, authentication, the model and route gates, route resolution),
  \<open>Routing\<close> and \<open>Routing_Props\<close> (which target an attempt dials), \<open>Forwarding\<close> (the forward loop),
  \<open>Forwarding_Props\<close>, \<open>Forward_Results\<close> and \<open>Forward_Spec\<close> (what a forwarded request guarantees).

  \<^bold>\<open>Signing in\<close> (\<open>rolter-control/src\<close>, \<open>rolter-auth/src\<close>, \<open>rolter-store/src/postgres/repo\<close>): \<open>Login_Throttle\<close> and
  \<open>Login_Throttle_Props\<close> (\<open>login_throttle.rs\<close> on its in-process backend, the password step of \<open>login\<close>),
  \<open>Totp\<close> (\<open>totp.rs\<close>, \<open>hex.rs\<close>), \<open>Mfa_Store\<close> (the statements of \<open>repo/mfa.rs\<close> and of the sessions in
  \<open>repo/auth.rs\<close> on their tables), \<open>Mfa\<close> (the handlers of \<open>mfa.rs\<close>, the rest of \<open>login\<close>, \<open>issue_session\<close>,
  \<open>CurrentUser\<close> and \<open>logout\<close>: a handler is a tree of database statements and continuations). \<open>Mfa_Runs\<close>
  lets any number of them interleave statement by statement, \<open>Mfa_Budgets\<close> adds up what challenges and
  codes can be used for (locale \<open>budget\<close>), \<open>Mfa_Factor\<close>, \<open>Mfa_Props\<close>, \<open>Mfa_Spec\<close>, \<open>Mfa_Policy\<close> and
  \<open>Mfa_Schema\<close> hold what follows.

  \<^bold>\<open>Authority in the control plane\<close> (\<open>rolter-control/src\<close>): \<open>Rbac\<close> (\<open>rbac.rs\<close> and the rules of \<open>rbac_matrix.rs\<close>:
  principals, scope chains, the guard, the filter of listings, the answer for a dashboard), \<open>Rbac_Table\<close> (the
  capability table itself, row by row), \<open>Rbac_Props\<close> and \<open>Rbac_Spec\<close> (the locale \<open>gate\<close> and its three
  implementations; what the guard decides). \<open>Api_Tokens\<close> (\<open>api_tokens.rs\<close>: the handlers and the statements on the token
  table), \<open>Api_Tokens_Props\<close> (requests interleaving: \<open>token_step\<close>) and \<open>Api_Tokens_Spec\<close>.

  \<^bold>\<open>Caps\<close> (\<open>rolter-gateway/src\<close>, the cap sections of \<open>rolter-core/src/config.rs\<close>, their loading in
  \<open>rolter-store/src/postgres/mod.rs\<close>): \<open>Caps\<close> (scopes, budgets and throughput limits, which of them apply to a
  request, and how rows become them), \<open>Redis_Counters\<close> (what the code relies on in Redis, as the locale
  \<open>redis_counters\<close>, interpreted on a store with expiry), \<open>Rate_Limits\<close> (\<open>rate_limits.rs\<close>: the admission script with
  its index arithmetic, the calls around it, the stages of \<open>handlers.rs\<close>), \<open>Rate_Limits_Props\<close> (the script cap by
  cap, counters along a history of calls) and \<open>Rate_Limits_Spec\<close>, \<open>Budgets\<close> (\<open>budgets.rs\<close> and the stages that use
  it) and \<open>Budgets_Props\<close>. Redis, the calendar labels of a period and the decimal parser are arguments; the
  gateways and Redis are taken to read one clock.

  \<^bold>\<open>How the parts interact.\<close> A request resolves a route (\<open>resolve_for\<close>), whose entry holds a balancer. An
  attempt asks the balancer for a target among those the key, the last failure, the cooldowns, the
  prober and the breaker leave (\<open>pick\<close>, \<open>next_candidate\<close>), opens an in-flight guard (\<open>begin_load\<close>), picks
  a provider key (\<open>pick_key\<close>), and settles what comes back into the cooldowns and the breaker
  (\<open>settle_response\<close>, \<open>settle_error\<close>). \<open>forward_request\<close> is the composition; its theorems rest on those of
  the registries, the load tracker and the selection.

  \<^bold>\<open>Correspondence.\<close> A struct is a record whose fields carry a short prefix, an enum a datatype, a
  method a function of the same name that takes the state and returns it updated; a mutex or an atomic
  is the state threaded through. A registry built inert is \<open>None\<close>. An instant or a duration is a
  number of nanoseconds; \<open>u8\<close>, \<open>u32\<close>, \<open>u64\<close> and \<open>usize\<close> counters are naturals with their saturation
  written out, wrapping cursors and masks are 64-bit words, floats are rationals rounded at each
  operation. A panic is \<open>None\<close> of \<open>may_panic\<close>. Clock readings, random draws and jitter, the seeded
  hash, digests, the JSON parser, environment variables, the Unicode lowercase table, header decoding
  and the answers of upstreams are arguments.

  \<^bold>\<open>Loops.\<close> Every loop is a structurally recursive or well-founded function; there is no fuel. The
  attempts of a request run over \<open>[0..<retries + 1]\<close> as in the code.

  \<^bold>\<open>What is shown.\<close> Isolation: organisations, keys and providers a caller has no part in cannot influence
  what it resolves or dials. Accounting: in-flight counts, concurrency permits and half-open probes are
  given back on every path. Selection: an attempt dials an available target whenever there is one.
  Answers: what a caller receives is what an allowed target answered, byte for byte, and never an
  upstream's credential refusal. Fairness of weighted rotation, stability of consistent hashing,
  correctness of the prefix trie, bounds of back-offs and averages, round trips of names and classes.
  Signing in: how many passwords and codes can be tried, and that over every interleaving of requests no
  session is written past the second factor, no step of a code is spent twice, and every request is
  answered. Authority: tenants are closed to each other, listings and the dashboard agree with the guard, tokens
  stay within their scope, their lifetime and, for an admin's, their minter's authority, and a revoked one stays dead.
  Caps: no order of checks, lost replies and replays lets more requests through than a cap and its window allow; a
  request goes on just when every budget on its chain has money left, what it costs is recorded on each of them,
  and a refusal charges nothing.

  \<^bold>\<open>Not modelled.\<close> The rest of the Postgres store, of the control plane's HTTP handlers and the UI (row
  CRUD over a database); the Redis backend of the login throttle; request and response translation between vendor dialects, realtime sessions, the MCP
  proxy, caching, guardrails and plugins (their bodies are JSON or streams handled by libraries or by
  external services); logging, metrics and telemetry (output only); the scoring pipelines of the
  adaptive strategy (an argument of the model); the configuration parser and its validators beyond the
  parts named above.
\<close>

end
